(* ===== verification/Prelude.thy ===== *)
theory Prelude
  imports Main "HOL-Library.Word" "HOL-Library.Sublist"
begin

text \<open>
  What the components of the development share: the fixed-width integer types of the C++
  sources, results of operations that may throw or may run into undefined behaviour, the
  collections of rewrite rules the component proofs use, and generic facts on lists and words.
\<close>

unbundle bit_operations_syntax

section \<open>Types and results\<close>

type_synonym byte = "8 word"
type_synonym u16 = "16 word"
type_synonym u32 = "32 word"
type_synonym u64 = "64 word"

text \<open>
  An operation that may fail returns \<open>Inl\<close> of its failure or \<open>Inr\<close> of its result;
  \<open>bind_res\<close> is sequencing: the first failure ends the computation.
\<close>

definition bind_res :: "'e + 'a \<Rightarrow> ('a \<Rightarrow> 'e + 'b) \<Rightarrow> 'e + 'b" where
  "bind_res m f = (case m of Inl e \<Rightarrow> Inl e | Inr x \<Rightarrow> f x)"

named_theorems res_simps \<open>unfolding of results and sequencing\<close>
named_theorems word_split \<open>splitting words into bytes and joining them again\<close>

lemma bind_res_simps [simp, res_simps]:
  "bind_res (Inl e) f = Inl e"
  "bind_res (Inr x) f = f x"
  by (simp_all add: bind_res_def)

lemma bind_res_eq_Inr:
  "bind_res m f = Inr y \<longleftrightarrow> (\<exists>x. m = Inr x \<and> f x = Inr y)"
  by (cases m) auto

lemma bind_res_eq_Inl:
  "bind_res m f = Inl e \<longleftrightarrow> m = Inl e \<or> (\<exists>x. m = Inr x \<and> f x = Inl e)"
  by (cases m) auto

section \<open>Little-endian 16-bit fields\<close>

definition lo_byte :: "u16 \<Rightarrow> byte" where
  "lo_byte w = ucast w"

definition hi_byte :: "u16 \<Rightarrow> byte" where
  "hi_byte w = ucast (drop_bit 8 w)"

definition u16_of :: "byte \<Rightarrow> byte \<Rightarrow> u16" where
  "u16_of lo hi = ucast lo OR push_bit 8 (ucast hi)"

lemma u16_of_split [simp, word_split]: "u16_of (lo_byte w) (hi_byte w) = w"
  by (rule bit_word_eqI)
    (auto simp: u16_of_def lo_byte_def hi_byte_def bit_simps)

lemma lo_byte_u16_of [simp, word_split]: "lo_byte (u16_of a b) = a"
  by (rule bit_word_eqI) (auto simp: u16_of_def lo_byte_def bit_simps)

lemma hi_byte_u16_of [simp, word_split]: "hi_byte (u16_of a b) = b"
  by (rule bit_word_eqI) (auto simp: u16_of_def hi_byte_def bit_simps dest: bit_imp_le_length)

lemma u16_bytes_eqI: "lo_byte v = lo_byte w \<Longrightarrow> hi_byte v = hi_byte w \<Longrightarrow> v = w"
  by (metis u16_of_split)

lemma unat_ucast_up:
  "LENGTH('a :: len) \<le> LENGTH('b :: len) \<Longrightarrow> unat (ucast (x :: 'a word) :: 'b word) = unat x"
  by (simp add: unsigned_ucast_eq take_bit_nat_eq_self
      order_less_le_trans [OF unsigned_less power_increasing])

section \<open>Lists\<close>

lemma take_drop_nth_Cons: "n < length xs \<Longrightarrow> drop n xs = xs ! n # drop (Suc n) xs"
  by (rule Cons_nth_drop_Suc [symmetric])

lemma nth_append_left [simp]: "i < length xs \<Longrightarrow> (xs @ ys) ! i = xs ! i"
  by (simp add: nth_append)

end
