(* ===== verification/CppString.thy ===== *)
theory CppString
  imports Prelude
begin

text \<open>
  What the sources use of \<open>std::string\<close>: decimal output of integers, searching, prefixes,
  case folding and trimming. A string is a list of characters (bytes).
\<close>

section \<open>Decimal output\<close>

definition digit_char :: "nat \<Rightarrow> char" where
  "digit_char d = char_of (48 + d)"

fun nat_to_string :: "nat \<Rightarrow> string" where
  "nat_to_string n =
     (if n < 10 then [digit_char n] else nat_to_string (n div 10) @ [digit_char (n mod 10)])"

definition int_to_string :: "int \<Rightarrow> string" where
  "int_to_string i = (if i < 0 then CHR ''-'' # nat_to_string (nat (- i)) else nat_to_string (nat i))"

text \<open>Zero-padded to a width, as \<open>strftime\<close> prints date fields.\<close>

definition pad_left :: "nat \<Rightarrow> string \<Rightarrow> string" where
  "pad_left w s = replicate (w - length s) (CHR ''0'') @ s"

declare nat_to_string.simps [simp del]

definition digit_val :: "char \<Rightarrow> nat" where
  "digit_val c = of_char c - 48"

definition is_digit_char :: "char \<Rightarrow> bool" where
  "is_digit_char c \<longleftrightarrow> 48 \<le> (of_char c :: nat) \<and> (of_char c :: nat) \<le> 57"

definition nat_of_digits :: "string \<Rightarrow> nat" where
  "nat_of_digits s = foldl (\<lambda>n c. 10 * n + digit_val c) 0 s"

lemma digit_val_char [simp]: "d < 10 \<Longrightarrow> digit_val (digit_char d) = d"
  by (simp add: digit_val_def digit_char_def)

lemma is_digit_digit_char [simp]: "d < 10 \<Longrightarrow> is_digit_char (digit_char d)"
  by (simp add: is_digit_char_def digit_char_def)

lemma nat_of_digits_snoc [simp]: "nat_of_digits (s @ [c]) = 10 * nat_of_digits s + digit_val c"
  by (simp add: nat_of_digits_def)

lemma nat_of_digits_to_string [simp]: "nat_of_digits (nat_to_string n) = n"
proof (induction n rule: nat_to_string.induct)
  case (1 n)
  show ?case
  proof (cases "n < 10")
    case True
    then show ?thesis by (simp add: nat_to_string.simps [of n] nat_of_digits_def)
  next
    case False
    with 1 show ?thesis by (simp add: nat_to_string.simps [of n])
  qed
qed

lemma nat_to_string_inj [simp]: "nat_to_string m = nat_to_string n \<longleftrightarrow> m = n"
  by (metis nat_of_digits_to_string)

lemma nat_to_string_digits: "c \<in> set (nat_to_string n) \<Longrightarrow> is_digit_char c"
proof (induction n rule: nat_to_string.induct)
  case (1 n)
  then show ?case
    by (cases "n < 10") (auto simp: nat_to_string.simps [of n])
qed

lemma nat_to_string_nonempty [simp]: "nat_to_string n \<noteq> []"
  by (simp add: nat_to_string.simps [of n])

section \<open>Searching\<close>

text \<open>\<open>find\<close>: the least offset at which the pattern occurs.\<close>

fun str_find :: "'c list \<Rightarrow> 'c list \<Rightarrow> nat option" where
  "str_find pat [] = (if pat = [] then Some 0 else None)"
| "str_find pat (c # cs) =
     (if take (length pat) (c # cs) = pat then Some 0 else map_option Suc (str_find pat cs))"

definition str_contains :: "'c list \<Rightarrow> 'c list \<Rightarrow> bool" where
  "str_contains pat s \<longleftrightarrow> str_find pat s \<noteq> None"

lemma str_find_Some:
  "str_find pat s = Some k \<Longrightarrow> k + length pat \<le> length s \<and> take (length pat) (drop k s) = pat"
proof (induction s arbitrary: k)
  case (Cons c cs)
  show ?case
  proof (cases "take (length pat) (c # cs) = pat")
    case True
    then have "length pat \<le> length (c # cs)"
      by (metis length_take min.absorb_iff2 min.commute)
    with True Cons.prems show ?thesis by simp
  next
    case False
    with Cons.prems obtain k' where "str_find pat cs = Some k'" "k = Suc k'" by auto
    with Cons.IH [of k'] show ?thesis by simp
  qed
qed (simp split: if_splits)

lemma str_find_here [simp]: "str_find pat (pat @ q) = Some 0"
  by (cases pat; cases q) simp_all

lemma str_contains_iff: "str_contains pat s \<longleftrightarrow> (\<exists>p q. s = p @ pat @ q)"
proof
  assume "str_contains pat s"
  then obtain k where "str_find pat s = Some k" by (auto simp: str_contains_def)
  from str_find_Some [OF this] have "s = take k s @ pat @ drop (length pat) (drop k s)"
    by (metis append_take_drop_id)
  then show "\<exists>p q. s = p @ pat @ q" by blast
next
  assume "\<exists>p q. s = p @ pat @ q"
  then obtain p q where "s = p @ pat @ q" by blast
  then show "str_contains pat s"
  proof (induction p arbitrary: s)
    case Nil
    then show ?case by (simp add: str_contains_def)
  next
    case (Cons c p)
    then show ?case by (auto simp: str_contains_def)
  qed
qed

lemma str_find_first:
  assumes "str_find pat s = Some k" and "s = p @ pat @ q"
  shows "k \<le> length p"
  using assms
proof (induction p arbitrary: s k)
  case Nil
  then show ?case by simp
next
  case (Cons c p)
  then show ?case by (auto split: if_splits)
qed

text \<open>\<open>rfind (prefix, 0) == 0\<close>: the string starts with the prefix.\<close>

definition starts_with :: "string \<Rightarrow> string \<Rightarrow> bool" where
  "starts_with pat s \<longleftrightarrow> take (length pat) s = pat"

section \<open>Characters\<close>

text \<open>\<open>std::isspace\<close> and \<open>std::tolower\<close> in the C locale.\<close>

definition is_space :: "char \<Rightarrow> bool" where
  "is_space c \<longleftrightarrow> (let n = of_char c :: nat in n = 32 \<or> (9 \<le> n \<and> n \<le> 13))"

definition to_lower :: "char \<Rightarrow> char" where
  "to_lower c = (let n = of_char c :: nat in if 65 \<le> n \<and> n \<le> 90 then char_of (n + 32) else c)"

lemma to_lower_idem [simp]: "to_lower (to_lower c) = to_lower c"
  by (auto simp: to_lower_def Let_def)

definition lower_copy :: "string \<Rightarrow> string" where
  "lower_copy s = map to_lower s"

lemma lower_copy_idem [simp]: "lower_copy (lower_copy s) = lower_copy s"
  by (simp add: lower_copy_def)

definition equals_ci :: "string \<Rightarrow> string \<Rightarrow> bool" where
  "equals_ci a b \<longleftrightarrow> lower_copy a = lower_copy b"

end
