(* ===== verification/CppDouble.thy ===== *)
theory CppDouble
  imports CppString "HOL-Library.Log_Nat"
begin

text \<open>
  What the sources use of \<open>double\<close>: IEEE binary64 values as exact rationals with the two infinities
  and not-a-number, rounding to nearest with ties to even, comparison, subtraction, output with a
  fixed number of decimals and input from a stream. The sign of zero is not observable in the
  sources and is left out.
\<close>

section \<open>Values\<close>

datatype double = Fin rat | PInf | NInf | NaN

definition round_half_even :: "rat \<Rightarrow> int" where
  "round_half_even x =
     (let f = \<lfloor>x\<rfloor>; d = x - of_int f in
      if d < 1 / 2 \<or> (d = 1 / 2 \<and> even f) then f else f + 1)"

definition pow2 :: "int \<Rightarrow> rat" where
  "pow2 e = (if 0 \<le> e then 2 ^ nat e else 1 / 2 ^ nat (- e))"

text \<open>The binary exponent of a positive rational: the greatest \<open>e\<close> with \<open>2 ^ e \<le> x\<close>.\<close>

definition exponent_of :: "rat \<Rightarrow> int" where
  "exponent_of x =
     (let (a, b) = quotient_of x; k = bitlen a - bitlen b in if pow2 k \<le> x then k else k - 1)"

text \<open>The unit in the last place of a 53-bit significand, with gradual underflow.\<close>

definition ulp_of :: "rat \<Rightarrow> rat" where
  "ulp_of x = pow2 (max (exponent_of x - 52) (-1074))"

definition round_rat :: "rat \<Rightarrow> rat" where
  "round_rat x =
     (if x = 0 then 0 else let u = ulp_of \<bar>x\<bar> in of_int (round_half_even (x / u)) * u)"

definition round_double :: "rat \<Rightarrow> double" where
  "round_double x =
     (let r = round_rat x in if \<bar>r\<bar> < 2 ^ 1024 then Fin r else if 0 < r then PInf else NInf)"

section \<open>Comparison and arithmetic\<close>

fun d_less :: "double \<Rightarrow> double \<Rightarrow> bool" where
  "d_less (Fin a) (Fin b) = (a < b)"
| "d_less NaN _ = False"
| "d_less _ NaN = False"
| "d_less PInf _ = False"
| "d_less _ PInf = True"
| "d_less _ NInf = False"
| "d_less NInf _ = True"

fun d_le :: "double \<Rightarrow> double \<Rightarrow> bool" where
  "d_le (Fin a) (Fin b) = (a \<le> b)"
| "d_le NaN _ = False"
| "d_le _ NaN = False"
| "d_le NInf _ = True"
| "d_le _ PInf = True"
| "d_le _ NInf = False"
| "d_le PInf _ = False"

fun d_abs :: "double \<Rightarrow> double" where
  "d_abs (Fin a) = Fin \<bar>a\<bar>"
| "d_abs NaN = NaN"
| "d_abs _ = PInf"

fun d_sub :: "double \<Rightarrow> double \<Rightarrow> double" where
  "d_sub (Fin a) (Fin b) = round_double (a - b)"
| "d_sub NaN _ = NaN"
| "d_sub _ NaN = NaN"
| "d_sub PInf PInf = NaN"
| "d_sub NInf NInf = NaN"
| "d_sub PInf _ = PInf"
| "d_sub NInf _ = NInf"
| "d_sub (Fin _) PInf = NInf"
| "d_sub (Fin _) NInf = PInf"

section \<open>Output and input\<close>

text \<open>\<open>os << std::fixed << std::setprecision (k)\<close>: exact decimal expansion, ties to even.\<close>

definition fixed_decimal :: "nat \<Rightarrow> nat \<Rightarrow> string" where
  "fixed_decimal k n = nat_to_string (n div 10 ^ k) @ ''.'' @ pad_left k (nat_to_string (n mod 10 ^ k))"

fun print_fixed :: "nat \<Rightarrow> double \<Rightarrow> string" where
  "print_fixed k (Fin v) =
     (if v < 0 then ''-'' else []) @ fixed_decimal k (nat (round_half_even (\<bar>v\<bar> * 10 ^ k)))"
| "print_fixed k PInf = ''inf''"
| "print_fixed k NInf = ''-inf''"
| "print_fixed k NaN = ''nan''"

text \<open>
  \<open>is >> v\<close> for \<open>double\<close>: the longest run of characters of the shape sign, digits, point, digits,
  exponent is taken from the stream and must be a complete number; overflow is a failure too.
\<close>

definition take_sign :: "string \<Rightarrow> bool \<times> string" where
  "take_sign s =
     (case s of c # cs \<Rightarrow> if c = CHR ''-'' then (True, cs) else if c = CHR ''+'' then (False, cs) else (False, s)
      | [] \<Rightarrow> (False, []))"

definition take_point :: "string \<Rightarrow> string \<times> string" where
  "take_point s =
     (case s of c # cs \<Rightarrow> if c = CHR ''.'' then (takeWhile is_digit_char cs, dropWhile is_digit_char cs) else ([], s)
      | [] \<Rightarrow> ([], []))"

text \<open>The exponent: \<open>None\<close> when the letter is not followed by digits.\<close>

definition take_exponent :: "string \<Rightarrow> int option" where
  "take_exponent s =
     (case s of
        c # cs \<Rightarrow>
          if c = CHR ''e'' \<or> c = CHR ''E''
          then let (neg, ds) = take_sign cs; n = takeWhile is_digit_char ds
               in if n = [] then None else Some ((if neg then -1 else 1) * int (nat_of_digits n))
          else Some 0
      | [] \<Rightarrow> Some 0)"

definition parse_double :: "string \<Rightarrow> double option" where
  "parse_double s =
     (let (neg, s1) = take_sign (dropWhile is_space s);
          ip = takeWhile is_digit_char s1;
          (fp, s2) = take_point (dropWhile is_digit_char s1)
      in if ip = [] \<and> fp = [] then None
         else case take_exponent s2 of
           None \<Rightarrow> None
         | Some e \<Rightarrow>
             let m = of_nat (nat_of_digits (ip @ fp)) / 10 ^ length fp :: rat;
                 x = (if 0 \<le> e then m * 10 ^ nat e else m / 10 ^ nat (- e));
                 v = round_double (if neg then - x else x)
             in (case v of Fin _ \<Rightarrow> Some v | _ \<Rightarrow> None))"

text \<open>\<open>is >> v\<close> for a 32-bit \<open>int\<close>: sign and digits; a value out of range is a failure.\<close>

definition parse_int32 :: "string \<Rightarrow> int option" where
  "parse_int32 s =
     (let (neg, s1) = take_sign (dropWhile is_space s);
          ds = takeWhile is_digit_char s1;
          v = (if neg then - int (nat_of_digits ds) else int (nat_of_digits ds))
      in if ds = [] \<or> v < - (2 ^ 31) \<or> 2 ^ 31 - 1 < v then None else Some v)"

section \<open>Rounding\<close>

lemma round_half_even_error: "\<bar>of_int (round_half_even x) - x\<bar> \<le> 1 / 2"
proof -
  have "of_int \<lfloor>x\<rfloor> \<le> x" and "x < of_int \<lfloor>x\<rfloor> + 1" by linarith+
  then show ?thesis unfolding round_half_even_def Let_def by (auto simp: abs_le_iff)
qed

lemma round_half_even_int [simp]: "round_half_even (of_int k) = k"
  by (simp add: round_half_even_def)

lemma pow2_pos [simp]: "0 < pow2 e"
  by (simp add: pow2_def)

lemma pow2_add: "pow2 (a + b) = pow2 a * pow2 b"
proof -
  have "pow2 e = 2 powi e" for e by (simp add: pow2_def power_int_def divide_simps)
  then show ?thesis by (simp add: power_int_add)
qed

lemma pow2_mono: "a \<le> b \<Longrightarrow> pow2 a \<le> pow2 b"
proof -
  assume "a \<le> b"
  then have "1 \<le> pow2 (b - a)" by (simp add: pow2_def)
  with pow2_add [of a "b - a"] mult_left_mono [of 1 "pow2 (b - a)" "pow2 a"] show ?thesis
    by (simp add: less_imp_le)
qed

text \<open>The exponent is the right one: \<open>2 ^ e \<le> x < 2 ^ (e + 1)\<close>.\<close>

lemma exponent_of_bounds:
  assumes "0 < x"
  shows "pow2 (exponent_of x) \<le> x" and "x < pow2 (exponent_of x + 1)"
proof -
  obtain a b where q: "quotient_of x = (a, b)" by fastforce
  have b: "0 < b" using q by (rule quotient_of_denom_pos)
  have x: "x = of_int a / of_int b" using q by (rule quotient_of_div)
  then have a: "0 < a" using assms b by (simp add: zero_less_divide_iff)
  have bits: "pow2 (bitlen c - 1) \<le> of_int c" "of_int c < pow2 (bitlen c)" if "0 < c" for c
  proof -
    have c: "2 ^ nat (bitlen c - 1) \<le> c" "c < 2 ^ nat (bitlen c)" using bitlen_bounds [OF that] by auto
    have "1 \<le> bitlen c" using that bitlen_eq_zero_iff [of c] bitlen_nonneg [of c] by linarith
    moreover have "(of_int (2 ^ nat (bitlen c - 1)) :: rat) \<le> of_int c" "(of_int c :: rat) < of_int (2 ^ nat (bitlen c))"
      using c by (simp_all only: of_int_le_iff of_int_less_iff)
    ultimately show "pow2 (bitlen c - 1) \<le> of_int c" "of_int c < pow2 (bitlen c)"
      by (simp_all add: pow2_def)
  qed
  let ?k = "bitlen a - bitlen b"
  have "pow2 (?k - 1) * of_int b \<le> pow2 (?k - 1) * pow2 (bitlen b)"
    using bits(2) [OF b] by (simp add: mult_left_mono)
  also have "\<dots> = pow2 (bitlen a - 1)" by (simp flip: pow2_add)
  also have "\<dots> \<le> of_int a" using bits(1) [OF a] .
  finally have lo: "pow2 (?k - 1) \<le> x" using b by (simp add: x divide_simps)
  have "of_int a < pow2 (bitlen a)" using bits(2) [OF a] .
  also have "\<dots> = pow2 (?k + 1) * pow2 (bitlen b - 1)" by (simp flip: pow2_add)
  also have "\<dots> \<le> pow2 (?k + 1) * of_int b" using bits(1) [OF b] by (simp add: mult_left_mono)
  finally have hi: "x < pow2 (?k + 1)" using b by (simp add: x divide_simps)
  show "pow2 (exponent_of x) \<le> x" "x < pow2 (exponent_of x + 1)"
    using lo hi by (auto simp: exponent_of_def q Let_def)
qed

lemma exponent_of_unique:
  assumes "0 < x" and "pow2 e \<le> x" and "x < pow2 (e + 1)"
  shows "exponent_of x = e"
proof -
  let ?d = "exponent_of x"
  have "\<not> ?d + 1 \<le> e" "\<not> e + 1 \<le> ?d"
    using exponent_of_bounds [OF assms(1)] assms(2,3) pow2_mono [of "?d + 1" e] pow2_mono [of "e + 1" ?d]
    by linarith+
  then show ?thesis by simp
qed

lemma round_rat_error: "\<bar>round_rat x - x\<bar> \<le> \<bar>x\<bar> * pow2 (-53) + pow2 (-1075)"
proof (cases "x = 0")
  case True
  then show ?thesis by (simp add: round_rat_def less_imp_le)
next
  case False
  let ?u = "ulp_of \<bar>x\<bar>" and ?e = "exponent_of \<bar>x\<bar>"
  have u: "0 < ?u" by (simp add: ulp_of_def)
  have half: "pow2 (-1) = 1 / 2" by (simp add: pow2_def)
  have "round_rat x - x = (of_int (round_half_even (x / ?u)) - x / ?u) * ?u"
    using False u by (simp add: round_rat_def Let_def field_simps)
  then have "\<bar>round_rat x - x\<bar> \<le> 1 / 2 * ?u"
    using mult_right_mono [OF round_half_even_error [of "x / ?u"], of ?u] u by (simp add: abs_mult)
  also have "\<dots> \<le> \<bar>x\<bar> * pow2 (-53) + pow2 (-1075)"
  proof (cases "-1074 \<le> ?e - 52")
    case True
    then have "?u = pow2 (?e - 52)" by (simp only: ulp_of_def max_absorb1)
    then have "1 / 2 * ?u = pow2 ?e * pow2 (-53)"
      using pow2_add [of "-1" "?e - 52"] pow2_add [of ?e "-53"] half by simp
    also have "\<dots> \<le> \<bar>x\<bar> * pow2 (-53)"
      using exponent_of_bounds(1) [of "\<bar>x\<bar>"] False by (simp add: mult_right_mono less_imp_le)
    finally show ?thesis using pow2_pos [of "-1075"] by linarith
  next
    case f: False
    then have "1 / 2 * ?u = pow2 (-1075)"
      using pow2_add [of "-1" "-1074"] half by (simp add: ulp_of_def max_def)
    then show ?thesis by (simp add: less_imp_le)
  qed
  finally show ?thesis .
qed

lemma round_double_Fin:
  assumes "\<bar>x\<bar> < 2 ^ 1000"
  shows "\<exists>v. round_double x = Fin v \<and> \<bar>v - x\<bar> \<le> \<bar>x\<bar> * pow2 (-53) + pow2 (-1075)"
proof -
  have small: "pow2 (-53) \<le> 1" "pow2 (-1075) \<le> 1" by (simp_all add: pow2_def)
  have "\<bar>round_rat x\<bar> \<le> \<bar>x\<bar> + (\<bar>x\<bar> * pow2 (-53) + pow2 (-1075))"
    using round_rat_error [of x] by linarith
  also have "\<dots> \<le> \<bar>x\<bar> + (\<bar>x\<bar> + 1)"
    using small mult_left_mono [OF small(1), of "\<bar>x\<bar>"] by simp
  also have "\<dots> < 2 ^ 1000 + (2 ^ 1000 + 1)" using assms by simp
  also have "\<dots> \<le> 2 ^ 1024" by simp
  finally have "\<bar>round_rat x\<bar> < 2 ^ 1024" .
  with round_rat_error [of x] show ?thesis by (simp add: round_double_def Let_def)
qed

section \<open>Text round trip\<close>

lemma nat_of_digits_Nil [simp]: "nat_of_digits [] = 0"
  by (simp add: nat_of_digits_def)

lemma nat_of_digits_append: "nat_of_digits (xs @ ys) = nat_of_digits xs * 10 ^ length ys + nat_of_digits ys"
proof (induction ys rule: rev_induct)
  case (snoc c ys)
  have "nat_of_digits (xs @ ys @ [c]) = 10 * nat_of_digits (xs @ ys) + digit_val c"
    using nat_of_digits_snoc [of "xs @ ys" c] by simp
  with snoc show ?case by (simp add: algebra_simps)
qed simp

lemma length_nat_to_string: "n < 10 ^ k \<Longrightarrow> 0 < k \<Longrightarrow> length (nat_to_string n) \<le> k"
proof (induction k arbitrary: n)
  case (Suc k)
  show ?case
  proof (cases "n < 10")
    case False
    then have "0 < k" using Suc.prems by (cases k) auto
    moreover have "n div 10 < 10 ^ k" using Suc.prems(1) by (simp add: less_mult_imp_div_less mult.commute)
    ultimately show ?thesis using Suc.IH False by (simp add: nat_to_string.simps [of n])
  qed (simp add: nat_to_string.simps [of n])
qed simp

lemma pad_left_digits:
  assumes "n < 10 ^ k" and "0 < k"
  shows "length (pad_left k (nat_to_string n)) = k" and "nat_of_digits (pad_left k (nat_to_string n)) = n"
    and "\<forall>c \<in> set (pad_left k (nat_to_string n)). is_digit_char c"
proof -
  show "length (pad_left k (nat_to_string n)) = k"
    using length_nat_to_string [OF assms] by (simp add: pad_left_def)
  have "nat_of_digits (replicate j (CHR ''0'')) = 0" for j
    by (induction j) (simp_all add: nat_of_digits_def digit_val_def)
  then show "nat_of_digits (pad_left k (nat_to_string n)) = n"
    by (simp add: pad_left_def nat_of_digits_append)
  show "\<forall>c \<in> set (pad_left k (nat_to_string n)). is_digit_char c"
    using nat_to_string_digits by (auto simp: pad_left_def is_digit_char_def)
qed

lemma takeWhile_digits:
  assumes "\<forall>c \<in> set ds. is_digit_char c" and "rest = [] \<or> \<not> is_digit_char (hd rest)"
  shows "takeWhile is_digit_char (ds @ rest) = ds" and "dropWhile is_digit_char (ds @ rest) = rest"
  using assms by (cases rest; auto simp: takeWhile_append dropWhile_append)+

lemma digit_not: "\<not> is_digit_char (CHR ''.'')" "\<not> is_digit_char (CHR ''-'')" "\<not> is_digit_char (CHR ''+'')"
  by (simp_all add: is_digit_char_def)

lemma digit_not_space: "is_digit_char c \<Longrightarrow> \<not> is_space c"
  by (auto simp: is_digit_char_def is_space_def Let_def)

text \<open>What a printed number is read back as.\<close>

lemma parse_fixed_decimal:
  assumes "0 < k"
  shows "parse_double ((if neg then ''-'' else []) @ fixed_decimal k n) =
     (let v = round_double (if neg then - (of_nat n / 10 ^ k) else of_nat n / 10 ^ k)
      in case v of Fin _ \<Rightarrow> Some v | _ \<Rightarrow> None)"
proof -
  define ip where "ip = nat_to_string (n div 10 ^ k)"
  define fp where "fp = pad_left k (nat_to_string (n mod 10 ^ k))"
  have ip: "\<forall>c \<in> set ip. is_digit_char c" "ip \<noteq> []" "nat_of_digits ip = n div 10 ^ k"
    using nat_to_string_digits by (auto simp: ip_def)
  have fp: "length fp = k" "nat_of_digits fp = n mod 10 ^ k" "\<forall>c \<in> set fp. is_digit_char c"
    using pad_left_digits [of "n mod 10 ^ k" k] assms by (auto simp: fp_def)
  have val: "nat_of_digits (ip @ fp) = n" using ip fp by (simp add: nat_of_digits_append div_mult_mod_eq del: mult.commute)
  obtain d ds where ip_cons: "ip = d # ds" "is_digit_char d" using ip by (cases ip) auto
  have sign: "take_sign (dropWhile is_space ((if neg then ''-'' else []) @ ip @ ''.'' @ fp)) = (neg, ip @ ''.'' @ fp)"
    using ip_cons digit_not digit_not_space by (auto simp: take_sign_def is_space_def)
  have int_part: "takeWhile is_digit_char (ip @ ''.'' @ fp) = ip" "dropWhile is_digit_char (ip @ ''.'' @ fp) = ''.'' @ fp"
    using takeWhile_digits [OF ip(1), of "''.'' @ fp"] digit_not by simp_all
  have point: "take_point (''.'' @ fp) = (fp, [])"
    using takeWhile_digits [OF fp(3), of "[]"] by (simp add: take_point_def)
  show ?thesis
    using sign int_part point ip(2) fp(1) val
    by (simp add: parse_double_def fixed_decimal_def take_exponent_def Let_def flip: ip_def fp_def)
qed

lemma rounding_bounds: "pow2 (-53) \<le> 1 / 10 ^ 15" "pow2 (-1075) \<le> 1 / 10 ^ 15"
  by (simp_all add: pow2_def)

lemma round_double_near:
  assumes "\<bar>x\<bar> \<le> 10 ^ 7"
  shows "\<exists>v. round_double x = Fin v \<and> \<bar>v - x\<bar> \<le> 1 / 10 ^ 7"
proof -
  have "(10 :: rat) ^ 7 < 2 ^ 1000" by simp
  then have "\<bar>x\<bar> < 2 ^ 1000" using assms by linarith
  from round_double_Fin [OF this] obtain v where
    v: "round_double x = Fin v" "\<bar>v - x\<bar> \<le> \<bar>x\<bar> * pow2 (-53) + pow2 (-1075)" by blast
  have "\<bar>x\<bar> * pow2 (-53) \<le> 10 ^ 7 * (1 / 10 ^ 15)"
    using assms rounding_bounds(1) by (intro mult_mono) (simp_all add: less_imp_le)
  then have "\<bar>v - x\<bar> \<le> 10 ^ 7 * (1 / 10 ^ 15) + 1 / 10 ^ 15"
    using v(2) rounding_bounds(2) by linarith
  then have "\<bar>v - x\<bar> \<le> 1 / 10 ^ 7" by simp
  with v(1) show ?thesis by blast
qed

lemma signed_near: "\<bar>r - \<bar>v\<bar>\<bar> \<le> e \<Longrightarrow> \<bar>(if v < 0 then - r else r) - v\<bar> \<le> e" for e :: rat
  by (auto simp: abs_le_iff)

lemma near_bound: "\<bar>x - v\<bar> \<le> 1 / 2000 \<Longrightarrow> \<bar>v\<bar> \<le> 10 ^ 6 \<Longrightarrow> \<bar>x\<bar> \<le> 10 ^ 7" for x v :: rat
proof -
  assume "\<bar>x - v\<bar> \<le> 1 / 2000" and "\<bar>v\<bar> \<le> 10 ^ 6"
  then have "\<bar>x\<bar> \<le> 10 ^ 6 + 1 / 2000" by linarith
  also have "\<dots> \<le> 10 ^ 7" by simp
  finally show ?thesis .
qed

lemma near_trans: "\<bar>y - x\<bar> \<le> 1 / 10 ^ 7 \<Longrightarrow> \<bar>x - v\<bar> \<le> 1 / 2000 \<Longrightarrow> \<bar>y - v\<bar> \<le> 6 / 10000" for x y v :: rat
proof -
  assume "\<bar>y - x\<bar> \<le> 1 / 10 ^ 7" and "\<bar>x - v\<bar> \<le> 1 / 2000"
  then have "\<bar>y - v\<bar> \<le> 1 / 10 ^ 7 + 1 / 2000" by linarith
  also have "\<dots> \<le> 6 / 10000" by simp
  finally show ?thesis .
qed

text \<open>A value of moderate size, printed with three decimals and read back, moves by about half a unit
  of the last decimal.\<close>

lemma parse_print_fixed:
  assumes "\<bar>v\<bar> \<le> 10 ^ 6"
  shows "\<exists>v'. parse_double (print_fixed 3 (Fin v)) = Some (Fin v') \<and> \<bar>v' - v\<bar> \<le> 6 / 10000"
proof -
  let ?n = "round_half_even (\<bar>v\<bar> * 10 ^ 3)"
  have err: "\<bar>of_int ?n - \<bar>v\<bar> * 10 ^ 3\<bar> \<le> 1 / 2" by (rule round_half_even_error)
  have "0 \<le> ?n"
  proof (rule ccontr)
    assume "\<not> 0 \<le> ?n"
    then have "(of_int ?n :: rat) \<le> -1" by linarith
    then show False using err by simp
  qed
  then have n: "(of_nat (nat ?n) :: rat) = of_int ?n" by simp
  let ?x = "(if v < 0 then - (of_nat (nat ?n) / 10 ^ 3) else of_nat (nat ?n) / 10 ^ 3) :: rat"
  have near: "\<bar>?x - v\<bar> \<le> 1 / 2000" 
  proof -
    have "\<bar>of_int ?n / 10 ^ 3 - \<bar>v\<bar>\<bar> \<le> 1 / 2000" using err by (simp only: abs_le_iff) simp
    then show ?thesis unfolding n by (rule signed_near)
  qed
  then have "\<bar>?x\<bar> \<le> 10 ^ 7" using assms by (rule near_bound)
  then obtain v' where "round_double ?x = Fin v'" "\<bar>v' - ?x\<bar> \<le> 1 / 10 ^ 7"
    using round_double_near by blast
  moreover from this(2) near have "\<bar>v' - v\<bar> \<le> 6 / 10000" by (rule near_trans)
  ultimately show ?thesis
    using parse_fixed_decimal [of 3 "v < 0" "nat ?n"] by (simp add: Let_def)
qed

end
