(* ===== verification/Chunked.thy ===== *)
theory Chunked
  imports Prelude
begin

text \<open>
  Stream processing in chunks. A transport hands over a byte stream in pieces of arbitrary size;
  a component consumes each piece, keeps what it cannot decide yet and emits results. Its contract
  is that the results depend on the stream only, not on where it was cut.
\<close>

fun run_chunks ::
    "('s \<Rightarrow> 'a list \<Rightarrow> 'f + ('s \<times> 'b list)) \<Rightarrow> 's \<Rightarrow> 'a list list \<Rightarrow> 'f + ('s \<times> 'b list)" where
  "run_chunks step s [] = Inr (s, [])"
| "run_chunks step s (c # cs) =
     bind_res (step s c) (\<lambda>(s', os).
     bind_res (run_chunks step s' cs) (\<lambda>(s'', os'). Inr (s'', os @ os')))"

text \<open>The stateless side: a parser that can be resumed from the input it kept.\<close>

locale incremental_parser =
  fixes parse :: "'a list \<Rightarrow> 'b list" and rest :: "'a list \<Rightarrow> 'a list"
  assumes parse_append: "parse (xs @ ys) = parse xs @ parse (rest xs @ ys)"
    and rest_append: "rest (xs @ ys) = rest (rest xs @ ys)"
    and parse_rest: "parse (rest xs) = []"
begin

lemma rest_idem: "rest (rest xs) = rest xs"
  using rest_append [of xs "[]"] by simp

lemma parse_concat_rest: "parse (xs @ ys @ zs) = parse (xs @ ys) @ parse (rest (xs @ ys) @ zs)"
  using parse_append [of "xs @ ys" zs] by simp

end

text \<open>
  The stateful side: a component whose state holds the undecided input \<open>pend\<close>. Every
  admissible chunk is accepted without failure, and the results are those of the parser.
\<close>

locale chunked_parser = incremental_parser parse rest
  for parse :: "'a list \<Rightarrow> 'b list" and rest :: "'a list \<Rightarrow> 'a list" +
  fixes step :: "'s \<Rightarrow> 'a list \<Rightarrow> 'f + ('s \<times> 'b list)"
    and inv :: "'s \<Rightarrow> bool" and pend :: "'s \<Rightarrow> 'a list" and admissible :: "'a list \<Rightarrow> bool"
  assumes step_law: "inv s \<Longrightarrow> admissible xs \<Longrightarrow>
      \<exists>s'. step s xs = Inr (s', parse (pend s @ xs)) \<and> inv s' \<and> pend s' = rest (pend s @ xs)"
    and pend_rest: "inv s \<Longrightarrow> rest (pend s) = pend s"
begin

lemma run_chunks_law:
  assumes "inv s" and "\<forall>c \<in> set cs. admissible c"
  shows "\<exists>s'. run_chunks step s cs = Inr (s', parse (pend s @ concat cs)) \<and>
      inv s' \<and> pend s' = rest (pend s @ concat cs)"
  using assms
proof (induction cs arbitrary: s)
  case Nil
  then show ?case
    using parse_rest [of "pend s"] by (simp add: pend_rest)
next
  case (Cons c cs)
  then obtain s1 where s1: "step s c = Inr (s1, parse (pend s @ c))" "inv s1"
    and p1: "pend s1 = rest (pend s @ c)"
    using step_law [of s c] by auto
  with Cons.IH [of s1] Cons.prems obtain s2 where "run_chunks step s1 cs = Inr (s2, parse (pend s1 @ concat cs))"
    "inv s2" "pend s2 = rest (pend s1 @ concat cs)"
    by auto
  then show ?case
    using s1 p1 parse_append [of "pend s @ c" "concat cs"] rest_append [of "pend s @ c" "concat cs"]
    by simp
qed

text \<open>Where the stream is cut does not matter.\<close>

lemma chunking_irrelevant:
  assumes "inv s" and "\<forall>c \<in> set cs. admissible c" and "\<forall>c \<in> set ds. admissible c"
    and "concat cs = concat ds"
  shows "map_sum id snd (run_chunks step s cs) = map_sum id snd (run_chunks step s ds)"
  using run_chunks_law [OF assms(1,2)] run_chunks_law [OF assms(1,3)] assms(4) by auto

end

end
