(* ===== verification/Crc16.thy ===== *)
theory Crc16
  imports Prelude
begin

text \<open>
  The frame checksum, src/src/sbf/crc16_xmodem.hpp: the compile-time table, the table-driven
  CRC-16/XMODEM, and the bit-serial reference of docs/architecture/03-sbf-parser-design.md.
  The code computes on \<open>int\<close> (the operands of shifts and exclusive or are promoted) and
  truncates to 16 bits; the definitions keep the promotion, as 32-bit words.
\<close>

section \<open>The code\<close>

definition crc_table_bit :: "u16 \<Rightarrow> u16" where
  "crc_table_bit c =
     (if (ucast c :: u32) AND 0x8000 \<noteq> 0
      then ucast (push_bit 1 (ucast c :: u32) XOR 0x1021)
      else ucast (push_bit 1 (ucast c :: u32)))"

primrec crc_table_loop :: "nat \<Rightarrow> u16 \<Rightarrow> u16" where
  "crc_table_loop 0 c = c"
| "crc_table_loop (Suc j) c = crc_table_loop j (crc_table_bit c)"

definition make_crc_table :: "u16 list" where
  "make_crc_table =
     map (\<lambda>i. crc_table_loop 8 (ucast (push_bit 8 (of_nat i :: u64)))) [0..<256]"

definition kCrcTable :: "u16 list" where
  "kCrcTable = make_crc_table"

definition crc_index :: "u16 \<Rightarrow> byte \<Rightarrow> nat" where
  "crc_index crc b = unat (drop_bit 8 (ucast crc :: u32) XOR (ucast b :: u32))"

definition crc_step :: "u16 \<Rightarrow> byte \<Rightarrow> u16" where
  "crc_step crc b =
     ucast (push_bit 8 (ucast crc :: u32) XOR (ucast (kCrcTable ! crc_index crc b) :: u32))"

definition crc_ccitt_xmodem :: "byte list \<Rightarrow> u16" where
  "crc_ccitt_xmodem data = foldl crc_step 0 data"

section \<open>The bit-serial reference\<close>

definition crc_bit :: "u16 \<Rightarrow> u16" where
  "crc_bit c = (if bit c 15 then push_bit 1 c XOR 0x1021 else push_bit 1 c)"

definition crc_byte_ref :: "u16 \<Rightarrow> byte \<Rightarrow> u16" where
  "crc_byte_ref crc b = (crc_bit ^^ 8) (crc XOR push_bit 8 (ucast b))"

definition crc_ref :: "byte list \<Rightarrow> u16" where
  "crc_ref data = foldl crc_byte_ref 0 data"

section \<open>The table-driven code computes the reference\<close>

text \<open>Truncating after a promoted operation is the operation at 16 bits.\<close>

lemma ucast_shift_xor:
  "ucast (push_bit n (ucast c :: u32) XOR ucast (d :: u16)) = push_bit n c XOR (d :: u16)"
  by (rule bit_word_eqI) (auto simp: bit_simps)

lemma ucast_shift: "(ucast (push_bit n (ucast (c :: u16) :: u32)) :: u16) = push_bit n c"
  by (rule bit_word_eqI) (auto simp: bit_simps)

lemma crc_table_bit_eq: "crc_table_bit c = crc_bit c"
proof -
  have "(ucast c :: u32) AND 0x8000 = of_bool (bit c 15) * 0x8000"
    by (rule bit_word_eqI) (auto simp: bit_simps numeral_eq_Suc less_Suc_eq)
  then have "(ucast c :: u32) AND 0x8000 \<noteq> 0 \<longleftrightarrow> bit c 15" by simp
  then show ?thesis
    using ucast_shift_xor [of 1 c "0x1021"] ucast_shift [of 1 c]
    by (simp add: crc_table_bit_def crc_bit_def)
qed

lemma crc_table_loop_eq: "crc_table_loop n c = (crc_bit ^^ n) c"
  by (induction n arbitrary: c) (simp_all add: crc_table_bit_eq funpow_swap1)

lemma length_kCrcTable [simp]: "length kCrcTable = 256"
  by (simp add: kCrcTable_def make_crc_table_def)

lemma crc_index_eq: "crc_index crc b = unat (hi_byte crc XOR b)"
proof -
  have "drop_bit 8 (ucast crc :: u32) XOR ucast b = ucast (hi_byte crc XOR b)"
    by (rule bit_word_eqI) (auto simp: hi_byte_def bit_simps dest: bit_imp_le_length)
  then show ?thesis by (simp add: crc_index_def unat_ucast_up)
qed

lemma kCrcTable_nth:
  "kCrcTable ! unat (i :: byte) = (crc_bit ^^ 8) (push_bit 8 (ucast i))"
proof -
  have "unat i < 256" using unsigned_less [of i] by simp
  moreover have "(ucast (push_bit 8 (of_nat (unat i) :: u64)) :: u16) = push_bit 8 (ucast i)"
    by (rule bit_word_eqI) (auto simp: bit_simps)
  ultimately show ?thesis
    by (simp add: kCrcTable_def make_crc_table_def crc_table_loop_eq)
qed

text \<open>The register is a linear map over exclusive or, and it loses no information.\<close>

lemma crc_bit_xor: "crc_bit (x XOR y) = crc_bit x XOR crc_bit y"
proof -
  have "push_bit n (x XOR y) = push_bit n x XOR push_bit n y" for n
    by (rule bit_word_eqI) (auto simp: bit_simps)
  then show ?thesis
    by (simp add: crc_bit_def bit_xor_iff ac_simps)
qed

lemma crc_bit_0 [simp]: "crc_bit 0 = 0"
  by (simp add: crc_bit_def)

lemma crc_bit_eq_0: "crc_bit z = 0 \<Longrightarrow> z = 0"
proof (rule bit_word_eqI)
  fix n assume z: "crc_bit z = 0" and n: "n < LENGTH(16)"
  have no15: "\<not> bit z 15"
  proof
    assume "bit z 15"
    with z have "bit (push_bit 1 z XOR 0x1021 :: u16) 0 = bit (0 :: u16) 0"
      by (simp only: crc_bit_def if_True)
    then show False by (simp only: bit_xor_iff bit_push_bit_iff) simp
  qed
  with z have "bit (push_bit 1 z) (Suc n) = bit (0 :: u16) (Suc n)"
    by (simp only: crc_bit_def if_False)
  then have "Suc n < LENGTH(16) \<Longrightarrow> \<not> bit z n"
    by (simp only: bit_push_bit_iff) simp
  with n no15 show "bit z n = bit 0 n"
    by (cases "n = 15") auto
qed

lemma crc_bits_xor: "(crc_bit ^^ n) (x XOR y) = (crc_bit ^^ n) x XOR (crc_bit ^^ n) y"
  by (induction n) (simp_all add: crc_bit_xor)

lemma crc_bits_eq_0: "(crc_bit ^^ n) z = 0 \<Longrightarrow> z = 0"
  by (induction n) (auto dest: crc_bit_eq_0)

lemma xor_eq_0_word: "x XOR y = 0 \<longleftrightarrow> x = (y :: 'a :: len word)"
  by (metis xor.assoc xor.right_neutral xor_self_eq)

lemma crc_bits_inj: "(crc_bit ^^ n) x = (crc_bit ^^ n) y \<Longrightarrow> x = y"
  by (metis crc_bits_eq_0 crc_bits_xor xor_eq_0_word)

lemma crc_bits_low:
  "k \<le> 8 \<Longrightarrow> (crc_bit ^^ k) (ucast (b :: byte)) = push_bit k (ucast b)"
proof (induction k)
  case (Suc k)
  then have "\<not> bit (push_bit k (ucast b :: u16)) 15"
    by (auto simp: bit_simps dest: bit_imp_le_length)
  then have "crc_bit (push_bit k (ucast b :: u16)) = push_bit (Suc k) (ucast b)"
    by (simp add: crc_bit_def)
  with Suc show ?case by simp
qed simp

lemma u16_split_bytes: "c = ucast (lo_byte c) XOR push_bit 8 (ucast (hi_byte c))"
  by (rule bit_word_eqI) (auto simp: lo_byte_def hi_byte_def bit_simps)

lemma crc_step_eq_ref: "crc_step crc b = crc_byte_ref crc b"
proof -
  let ?i = "hi_byte crc XOR b" and ?lo = "ucast (lo_byte crc) :: u16"
  have "crc XOR push_bit 8 (ucast b) = ?lo XOR push_bit 8 (ucast ?i)"
    by (rule bit_word_eqI) (auto simp: lo_byte_def hi_byte_def bit_simps)
  then have "crc_byte_ref crc b = push_bit 8 ?lo XOR (crc_bit ^^ 8) (push_bit 8 (ucast ?i))"
    by (simp only: crc_byte_ref_def crc_bits_xor crc_bits_low order_refl)
  moreover have "push_bit 8 ?lo = push_bit 8 crc"
    by (rule bit_word_eqI) (auto simp: lo_byte_def bit_simps)
  ultimately show ?thesis
    by (simp only: crc_step_def crc_index_eq kCrcTable_nth ucast_shift_xor)
qed

lemma crc_ccitt_xmodem_eq_ref: "crc_ccitt_xmodem data = crc_ref data"
  by (simp add: crc_ccitt_xmodem_def crc_ref_def crc_step_eq_ref [abs_def])

text \<open>Evaluation on concrete messages, and the catalogue's check value of the algorithm.\<close>

lemma crc_byte_unrolled:
  "crc_byte_ref crc b = crc_bit (crc_bit (crc_bit (crc_bit (crc_bit (crc_bit (crc_bit (crc_bit
     (crc XOR push_bit 8 (ucast b)))))))))"
  by (simp add: crc_byte_ref_def numeral_eq_Suc)

lemmas crc_eval = crc_ccitt_xmodem_eq_ref crc_ref_def crc_byte_unrolled crc_bit_def

lemma crc_check_value:
  "crc_ccitt_xmodem [0x31, 0x32, 0x33, 0x34, 0x35, 0x36, 0x37, 0x38, 0x39] = 0x31C3"
  by (simp add: crc_eval)

section \<open>Error detection\<close>

text \<open>
  What a receiver of checksummed data relies on: the register step forgets neither the register
  nor the byte, so two messages of the same length that agree outside a window of two adjacent
  bytes have different checksums. The laws are stated once, for any register.
\<close>

locale crc_register =
  fixes step :: "'r \<Rightarrow> 'b \<Rightarrow> 'r"
  assumes step_inj: "step r b = step r' b \<Longrightarrow> r = r'"
    and step2_inj: "step (step r a) b = step (step r a') b' \<Longrightarrow> a = a' \<and> b = b'"
begin

lemma foldl_step_inj: "foldl step r bs = foldl step r' bs \<Longrightarrow> r = r'"
  by (induction bs arbitrary: r r') (auto dest: step_inj)

lemma burst2_detected:
  assumes "(a, b) \<noteq> (a', b')"
  shows "foldl step r (p @ [a, b] @ q) \<noteq> foldl step r (p @ [a', b'] @ q)"
  using assms by (auto dest!: foldl_step_inj step2_inj)

lemma step_inj_byte: "step r a = step r a' \<Longrightarrow> a = a'"
  using step2_inj [of r a a a' a] by simp

lemma byte_detected:
  assumes "a \<noteq> a'"
  shows "foldl step r (p @ a # q) \<noteq> foldl step r (p @ a' # q)"
  using assms by (auto dest!: foldl_step_inj step_inj_byte)

end

lemma crc_byte_ref_eq_iff:
  "crc_byte_ref r b = crc_byte_ref r' b' \<longleftrightarrow>
     r XOR push_bit 8 (ucast b) = r' XOR push_bit 8 (ucast b')"
  by (auto simp: crc_byte_ref_def dest: crc_bits_inj)

lemma xor_cancel_word: "x XOR z = y XOR z \<longleftrightarrow> x = (y :: 'a :: len word)"
  by (metis xor.assoc xor.right_neutral xor_self_eq)

lemma crc_byte_ref_diff:
  "crc_byte_ref r a XOR crc_byte_ref r a' = (crc_bit ^^ 8) (push_bit 8 (ucast (a XOR a')))"
proof -
  have "(r XOR push_bit 8 (ucast a)) XOR (r XOR push_bit 8 (ucast a')) = push_bit 8 (ucast (a XOR a'))"
    by (rule bit_word_eqI) (auto simp: bit_simps)
  then show ?thesis by (simp only: crc_byte_ref_def crc_bits_xor [symmetric])
qed

lemma shift_xor_swap:
  fixes x y :: u16 and b b' :: byte
  assumes "x XOR push_bit 8 (ucast b) = y XOR push_bit 8 (ucast b')"
  shows "x XOR y = push_bit 8 (ucast (b XOR b'))"
proof (rule bit_word_eqI)
  fix n assume "n < LENGTH(16)"
  moreover from assms have "bit (x XOR push_bit 8 (ucast b)) n = bit (y XOR push_bit 8 (ucast b')) n"
    by simp
  ultimately show "bit (x XOR y) n = bit (push_bit 8 (ucast (b XOR b') :: u16)) n"
    by (auto simp: bit_simps)
qed

lemma shifted_eq_low:
  fixes a b :: byte
  assumes "push_bit 8 (ucast a) = (ucast b :: u16)"
  shows "a = 0 \<and> b = 0"
proof -
  have "lo_byte (push_bit 8 (ucast a)) = 0" and "hi_byte (ucast b) = 0"
    and "hi_byte (push_bit 8 (ucast a)) = a" and "lo_byte (ucast b) = b"
    by (rule bit_word_eqI; auto simp: lo_byte_def hi_byte_def bit_simps dest: bit_imp_le_length)+
  with assms show ?thesis by simp
qed

interpretation xmodem: crc_register crc_step
proof unfold_locales
  fix r r' b assume "crc_step r b = crc_step r' b"
  then show "r = r'"
    by (simp add: crc_step_eq_ref crc_byte_ref_eq_iff xor_cancel_word)
next
  fix r a b a' b' assume "crc_step (crc_step r a) b = crc_step (crc_step r a') b'"
  then have "crc_byte_ref r a XOR push_bit 8 (ucast b) = crc_byte_ref r a' XOR push_bit 8 (ucast b')"
    by (simp add: crc_step_eq_ref crc_byte_ref_eq_iff)
  then have "crc_byte_ref r a XOR crc_byte_ref r a' = push_bit 8 (ucast (b XOR b'))"
    by (rule shift_xor_swap)
  then have "(crc_bit ^^ 8) (push_bit 8 (ucast (a XOR a'))) = (crc_bit ^^ 8) (ucast (b XOR b'))"
    by (simp add: crc_byte_ref_diff crc_bits_low)
  then have "push_bit 8 (ucast (a XOR a')) = (ucast (b XOR b') :: u16)"
    by (rule crc_bits_inj)
  then have "a XOR a' = 0 \<and> b XOR b' = 0"
    by (rule shifted_eq_low)
  then show "a = a' \<and> b = b'" by (simp add: xor_eq_0_word)
qed

section \<open>Properties\<close>

text \<open>
  C16: for every message the table-driven routine returns what the bit-serial definition of
  CRC-16/XMODEM (polynomial 0x1021, initial value 0, no reflection) returns.
\<close>

theorem crc_table_driven_is_bit_serial: "crc_ccitt_xmodem data = crc_ref data"
  by (rule crc_ccitt_xmodem_eq_ref)

text \<open>
  Two messages of equal length that differ only inside a window of two adjacent bytes never
  have the same checksum, whatever precedes and follows the window.
\<close>

theorem crc_detects_two_byte_burst:
  assumes "(a, b) \<noteq> (a', b')"
  shows "crc_ccitt_xmodem (p @ [a, b] @ q) \<noteq> crc_ccitt_xmodem (p @ [a', b'] @ q)"
  unfolding crc_ccitt_xmodem_def using assms by (rule xmodem.burst2_detected)

theorem crc_detects_two_byte_burst_witness:
  "crc_ccitt_xmodem ([0x31, 0x32] @ [0x33, 0x34] @ [0x35]) \<noteq>
   crc_ccitt_xmodem ([0x31, 0x32] @ [0x33, 0x35] @ [0x35])"
  by (rule crc_detects_two_byte_burst) simp

lemma crc_bits_hi_cancel:
  "crc_byte_ref c (hi_byte c) = push_bit 8 (ucast (lo_byte c))"
proof -
  have "c XOR push_bit 8 (ucast (hi_byte c)) = ucast (lo_byte c)"
    by (rule bit_word_eqI) (auto simp: lo_byte_def hi_byte_def bit_simps)
  then show ?thesis by (simp only: crc_byte_ref_def crc_bits_low order_refl)
qed

lemma crc_append2: "crc_ccitt_xmodem (m @ [h, l]) = crc_step (crc_step (crc_ccitt_xmodem m) h) l"
  by (simp add: crc_ccitt_xmodem_def)

lemma crc_bits_zero [simp]: "(crc_bit ^^ n) 0 = 0"
  by (induction n) simp_all

lemma crc_append_own: "crc_step (crc_step c (hi_byte c)) (lo_byte c) = 0"
  by (simp add: crc_step_eq_ref crc_bits_hi_cancel, simp add: crc_byte_ref_def)

text \<open>
  A message extended by two bytes, most significant first, has checksum zero exactly when the
  two bytes are the checksum of the message.
\<close>

theorem crc_residue_zero_iff:
  "crc_ccitt_xmodem (m @ [h, l]) = 0 \<longleftrightarrow> u16_of l h = crc_ccitt_xmodem m"
proof -
  let ?c = "crc_ccitt_xmodem m"
  have "crc_ccitt_xmodem (m @ [h, l]) = 0 \<longleftrightarrow>
      crc_step (crc_step ?c h) l = crc_step (crc_step ?c (hi_byte ?c)) (lo_byte ?c)"
    by (simp add: crc_append2 crc_append_own)
  also have "\<dots> \<longleftrightarrow> h = hi_byte ?c \<and> l = lo_byte ?c"
    by (auto dest: xmodem.step2_inj)
  also have "\<dots> \<longleftrightarrow> u16_of l h = ?c"
    by (metis hi_byte_u16_of lo_byte_u16_of u16_of_split)
  finally show ?thesis .
qed

end
