(* ===== verification/FrameSync.thy ===== *)
theory FrameSync
  imports Crc16
begin

text \<open>
  The SBF frame synchroniser, src/src/sbf/frame_sync.hpp and frame_sync.cpp. The deque is a list
  of bytes, indices into it are natural numbers, the counters are 64-bit words. Reading past the
  end of the deque, erasing past its end, a failed \<open>assert\<close> and an unsigned subtraction that
  would wrap in a buffer size are values of type \<open>fault\<close>; an operation that meets one of them
  returns \<open>Inl\<close>.
\<close>

section \<open>The code: data\<close>

datatype fault = Out_of_range nat | Erase_range nat | Assert_failed | Size_wrap

definition kMaxSbfLength :: u16 where
  "kMaxSbfLength = 8188"

record FrameSyncStats =
  bytes_consumed :: u64
  frames_emitted :: u64
  crc_failed :: u64
  length_invalid :: u64
  resyncs :: u64

record Frame =
  frame_crc :: u16
  frame_raw_id :: u16
  frame_length :: u16
  frame_body :: "byte list"

definition blockId :: "Frame \<Rightarrow> u16" where
  "blockId f = frame_raw_id f AND 0x1FFF"

definition blockRev :: "Frame \<Rightarrow> byte" where
  "blockRev f = ucast (drop_bit 13 (frame_raw_id f))"

datatype State = Idle | GotDollar | ReadingHeader | ReadingBody

record SbfFrameSync =
  sync_buf :: "byte list"
  sync_state :: State
  sync_stats :: FrameSyncStats
  sync_frame_drain :: nat

definition SbfFrameSync_init :: SbfFrameSync where
  "SbfFrameSync_init =
     \<lparr>sync_buf = [], sync_state = Idle,
      sync_stats = \<lparr>bytes_consumed = 0, frames_emitted = 0, crc_failed = 0, length_invalid = 0, resyncs = 0\<rparr>,
      sync_frame_drain = 0\<rparr>"

section \<open>The code: operations\<close>

definition buf_at :: "byte list \<Rightarrow> nat \<Rightarrow> fault + byte" where
  "buf_at d i = (if i < length d then Inr (d ! i) else Inl (Out_of_range i))"

definition buf_u16le :: "byte list \<Rightarrow> nat \<Rightarrow> fault + u16" where
  "buf_u16le d off =
     bind_res (buf_at d off) (\<lambda>lo.
     bind_res (buf_at d (off + 1)) (\<lambda>hi.
       Inr (ucast lo OR push_bit 8 (ucast hi))))"

primrec copy_bytes :: "byte list \<Rightarrow> nat \<Rightarrow> nat \<Rightarrow> fault + byte list" where
  "copy_bytes d off 0 = Inr []"
| "copy_bytes d off (Suc n) =
     bind_res (buf_at d off) (\<lambda>b.
     bind_res (copy_bytes d (Suc off) n) (\<lambda>bs. Inr (b # bs)))"

definition sub_size :: "nat \<Rightarrow> nat \<Rightarrow> fault + nat" where
  "sub_size a b = (if b \<le> a then Inr (a - b) else Inl Size_wrap)"

definition erase_front :: "byte list \<Rightarrow> nat \<Rightarrow> fault + byte list" where
  "erase_front d n = (if n \<le> length d then Inr (drop n d) else Inl (Erase_range n))"

definition assert_that :: "bool \<Rightarrow> fault + unit" where
  "assert_that b = (if b then Inr () else Inl Assert_failed)"

definition SbfFrameSync_reset :: "SbfFrameSync \<Rightarrow> SbfFrameSync" where
  "SbfFrameSync_reset s = s\<lparr>sync_buf := [], sync_state := Idle, sync_frame_drain := 0\<rparr>"

text \<open>
  The locals of \<open>feed\<close> while its state machine runs: the object, the cursor \<open>pos\<close>, the start
  \<open>fstart\<close> of the current candidate and the frames emitted so far.
\<close>

record feed_ctx =
  self :: SbfFrameSync
  pos :: nat
  fstart :: nat
  out :: "Frame list"

function skip_to_dollar :: "byte list \<Rightarrow> nat \<Rightarrow> nat" where
  "skip_to_dollar d p = (if p < length d \<and> d ! p \<noteq> 0x24 then skip_to_dollar d (Suc p) else p)"
  by pat_completeness auto
termination
  by (relation "measure (\<lambda>(d, p). length d - p)") auto

definition feed_idle :: "feed_ctx \<Rightarrow> fault + (feed_ctx \<times> bool)" where
  "feed_idle c =
     (let p = skip_to_dollar (sync_buf (self c)) (pos c) in
      if p < length (sync_buf (self c))
      then Inr (c\<lparr>pos := p, fstart := p, self := (self c)\<lparr>sync_state := GotDollar\<rparr>\<rparr>, True)
      else Inr (c\<lparr>pos := p\<rparr>, False))"

definition feed_got_dollar :: "feed_ctx \<Rightarrow> fault + (feed_ctx \<times> bool)" where
  "feed_got_dollar c =
     (if fstart c + 1 \<ge> length (sync_buf (self c)) then Inr (c, False)
      else bind_res (buf_at (sync_buf (self c)) (fstart c + 1)) (\<lambda>nxt.
        if nxt = 0x40 then
          Inr (c\<lparr>pos := fstart c + 2, self := (self c)\<lparr>sync_state := ReadingHeader\<rparr>\<rparr>, True)
        else if nxt = 0x24 then
          Inr (c\<lparr>fstart := fstart c + 1, pos := fstart c + 1\<rparr>, True)
        else
          Inr (c\<lparr>pos := fstart c + 1, fstart := 0, self := (self c)\<lparr>sync_state := Idle\<rparr>\<rparr>, True)))"

definition count_length_invalid :: "SbfFrameSync \<Rightarrow> SbfFrameSync" where
  "count_length_invalid s =
     s\<lparr>sync_stats := (sync_stats s)\<lparr>length_invalid := length_invalid (sync_stats s) + 1,
                            resyncs := resyncs (sync_stats s) + 1\<rparr>\<rparr>"

definition count_crc_failed :: "SbfFrameSync \<Rightarrow> SbfFrameSync" where
  "count_crc_failed s =
     s\<lparr>sync_stats := (sync_stats s)\<lparr>crc_failed := crc_failed (sync_stats s) + 1,
                            resyncs := resyncs (sync_stats s) + 1\<rparr>\<rparr>"

definition count_frame :: "SbfFrameSync \<Rightarrow> SbfFrameSync" where
  "count_frame s = s\<lparr>sync_stats := (sync_stats s)\<lparr>frames_emitted := frames_emitted (sync_stats s) + 1\<rparr>\<rparr>"

definition resync :: "feed_ctx \<Rightarrow> SbfFrameSync \<Rightarrow> feed_ctx \<times> bool" where
  "resync c s = (c\<lparr>pos := fstart c + 1, fstart := 0, self := s\<lparr>sync_state := Idle\<rparr>\<rparr>, True)"

definition feed_reading_header :: "feed_ctx \<Rightarrow> fault + (feed_ctx \<times> bool)" where
  "feed_reading_header c =
     (if fstart c + 8 > length (sync_buf (self c)) then Inr (c, False)
      else bind_res (buf_u16le (sync_buf (self c)) (fstart c + 6)) (\<lambda>len_field.
        if len_field mod 4 \<noteq> 0 \<or> len_field < 8 \<or> len_field > kMaxSbfLength then
          Inr (resync c (count_length_invalid (self c)))
        else
          Inr (c\<lparr>pos := fstart c + 8, self := (self c)\<lparr>sync_state := ReadingBody\<rparr>\<rparr>, True)))"

definition feed_reading_body :: "feed_ctx \<Rightarrow> fault + (feed_ctx \<times> bool)" where
  "feed_reading_body c =
     (let d = sync_buf (self c); fs = fstart c in
      bind_res (buf_u16le d (fs + 6)) (\<lambda>len_field.
      let total = unat len_field in
      if fs + total > length d then Inr (c, False)
      else
        bind_res (sub_size total 4) (\<lambda>crc_data_len.
        bind_res (copy_bytes d (fs + 4) crc_data_len) (\<lambda>tmp.
        let computed_crc = crc_ccitt_xmodem tmp in
        bind_res (buf_u16le d (fs + 2)) (\<lambda>header_crc.
        bind_res (buf_u16le d (fs + 4)) (\<lambda>id_field.
        if computed_crc \<noteq> header_crc then
          Inr (resync c (count_crc_failed (self c)))
        else
          bind_res (sub_size total 8) (\<lambda>body_size.
          bind_res (copy_bytes d (fs + 8) body_size) (\<lambda>body_bytes.
          Inr (c\<lparr>out := out c @ [\<lparr>frame_crc = header_crc, frame_raw_id = id_field, frame_length = len_field,
                                 frame_body = body_bytes\<rparr>],
                 self := (count_frame (self c))\<lparr>sync_frame_drain := fs + total, sync_state := Idle\<rparr>,
                 pos := fs + total, fstart := 0\<rparr>, True)))))))))"

definition feed_step :: "feed_ctx \<Rightarrow> fault + (feed_ctx \<times> bool)" where
  "feed_step c =
     (case sync_state (self c) of
        Idle \<Rightarrow> feed_idle c
      | GotDollar \<Rightarrow> feed_got_dollar c
      | ReadingHeader \<Rightarrow> feed_reading_header c
      | ReadingBody \<Rightarrow> feed_reading_body c)"

declare skip_to_dollar.simps [simp del]

text \<open>
  The loop runs while a step reports progress. It ends because every step either moves the start
  of the current candidate forward or goes on to a later state for the same candidate.
\<close>

definition ctx_cursor :: "feed_ctx \<Rightarrow> nat" where
  "ctx_cursor c = (if sync_state (self c) = Idle then pos c else fstart c)"

definition ctx_rest :: "feed_ctx \<Rightarrow> nat" where
  "ctx_rest c = length (sync_buf (self c)) - ctx_cursor c"

definition ctx_rank :: "feed_ctx \<Rightarrow> nat" where
  "ctx_rank c =
     (case sync_state (self c) of Idle \<Rightarrow> 3 | GotDollar \<Rightarrow> 2 | ReadingHeader \<Rightarrow> 1 | ReadingBody \<Rightarrow> 0)"

lemma skip_to_dollar_ge: "p \<le> skip_to_dollar d p"
proof (induction d p rule: skip_to_dollar.induct)
  case (1 d p)
  then show ?case
    by (cases "p < length d \<and> d ! p \<noteq> 0x24") (auto simp: skip_to_dollar.simps [of d p])
qed

lemma sub_size_eq_Inr [simp]: "sub_size a b = Inr n \<longleftrightarrow> b \<le> a \<and> n = a - b"
  by (auto simp: sub_size_def)

lemmas feed_step_defs = feed_step_def feed_idle_def feed_got_dollar_def
  feed_reading_header_def feed_reading_body_def resync_def
  count_length_invalid_def count_crc_failed_def count_frame_def

lemma feed_step_decreases:
  "feed_step c = Inr (c', True) \<Longrightarrow> (c', c) \<in> measures [ctx_rest, ctx_rank]"
  using skip_to_dollar_ge [of "pos c" "sync_buf (self c)"]
  by (auto simp: feed_step_defs Let_def bind_res_eq_Inr ctx_rest_def ctx_rank_def ctx_cursor_def
      split: State.splits if_splits)

function feed_loop :: "feed_ctx \<Rightarrow> fault + feed_ctx" where
  "feed_loop c =
     (case feed_step c of
        Inl e \<Rightarrow> Inl e
      | Inr (c', progress) \<Rightarrow> if progress then feed_loop c' else Inr c')"
  by pat_completeness auto
termination
  by (relation "measures [ctx_rest, ctx_rank]") (auto simp del: in_measures intro: feed_step_decreases)

declare feed_loop.simps [simp del]

definition feed_drain :: "SbfFrameSync \<Rightarrow> fault + SbfFrameSync" where
  "feed_drain s =
     (if sync_frame_drain s > 0 then
        bind_res (assert_that (sync_frame_drain s \<le> length (sync_buf s))) (\<lambda>_.
        bind_res (erase_front (sync_buf s) (sync_frame_drain s)) (\<lambda>b.
          Inr (s\<lparr>sync_buf := b, sync_frame_drain := 0\<rparr>)))
      else Inr s)"

definition feed_append :: "SbfFrameSync \<Rightarrow> byte list \<Rightarrow> SbfFrameSync" where
  "feed_append s bytes =
     s\<lparr>sync_stats := (sync_stats s)\<lparr>bytes_consumed := bytes_consumed (sync_stats s) + of_nat (length bytes)\<rparr>,
       sync_buf := sync_buf s @ bytes\<rparr>"

definition feed_persist :: "feed_ctx \<Rightarrow> fault + SbfFrameSync" where
  "feed_persist c =
     (let s = self c in
      if sync_state s \<noteq> Idle then
        if fstart c > 0 then
          bind_res (assert_that (sync_frame_drain s \<le> fstart c)) (\<lambda>_.
          bind_res (erase_front (sync_buf s) (fstart c)) (\<lambda>b.
            Inr (s\<lparr>sync_buf := b, sync_frame_drain := 0\<rparr>)))
        else Inr s
      else
        if sync_frame_drain s = 0 then
          if pos c > 0 \<and> pos c \<le> length (sync_buf s) then
            bind_res (erase_front (sync_buf s) (pos c)) (\<lambda>b. Inr (s\<lparr>sync_buf := b\<rparr>))
          else Inr s
        else Inr s)"

definition SbfFrameSync_feed ::
    "SbfFrameSync \<Rightarrow> byte list \<Rightarrow> Frame list \<Rightarrow> fault + (SbfFrameSync \<times> Frame list)" where
  "SbfFrameSync_feed s bytes out0 =
     bind_res (feed_drain s) (\<lambda>s1.
     bind_res (feed_loop \<lparr>self = feed_append s1 bytes, pos = 0, fstart = 0, out = out0\<rparr>) (\<lambda>c.
     bind_res (feed_persist c) (\<lambda>s2.
       Inr (s2, out c))))"

end
