(* ===== verification/FrameScan.thy ===== *)
theory FrameScan
  imports FrameSync Chunked
begin

text \<open>
  The specification of the synchroniser: the wire image of a frame, and a scanner that is a
  function of the whole byte stream. Its laws: a verdict once reached does not change when more
  bytes arrive, scanning can be resumed from the bytes kept, every frame found is valid and is a
  contiguous piece of the input, and a stream of valid frames is found as it is.
\<close>

section \<open>The wire format and the abstract scanner\<close>

text \<open>
  What a frame is on the wire: the image \<open>wire\<close> of its fields, and \<open>valid_frame\<close>, the
  well-formedness of its length and checksum.
\<close>

definition len_ok :: "u16 \<Rightarrow> bool" where
  "len_ok n \<longleftrightarrow> n mod 4 = 0 \<and> 8 \<le> n \<and> n \<le> kMaxSbfLength"

definition wire :: "Frame \<Rightarrow> byte list" where
  "wire f =
     [0x24, 0x40, lo_byte (frame_crc f), hi_byte (frame_crc f),
      lo_byte (frame_raw_id f), hi_byte (frame_raw_id f),
      lo_byte (frame_length f), hi_byte (frame_length f)] @ frame_body f"

definition valid_frame :: "Frame \<Rightarrow> bool" where
  "valid_frame f \<longleftrightarrow>
     len_ok (frame_length f) \<and> unat (frame_length f) = 8 + length (frame_body f) \<and>
     frame_crc f = crc_ccitt_xmodem (drop 4 (wire f))"

definition u16_at :: "byte list \<Rightarrow> nat \<Rightarrow> u16" where
  "u16_at xs i = u16_of (xs ! i) (xs ! (i + 1))"

text \<open>
  The scanner looks at the bytes from a dollar sign on and reaches a verdict; without one it
  keeps the bytes until more arrive. It is a function of the whole input, with no state.
\<close>

datatype verdict = NeedMore | NoSync | BadLength | BadCrc | Good Frame

definition verdict_of :: "byte list \<Rightarrow> verdict" where
  "verdict_of xs =
     (if length xs < 2 then NeedMore
      else if xs ! 1 \<noteq> 0x40 then NoSync
      else if length xs < 8 then NeedMore
      else if \<not> len_ok (u16_at xs 6) then BadLength
      else let total = unat (u16_at xs 6) in
        if length xs < total then NeedMore
        else if crc_ccitt_xmodem (take (total - 4) (drop 4 xs)) \<noteq> u16_at xs 2 then BadCrc
        else Good \<lparr>frame_crc = u16_at xs 2, frame_raw_id = u16_at xs 4, frame_length = u16_at xs 6,
                   frame_body = take (total - 8) (drop 8 xs)\<rparr>)"

record scan_result =
  sc_frames :: "Frame list"
  sc_rest :: "byte list"
  sc_crc :: nat
  sc_len :: nat

function scan :: "byte list \<Rightarrow> scan_result" where
  "scan [] = \<lparr>sc_frames = [], sc_rest = [], sc_crc = 0, sc_len = 0\<rparr>"
| "scan (b # bs) =
     (if b \<noteq> 0x24 then scan bs
      else case verdict_of (b # bs) of
        NeedMore \<Rightarrow> \<lparr>sc_frames = [], sc_rest = b # bs, sc_crc = 0, sc_len = 0\<rparr>
      | NoSync \<Rightarrow> scan bs
      | BadLength \<Rightarrow> (let r = scan bs in r\<lparr>sc_len := Suc (sc_len r)\<rparr>)
      | BadCrc \<Rightarrow> (let r = scan bs in r\<lparr>sc_crc := Suc (sc_crc r)\<rparr>)
      | Good f \<Rightarrow> (let r = scan (drop (unat (frame_length f) - 1) bs)
                   in r\<lparr>sc_frames := f # sc_frames r\<rparr>))"
  by pat_completeness auto
termination
  by (relation "measure length") (auto simp: less_Suc_eq_le)

section \<open>Laws of the scanner\<close>

declare scan.simps(2) [simp del]

abbreviation scan_frames :: "byte list \<Rightarrow> Frame list" where
  "scan_frames xs \<equiv> sc_frames (scan xs)"

abbreviation scan_rest :: "byte list \<Rightarrow> byte list" where
  "scan_rest xs \<equiv> sc_rest (scan xs)"

definition scan_join :: "scan_result \<Rightarrow> scan_result \<Rightarrow> scan_result" where
  "scan_join r r' =
     \<lparr>sc_frames = sc_frames r @ sc_frames r', sc_rest = sc_rest r',
      sc_crc = sc_crc r + sc_crc r', sc_len = sc_len r + sc_len r'\<rparr>"

lemma u16_at_append [simp]: "i + 1 < length xs \<Longrightarrow> u16_at (xs @ ys) i = u16_at xs i"
  by (simp add: u16_at_def)

lemma len_okD: "len_ok n \<Longrightarrow> 8 \<le> unat n \<and> unat n \<le> 8188"
  by (auto simp: len_ok_def kMaxSbfLength_def word_le_nat_alt)

lemma verdict_of_append:
  assumes "verdict_of xs \<noteq> NeedMore"
  shows "verdict_of (xs @ ys) = verdict_of xs"
  using assms by (auto simp: verdict_of_def Let_def split: if_splits)

lemma verdict_Good_iff:
  "verdict_of xs = Good f \<longleftrightarrow>
     8 \<le> length xs \<and> xs ! 1 = 0x40 \<and> len_ok (u16_at xs 6) \<and> unat (u16_at xs 6) \<le> length xs \<and>
     crc_ccitt_xmodem (take (unat (u16_at xs 6) - 4) (drop 4 xs)) = u16_at xs 2 \<and>
     f = \<lparr>frame_crc = u16_at xs 2, frame_raw_id = u16_at xs 4, frame_length = u16_at xs 6,
          frame_body = take (unat (u16_at xs 6) - 8) (drop 8 xs)\<rparr>"
  by (auto simp: verdict_of_def Let_def)

lemma verdict_Good_length:
  assumes "verdict_of xs = Good f"
  shows "8 \<le> unat (frame_length f)" and "unat (frame_length f) \<le> length xs"
  using assms len_okD [of "frame_length f"] by (auto simp: verdict_Good_iff)

lemma scan_NeedMore:
  "verdict_of (0x24 # bs) = NeedMore \<Longrightarrow>
     scan (0x24 # bs) = \<lparr>sc_frames = [], sc_rest = 0x24 # bs, sc_crc = 0, sc_len = 0\<rparr>"
  by (simp add: scan.simps(2))

lemma scan_Good:
  "verdict_of (0x24 # bs) = Good f \<Longrightarrow>
     scan (0x24 # bs) = (let r = scan (drop (unat (frame_length f)) (0x24 # bs))
       in r\<lparr>sc_frames := f # sc_frames r\<rparr>)"
  using verdict_Good_length(1) [of "0x24 # bs" f] by (simp add: scan.simps(2) drop_Cons')

lemma scan_append: "scan (xs @ ys) = scan_join (scan xs) (scan (scan_rest xs @ ys))"
proof (induction xs rule: scan.induct)
  case 1
  then show ?case by (simp add: scan_join_def)
next
  case (2 b bs)
  show ?case
  proof (cases "b = 0x24 \<and> verdict_of (b # bs) = NeedMore")
    case True
    then show ?thesis by (auto simp: scan_NeedMore scan_join_def)
  next
    case False
    then have v: "b = 0x24 \<Longrightarrow> verdict_of (b # bs @ ys) = verdict_of (b # bs)"
      using verdict_of_append [of "b # bs" ys] by simp
    show ?thesis
      using 2 False v verdict_Good_length(2) [of "b # bs"]
      by (auto simp: scan.simps(2) [of b] scan_join_def Let_def split: verdict.splits)
  qed
qed

lemma scan_append_fields:
  "scan_frames (xs @ ys) = scan_frames xs @ scan_frames (scan_rest xs @ ys)"
  "scan_rest (xs @ ys) = scan_rest (scan_rest xs @ ys)"
  "sc_crc (scan (xs @ ys)) = sc_crc (scan xs) + sc_crc (scan (scan_rest xs @ ys))"
  "sc_len (scan (xs @ ys)) = sc_len (scan xs) + sc_len (scan (scan_rest xs @ ys))"
  by (subst scan_append, simp add: scan_join_def)+

lemma scan_of_rest:
  "scan_frames (scan_rest xs) = []" "sc_crc (scan (scan_rest xs)) = 0"
  "sc_len (scan (scan_rest xs)) = 0"
  using scan_append_fields [of xs "[]"] by simp_all

interpretation scanner: incremental_parser scan_frames scan_rest
  by unfold_locales (rule scan_append_fields scan_of_rest)+

text \<open>
  Induction along the scan: a byte is passed over, or the scan stops to wait, or a frame is taken.
\<close>

definition passed_over :: "byte \<Rightarrow> byte list \<Rightarrow> bool" where
  "passed_over b bs \<longleftrightarrow> b \<noteq> 0x24 \<or> verdict_of (b # bs) \<in> {NoSync, BadLength, BadCrc}"

lemma scan_induct [case_names Nil Skip Need Good]:
  assumes "P []"
    and "\<And>b bs. passed_over b bs \<Longrightarrow> P bs \<Longrightarrow> P (b # bs)"
    and "\<And>bs. verdict_of (0x24 # bs) = NeedMore \<Longrightarrow> P (0x24 # bs)"
    and "\<And>bs f. verdict_of (0x24 # bs) = Good f \<Longrightarrow>
        P (drop (unat (frame_length f)) (0x24 # bs)) \<Longrightarrow> P (0x24 # bs)"
  shows "P xs"
proof (induction xs rule: length_induct)
  case (1 xs)
  show ?case
  proof (cases xs)
    case Nil
    with assms(1) show ?thesis by simp
  next
    case (Cons b bs)
    show ?thesis
    proof (cases "passed_over b bs")
      case True
      with 1 Cons assms(2) show ?thesis by simp
    next
      case False
      then have b: "b = 0x24" by (simp add: passed_over_def)
      show ?thesis
      proof (cases "verdict_of (b # bs)")
        case (Good f)
        have "length (drop (unat (frame_length f)) (b # bs)) < length xs"
          using verdict_Good_length(1) [OF Good] Cons by auto
        with 1 Good b Cons assms(4) show ?thesis by blast
      qed (use False b Cons assms(3) in \<open>auto simp: passed_over_def\<close>)
    qed
  qed
qed

lemma scan_passed_over:
  "passed_over b bs \<Longrightarrow> scan_frames (b # bs) = scan_frames bs \<and> scan_rest (b # bs) = scan_rest bs"
  by (auto simp: passed_over_def scan.simps(2) [of b] Let_def)

section \<open>What the scanner finds\<close>

lemma u16_at_bytes: "lo_byte (u16_at xs i) = xs ! i" "hi_byte (u16_at xs i) = xs ! (i + 1)"
  by (simp_all add: u16_at_def)

lemma verdict_Good_wire:
  assumes "verdict_of (0x24 # bs) = Good f"
  shows "wire f = take (unat (frame_length f)) (0x24 # bs)" and "valid_frame f"
proof -
  let ?xs = "0x24 # bs"
  note g = assms [unfolded verdict_Good_iff]
  let ?n = "unat (frame_length f)"
  have n: "8 \<le> ?n" "?n \<le> length ?xs"
    using verdict_Good_length [OF assms] by auto
  from g obtain b1 b2 b3 b4 b5 b6 b7 r where xs: "?xs = [0x24, b1, b2, b3, b4, b5, b6, b7] @ r"
    by (auto simp: Suc_le_length_iff numeral_eq_Suc)
  have k: "?n = Suc (Suc (Suc (Suc (Suc (Suc (Suc (Suc (?n - 8))))))))"
    using n by simp
  show w: "wire f = take ?n ?xs"
    using g by (subst k) (auto simp: xs wire_def u16_at_bytes numeral_eq_Suc)
  have "drop 4 (take ?n ?xs) = take (?n - 4) (drop 4 ?xs)"
    by (simp add: drop_take)
  with g w n show "valid_frame f"
    by (auto simp: valid_frame_def)
qed

lemma scan_frames_valid: "f \<in> set (scan_frames xs) \<Longrightarrow> valid_frame f"
  by (induction xs rule: scan_induct)
    (auto simp: scan_passed_over scan_NeedMore scan_Good Let_def dest: verdict_Good_wire(2))

text \<open>The input is junk and wire images of the frames found, in order, and then the bytes kept.\<close>

fun weave :: "byte list list \<Rightarrow> Frame list \<Rightarrow> byte list" where
  "weave (j # js) (f # fs) = j @ wire f @ weave js fs"
| "weave js [] = concat js"
| "weave [] fs = concat (map wire fs)"

lemma weave_push: "js \<noteq> [] \<Longrightarrow> b # weave js fs = weave ((b # hd js) # tl js) fs"
  by (cases js; cases fs) auto

lemma scan_weave:
  "\<exists>js. length js = Suc (length (scan_frames xs)) \<and> xs = weave js (scan_frames xs) @ scan_rest xs"
proof (induction xs rule: scan_induct)
  case Nil
  show ?case by (intro exI [of _ "[[]]"]) simp
next
  case (Skip b bs)
  then obtain js where js: "length js = Suc (length (scan_frames bs))"
      "bs = weave js (scan_frames bs) @ scan_rest bs" by blast
  then have "b # bs = weave ((b # hd js) # tl js) (scan_frames bs) @ scan_rest bs"
    by (metis append_Cons length_0_conv nat.simps(3) weave_push)
  with js(1) show ?case
    unfolding scan_passed_over [OF Skip(1), THEN conjunct1] scan_passed_over [OF Skip(1), THEN conjunct2]
    by (intro exI [of _ "(b # hd js) # tl js"] conjI) (simp, assumption)
next
  case (Need bs)
  then show ?case by (intro exI [of _ "[[]]"]) (simp add: scan_NeedMore)
next
  case (Good bs f)
  let ?ys = "drop (unat (frame_length f)) (0x24 # bs)"
  from Good obtain js where js: "length js = Suc (length (scan_frames ?ys))"
      "?ys = weave js (scan_frames ?ys) @ scan_rest ?ys" by blast
  have "0x24 # bs = wire f @ ?ys"
    using verdict_Good_wire(1) [OF Good(1)] by simp
  then have "0x24 # bs = weave ([] # js) (f # scan_frames ?ys) @ scan_rest ?ys"
    using js(2) by simp
  with js(1) Good(1) show ?case
    by (intro exI [of _ "[] # js"]) (simp add: scan_Good Let_def)
qed

section \<open>What the scanner cannot miss\<close>

lemma len_wire [simp]: "length (wire f) = 8 + length (frame_body f)"
  by (simp add: wire_def)

lemma wire_nth:
  "wire f ! 1 = 0x40" "u16_at (wire f) 2 = frame_crc f" "u16_at (wire f) 4 = frame_raw_id f"
  "u16_at (wire f) 6 = frame_length f"
  by (simp_all add: wire_def u16_at_def)

lemma verdict_wire: "valid_frame f \<Longrightarrow> verdict_of (wire f @ ys) = Good f"
proof -
  assume v: "valid_frame f"
  then have n: "unat (frame_length f) = length (wire f)" and ok: "len_ok (frame_length f)"
    by (auto simp: valid_frame_def)
  have "drop 8 (wire f) = frame_body f" by (simp add: wire_def)
  with v n ok have "verdict_of (wire f) = Good f"
    by (auto simp: verdict_Good_iff wire_nth [unfolded One_nat_def] valid_frame_def)
  then show ?thesis using verdict_of_append [of "wire f" ys] by simp
qed

lemma scan_wire:
  assumes "valid_frame f"
  shows "scan (wire f @ ys) = (let r = scan ys in r\<lparr>sc_frames := f # sc_frames r\<rparr>)"
proof -
  let ?zs = "tl (wire f) @ ys"
  have eq: "wire f @ ys = 0x24 # ?zs" by (simp add: wire_def)
  have "drop (unat (frame_length f)) (wire f @ ys) = ys"
    using assms by (simp add: valid_frame_def)
  then show ?thesis
    using scan_Good [of ?zs f] verdict_wire [OF assms, of ys] by (simp only: eq)
qed

lemma scan_wires: "\<forall>f \<in> set fs. valid_frame f \<Longrightarrow>
    scan (concat (map wire fs) @ ys) = (let r = scan ys in r\<lparr>sc_frames := fs @ sc_frames r\<rparr>)"
  by (induction fs) (auto simp: scan_wire Let_def)

lemma scan_junk: "0x24 \<notin> set js \<Longrightarrow> scan (js @ ys) = scan ys"
  by (induction js) (auto simp: scan.simps(2))

lemma NeedMore_short: "verdict_of xs = NeedMore \<Longrightarrow> length xs < 8188"
  using len_okD [of "u16_at xs 6"] by (auto simp: verdict_of_def Let_def split: if_splits)

lemma scan_rest_cases:
  "scan_rest xs = [] \<or> (\<exists>bs. scan_rest xs = 0x24 # bs \<and> verdict_of (0x24 # bs) = NeedMore)"
  by (induction xs rule: scan_induct) (auto simp: scan_passed_over scan_NeedMore scan_Good Let_def)

lemma scan_rest_short: "length (scan_rest xs) < 8188"
  using scan_rest_cases [of xs] NeedMore_short by fastforce

text \<open>The same scan with the offset of each frame.\<close>

function scan_pos :: "nat \<Rightarrow> byte list \<Rightarrow> (nat \<times> Frame) list" where
  "scan_pos k [] = []"
| "scan_pos k (b # bs) =
     (if passed_over b bs then scan_pos (Suc k) bs
      else case verdict_of (b # bs) of
        Good f \<Rightarrow> (k, f) # scan_pos (k + unat (frame_length f)) (drop (unat (frame_length f) - 1) bs)
      | _ \<Rightarrow> [])"
  by pat_completeness auto
termination
  by (relation "measure (\<lambda>(k, xs). length xs)") (auto simp: less_Suc_eq_le)

declare scan_pos.simps(2) [simp del]

lemma scan_pos_Skip: "passed_over b bs \<Longrightarrow> scan_pos k (b # bs) = scan_pos (Suc k) bs"
  by (simp add: scan_pos.simps(2))

lemma scan_pos_Need: "verdict_of (0x24 # bs) = NeedMore \<Longrightarrow> scan_pos k (0x24 # bs) = []"
  by (simp add: scan_pos.simps(2) passed_over_def)

lemma scan_pos_Good:
  "verdict_of (0x24 # bs) = Good f \<Longrightarrow>
     scan_pos k (0x24 # bs) =
       (k, f) # scan_pos (k + unat (frame_length f)) (drop (unat (frame_length f)) (0x24 # bs))"
  using verdict_Good_length(1) [of "0x24 # bs" f]
  by (simp add: scan_pos.simps(2) passed_over_def drop_Cons')

lemmas scan_pos_rules = scan_pos_Skip scan_pos_Need scan_pos_Good

lemma map_snd_scan_pos: "map snd (scan_pos k xs) = scan_frames xs"
  by (induction xs arbitrary: k rule: scan_induct)
    (simp_all add: scan_pos_rules scan_passed_over scan_NeedMore scan_Good Let_def)

lemma scan_pos_wire:
  "(i, g) \<in> set (scan_pos k xs) \<Longrightarrow> k \<le> i \<and> take (length (wire g)) (drop (i - k) xs) = wire g"
proof (induction xs arbitrary: k rule: scan_induct)
  case (Skip b bs)
  then have "Suc k \<le> i \<and> take (length (wire g)) (drop (i - Suc k) bs) = wire g"
    by (simp add: scan_pos_Skip)
  then show ?case by (auto simp: drop_Cons' simp del: len_wire)
next
  case (Good bs f)
  let ?n = "unat (frame_length f)"
  have len: "length (wire f) = ?n"
    using verdict_Good_wire(2) [OF Good(1)] by (simp add: valid_frame_def)
  from Good(3) Good(1) consider "i = k" "g = f" | "(i, g) \<in> set (scan_pos (k + ?n) (drop ?n (0x24 # bs)))"
    by (auto simp: scan_pos_Good)
  then show ?case
  proof cases
    case 1
    with verdict_Good_wire(1) [OF Good(1)] len show ?thesis by (simp del: len_wire)
  next
    case 2
    with Good(2) [of "k + ?n"] show ?thesis by (auto simp: add.commute simp del: len_wire)
  qed
qed (simp_all add: scan_pos_rules)

text \<open>
  A valid frame in the input, with enough bytes after its start to decide any candidate, is taken,
  or a frame that overlaps it is.
\<close>

lemma scan_no_loss:
  assumes "valid_frame f" and "8188 \<le> length (wire f @ q)"
  shows "\<exists>(i, g) \<in> set (scan_pos k (p @ wire f @ q)).
      i < k + length p + length (wire f) \<and> k + length p < i + length (wire g)"
  using assms(2)
proof (induction "p @ wire f @ q" arbitrary: k p rule: scan_induct)
  case Nil
  then show ?case by simp
next
  case (Skip b bs)
  show ?case
  proof (cases p)
    case Nil
    with Skip verdict_wire [OF assms(1), of q] have False
      by (auto simp: passed_over_def wire_def)
    then show ?thesis ..
  next
    case (Cons b' p')
    with Skip have "bs = p' @ wire f @ q" and "b' = b" by auto
    with Skip Cons Skip(2) [of p' "Suc k"] show ?thesis
      by (auto simp: scan_pos_Skip)
  qed
next
  case (Need bs)
  from NeedMore_short [OF Need(1)] have "length (p @ wire f @ q) < 8188"
    unfolding Need(2) [symmetric] .
  with Need show ?case by simp
next
  case (Good bs g)
  let ?n = "unat (frame_length g)"
  have n: "length (wire g) = ?n"
    using verdict_Good_wire(2) [OF Good(1)] by (simp add: valid_frame_def)
  show ?case
  proof (cases "length p < ?n")
    case True
    with n Good(1) show ?thesis
      unfolding Good(3) [symmetric] by (simp add: scan_pos_Good)
  next
    case False
    then have eq: "drop ?n (0x24 # bs) = drop ?n p @ wire f @ q"
      by (simp add: Good(3))
    then have "scan_pos k (0x24 # bs) = (k, g) # scan_pos (k + ?n) (drop ?n p @ wire f @ q)"
      using scan_pos_Good [OF Good(1), of k] by simp
    with Good(2) [OF eq Good(4), of "k + ?n"] False show ?thesis
      unfolding Good(3) [symmetric] by auto
  qed
qed

end
