(* ===== verification/FrameSyncCorrect.thy ===== *)
theory FrameSyncCorrect
  imports FrameScan
begin

text \<open>
  The synchroniser implements the scanner. The invariant of the object between two calls of
  \<open>feed\<close>, the invariant of the state machine's loop, the simulation of every step by the
  scanner, and the properties of \<open>feed\<close> that follow.
\<close>

section \<open>Invariants\<close>

text \<open>What the state says about the bytes from the start of the candidate on.\<close>

fun candidate_ok :: "State \<Rightarrow> byte list \<Rightarrow> bool" where
  "candidate_ok Idle xs \<longleftrightarrow> True"
| "candidate_ok GotDollar xs \<longleftrightarrow> 1 \<le> length xs \<and> xs ! 0 = 0x24"
| "candidate_ok ReadingHeader xs \<longleftrightarrow> 2 \<le> length xs \<and> xs ! 0 = 0x24 \<and> xs ! 1 = 0x40"
| "candidate_ok ReadingBody xs \<longleftrightarrow>
     8 \<le> length xs \<and> xs ! 0 = 0x24 \<and> xs ! 1 = 0x40 \<and> len_ok (u16_at xs 6)"

definition same_scan :: "byte list \<Rightarrow> byte list \<Rightarrow> bool" where
  "same_scan xs ys \<longleftrightarrow> scan_frames xs = scan_frames ys \<and> scan_rest xs = scan_rest ys"

definition scan_errs :: "byte list \<Rightarrow> nat" where
  "scan_errs xs = sc_crc (scan xs) + sc_len (scan xs)"

definition sync_inv :: "SbfFrameSync \<Rightarrow> bool" where
  "sync_inv s \<longleftrightarrow>
     sync_frame_drain s \<le> length (sync_buf s) \<and>
     (if sync_state s = Idle then same_scan (drop (sync_frame_drain s) (sync_buf s)) []
      else sync_frame_drain s = 0 \<and> candidate_ok (sync_state s) (sync_buf s) \<and>
           verdict_of (sync_buf s) = NeedMore)"

definition ctx_ok :: "feed_ctx \<Rightarrow> bool" where
  "ctx_ok c \<longleftrightarrow>
     ctx_cursor c \<le> length (sync_buf (self c)) \<and>
     sync_frame_drain (self c) \<le> ctx_cursor c \<and>
     candidate_ok (sync_state (self c)) (drop (ctx_cursor c) (sync_buf (self c))) \<and>
     same_scan (drop (sync_frame_drain (self c)) (sync_buf (self c)))
               (drop (ctx_cursor c) (sync_buf (self c))) \<and>
     scan_errs (drop (sync_frame_drain (self c)) (sync_buf (self c))) \<le> scan_errs (sync_buf (self c)) \<and>
     scan_errs (drop (ctx_cursor c) (sync_buf (self c))) \<le> scan_errs (sync_buf (self c))"

definition stalled :: "feed_ctx \<Rightarrow> bool" where
  "stalled c \<longleftrightarrow>
     (if sync_state (self c) = Idle then pos c = length (sync_buf (self c))
      else verdict_of (drop (fstart c) (sync_buf (self c))) = NeedMore)"

definition add_counts :: "FrameSyncStats \<Rightarrow> scan_result \<Rightarrow> FrameSyncStats" where
  "add_counts st r =
     st\<lparr>frames_emitted := frames_emitted st + of_nat (length (sc_frames r)),
        crc_failed := crc_failed st + of_nat (sc_crc r),
        length_invalid := length_invalid st + of_nat (sc_len r),
        resyncs := resyncs st + of_nat (sc_crc r) + of_nat (sc_len r)\<rparr>"

text \<open>What the run of the loop from a context will have produced when it stalls.\<close>

definition outcome :: "feed_ctx \<Rightarrow> byte list \<times> Frame list \<times> byte list \<times> FrameSyncStats" where
  "outcome c =
     (let r = scan (drop (ctx_cursor c) (sync_buf (self c)))
      in (sync_buf (self c), out c @ sc_frames r, sc_rest r, add_counts (sync_stats (self c)) r))"

section \<open>Reading the buffer\<close>

lemma buf_at_drop: "i < length (drop k d) \<Longrightarrow> buf_at d (k + i) = Inr (drop k d ! i)"
  by (simp add: buf_at_def)

lemma buf_u16le_drop: "i + 1 < length (drop k d) \<Longrightarrow> buf_u16le d (k + i) = Inr (u16_at (drop k d) i)"
  by (simp add: buf_u16le_def buf_at_def u16_at_def u16_of_def add.assoc)

lemma copy_bytes_eq: "off + n \<le> length d \<Longrightarrow> copy_bytes d off n = Inr (take n (drop off d))"
proof (induction n arbitrary: off)
  case (Suc n)
  then have "off < length d" by simp
  with Suc show ?case by (simp add: buf_at_def take_drop_nth_Cons)
qed simp

lemma skip_to_dollar_spec:
  assumes "p \<le> length d"
  shows "skip_to_dollar d p \<le> length d"
    and "skip_to_dollar d p < length d \<Longrightarrow> d ! skip_to_dollar d p = 0x24"
    and "scan (drop (skip_to_dollar d p) d) = scan (drop p d)"
proof -
  have "skip_to_dollar d p \<le> length d \<and>
      (skip_to_dollar d p < length d \<longrightarrow> d ! skip_to_dollar d p = 0x24) \<and>
      scan (drop (skip_to_dollar d p) d) = scan (drop p d)"
    using assms
  proof (induction d p rule: skip_to_dollar.induct)
    case (1 d p)
    show ?case
    proof (cases "p < length d \<and> d ! p \<noteq> 0x24")
      case True
      then have "scan (drop p d) = scan (drop (Suc p) d)"
        by (simp add: take_drop_nth_Cons scan.simps(2))
      with 1 True show ?thesis by (simp add: skip_to_dollar.simps [of d p])
    next
      case False
      with 1 show ?thesis by (auto simp: skip_to_dollar.simps [of d p])
    qed
  qed
  then show "skip_to_dollar d p \<le> length d"
    and "skip_to_dollar d p < length d \<Longrightarrow> d ! skip_to_dollar d p = 0x24"
    and "scan (drop (skip_to_dollar d p) d) = scan (drop p d)"
    by auto
qed

section \<open>Every step is simulated\<close>

text \<open>
  A step from a good context does not fault, keeps the context good, does not change the outcome,
  and reports no progress only where the machine has to wait.
\<close>

definition step_ok :: "feed_ctx \<Rightarrow> fault + (feed_ctx \<times> bool) \<Rightarrow> bool" where
  "step_ok c r \<longleftrightarrow>
     (\<exists>c' b. r = Inr (c', b) \<and> ctx_ok c' \<and> outcome c' = outcome c \<and> (\<not> b \<longrightarrow> stalled c'))"

lemma step_okI:
  "ctx_ok c' \<Longrightarrow> outcome c' = outcome c \<Longrightarrow> \<not> b \<longrightarrow> stalled c' \<Longrightarrow> step_ok c (Inr (c', b))"
  by (simp add: step_ok_def)

lemma feed_idle_ok:
  assumes "ctx_ok c" and "sync_state (self c) = Idle"
  shows "step_ok c (feed_idle c)"
proof -
  let ?d = "sync_buf (self c)" and ?q = "skip_to_dollar (sync_buf (self c)) (pos c)"
  have p: "pos c \<le> length ?d" "sync_frame_drain (self c) \<le> pos c"
    "same_scan (drop (sync_frame_drain (self c)) ?d) (drop (pos c) ?d)"
    using assms by (auto simp: ctx_ok_def ctx_cursor_def)
  note q = skip_to_dollar_spec [OF p(1)] skip_to_dollar_ge [of "pos c" ?d]
  show ?thesis
  proof (cases "?q < length ?d")
    case True
    have "step_ok c (Inr (c\<lparr>pos := ?q, fstart := ?q, self := (self c)\<lparr>sync_state := GotDollar\<rparr>\<rparr>, True))"
      using True q p assms
      by (intro step_okI) (auto simp: ctx_ok_def ctx_cursor_def outcome_def same_scan_def scan_errs_def)
    with True show ?thesis by (simp add: feed_idle_def Let_def)
  next
    case False
    with q have "?q = length ?d" by simp
    with False q p assms show ?thesis
      by (auto simp: feed_idle_def Let_def step_ok_def ctx_ok_def ctx_cursor_def outcome_def
          same_scan_def stalled_def scan_errs_def)
  qed
qed

text \<open>Giving a candidate up moves the cursor over its dollar sign.\<close>

lemma give_up_ok:
  assumes ok: "ctx_ok c" and st: "sync_state (self c) \<noteq> Idle"
    and pass: "passed_over (sync_buf (self c) ! fstart c) (drop (Suc (fstart c)) (sync_buf (self c)))"
    and len: "fstart c < length (sync_buf (self c))"
    and same: "sync_buf (self c') = sync_buf (self c)" "out c' = out c"
      "sync_frame_drain (self c') = sync_frame_drain (self c)"
    and cur: "ctx_cursor c' = Suc (fstart c)"
    and cand: "candidate_ok (sync_state (self c')) (drop (Suc (fstart c)) (sync_buf (self c)))"
    and errs: "scan_errs (drop (Suc (fstart c)) (sync_buf (self c))) \<le> scan_errs (drop (fstart c) (sync_buf (self c)))"
    and cnt: "add_counts (sync_stats (self c')) (scan (drop (Suc (fstart c)) (sync_buf (self c)))) =
        add_counts (sync_stats (self c)) (scan (drop (fstart c) (sync_buf (self c))))"
  shows "step_ok c (Inr (c', True))"
proof (rule step_okI)
  let ?d = "sync_buf (self c)"
  have "drop (fstart c) ?d = ?d ! fstart c # drop (Suc (fstart c)) ?d"
    using len by (rule take_drop_nth_Cons)
  with scan_passed_over [OF pass]
  have sc: "scan_frames (drop (fstart c) ?d) = scan_frames (drop (Suc (fstart c)) ?d)"
    "scan_rest (drop (fstart c) ?d) = scan_rest (drop (Suc (fstart c)) ?d)"
    by simp_all
  show "ctx_ok c'"
    using errs ok st len same cur cand sc by (auto simp: ctx_ok_def ctx_cursor_def same_scan_def)
  show "outcome c' = outcome c"
    using same cur cnt sc st by (simp add: outcome_def Let_def ctx_cursor_def)
qed simp

lemma feed_got_dollar_ok:
  assumes ok: "ctx_ok c" and st: "sync_state (self c) = GotDollar"
  shows "step_ok c (feed_got_dollar c)"
proof -
  let ?d = "sync_buf (self c)" and ?k = "fstart c"
  have k: "?k < length ?d" "?d ! ?k = 0x24"
    using ok st by (auto simp: ctx_ok_def ctx_cursor_def)
  show ?thesis
  proof (cases "?k + 1 \<ge> length ?d")
    case True
    with k have "length (drop ?k ?d) < 2" by simp
    then have "verdict_of (drop ?k ?d) = NeedMore" unfolding verdict_of_def by (rule if_P)
    with True ok st show ?thesis
      by (auto simp: feed_got_dollar_def step_ok_def stalled_def)
  next
    case False
    let ?n = "?d ! (?k + 1)"
    have at: "buf_at ?d (?k + 1) = Inr ?n" using False by (simp add: buf_at_def)
    have dr: "drop ?k ?d = 0x24 # drop (Suc ?k) ?d" using k by (simp add: take_drop_nth_Cons)
    have v: "?n \<noteq> 0x40 \<Longrightarrow> verdict_of (drop ?k ?d) = NoSync"
      using False by (simp add: verdict_of_def)
    have sc: "scan (drop ?k ?d) = scan (drop (Suc ?k) ?d)" if "?n \<noteq> 0x40"
      using v [OF that] unfolding dr by (simp add: scan.simps(2))
    have po: "passed_over (?d ! ?k) (drop (Suc ?k) ?d)" if "?n \<noteq> 0x40"
      using v [OF that] k unfolding dr by (simp add: passed_over_def)
    consider "?n = 0x40" | "?n = 0x24" | "?n \<noteq> 0x40" "?n \<noteq> 0x24" by blast
    then show ?thesis
    proof cases
      case 1
      then have "step_ok c
          (Inr (c\<lparr>pos := ?k + 2, self := (self c)\<lparr>sync_state := ReadingHeader\<rparr>\<rparr>, True))"
        using ok st False k
        by (intro step_okI) (auto simp: ctx_ok_def ctx_cursor_def outcome_def)
      with 1 at False show ?thesis by (simp add: feed_got_dollar_def)
    next
      case 2
      then have "step_ok c (Inr (c\<lparr>fstart := ?k + 1, pos := ?k + 1\<rparr>, True))"
        using ok st False k po sc
        by (intro give_up_ok) (auto simp: ctx_cursor_def scan_errs_def)
      with 2 at False show ?thesis by (simp add: feed_got_dollar_def)
    next
      case 3
      then have "step_ok c
          (Inr (c\<lparr>pos := ?k + 1, fstart := 0, self := (self c)\<lparr>sync_state := Idle\<rparr>\<rparr>, True))"
        using ok st False k po sc
        by (intro give_up_ok) (auto simp: ctx_cursor_def scan_errs_def)
      with 3 at False show ?thesis by (simp add: feed_got_dollar_def)
    qed
  qed
qed

lemma len_ok_code:
  "(n mod 4 \<noteq> 0 \<or> n < 8 \<or> n > kMaxSbfLength) \<longleftrightarrow> \<not> len_ok n"
  by (simp only: len_ok_def de_Morgan_conj not_le)

lemma feed_reading_header_ok:
  assumes ok: "ctx_ok c" and st: "sync_state (self c) = ReadingHeader"
  shows "step_ok c (feed_reading_header c)"
proof -
  let ?d = "sync_buf (self c)" and ?k = "fstart c"
  have k: "?k + 1 < length ?d" "?d ! ?k = 0x24" "?d ! (?k + 1) = 0x40"
    using ok st by (auto simp: ctx_ok_def ctx_cursor_def)
  show ?thesis
  proof (cases "?k + 8 > length ?d")
    case True
    with k have "verdict_of (drop ?k ?d) = NeedMore" by (simp add: verdict_of_def)
    with True ok st show ?thesis
      by (auto simp: feed_reading_header_def step_ok_def stalled_def)
  next
    case False
    let ?len = "u16_at (drop ?k ?d) 6"
    have at: "buf_u16le ?d (?k + 6) = Inr ?len" using False by (intro buf_u16le_drop) simp
    have dr: "drop ?k ?d = 0x24 # drop (Suc ?k) ?d" using k by (simp add: take_drop_nth_Cons)
    show ?thesis
    proof (cases "len_ok ?len")
      case True
      then have "step_ok c
          (Inr (c\<lparr>pos := ?k + 8, self := (self c)\<lparr>sync_state := ReadingBody\<rparr>\<rparr>, True))"
        using ok st False k
        by (intro step_okI) (auto simp: ctx_ok_def ctx_cursor_def outcome_def)
      with True at False show ?thesis unfolding feed_reading_header_def len_ok_code by simp
    next
      case bad: False
      with k False have v: "verdict_of (drop ?k ?d) = BadLength" by (simp add: verdict_of_def)
      have sc: "scan (drop ?k ?d) = (let r = scan (drop (Suc ?k) ?d) in r\<lparr>sc_len := Suc (sc_len r)\<rparr>)"
        using v unfolding dr by (simp add: scan.simps(2))
      have po: "passed_over (?d ! ?k) (drop (Suc ?k) ?d)"
        using v k unfolding dr by (simp add: passed_over_def)
      have "step_ok c (Inr (resync c (count_length_invalid (self c))))"
        unfolding resync_def using ok st k sc po
        by (intro give_up_ok)
          (auto simp: ctx_cursor_def count_length_invalid_def add_counts_def Let_def scan_errs_def)
      with bad at False show ?thesis unfolding feed_reading_header_def len_ok_code by simp
    qed
  qed
qed

text \<open>The cursor of a frame whose header was read.\<close>

lemma body_cursor:
  assumes "ctx_ok c" and "sync_state (self c) = ReadingBody"
  defines "xs \<equiv> drop (fstart c) (sync_buf (self c))"
  shows "fstart c + 8 \<le> length (sync_buf (self c))" and "sync_buf (self c) ! fstart c = 0x24"
    and "sync_buf (self c) ! (fstart c + 1) = 0x40" and "len_ok (u16_at xs 6)"
    and "xs = 0x24 # drop (Suc (fstart c)) (sync_buf (self c))"
proof -
  show k: "fstart c + 8 \<le> length (sync_buf (self c))" "sync_buf (self c) ! fstart c = 0x24"
      "sync_buf (self c) ! (fstart c + 1) = 0x40" "len_ok (u16_at xs 6)"
    using assms by (auto simp: ctx_ok_def ctx_cursor_def)
  then show "xs = 0x24 # drop (Suc (fstart c)) (sync_buf (self c))" by (simp add: xs_def take_drop_nth_Cons)
qed

lemma body_bad_crc:
  assumes ok: "ctx_ok c" and st: "sync_state (self c) = ReadingBody"
    and v: "verdict_of (drop (fstart c) (sync_buf (self c))) = BadCrc"
  shows "step_ok c (Inr (resync c (count_crc_failed (self c))))"
proof -
  let ?d = "sync_buf (self c)" and ?k = "fstart c"
  note k = body_cursor [OF ok st]
  have "scan (drop ?k ?d) = (let r = scan (drop (Suc ?k) ?d) in r\<lparr>sc_crc := Suc (sc_crc r)\<rparr>)"
    using v unfolding k(5) by (simp add: scan.simps(2))
  moreover have "passed_over (?d ! ?k) (drop (Suc ?k) ?d)"
    using v k(2) unfolding k(5) by (simp add: passed_over_def)
  ultimately show ?thesis
    unfolding resync_def using ok st k(1)
    by (intro give_up_ok)
      (auto simp: ctx_cursor_def count_crc_failed_def add_counts_def Let_def scan_errs_def)
qed

lemma body_good:
  fixes c f
  defines "k \<equiv> fstart c" and "xs \<equiv> drop (fstart c) (sync_buf (self c))"
  defines "len \<equiv> unat (u16_at xs 6)"
  assumes ok: "ctx_ok c" and st: "sync_state (self c) = ReadingBody" and v: "verdict_of xs = Good f"
    and fits: "k + len \<le> length (sync_buf (self c))" and flen: "frame_length f = u16_at xs 6"
  shows "step_ok c (Inr (c\<lparr>out := out c @ [f],
     self := (count_frame (self c))\<lparr>sync_frame_drain := k + len, sync_state := Idle\<rparr>, pos := k + len, fstart := 0\<rparr>, True))"
proof -
  have dr: "xs = 0x24 # drop (Suc k) (sync_buf (self c))" using body_cursor(5) [OF ok st] by (simp add: xs_def k_def)
  have sc: "scan xs = (let r = scan (drop len xs) in r\<lparr>sc_frames := f # sc_frames r\<rparr>)"
    using v flen unfolding dr len_def by (subst scan_Good) auto
  have "scan_errs (drop len xs) = scan_errs xs"
    by (simp add: scan_errs_def sc Let_def)
  then show ?thesis
    using sc st ok fits
    by (intro step_okI)
      (auto simp: ctx_ok_def ctx_cursor_def outcome_def same_scan_def Let_def
        count_frame_def add_counts_def add.commute xs_def k_def)
qed

lemma feed_reading_body_ok:
  assumes ok: "ctx_ok c" and st: "sync_state (self c) = ReadingBody"
  shows "step_ok c (feed_reading_body c)"
proof -
  let ?d = "sync_buf (self c)" and ?k = "fstart c"
  let ?xs = "drop ?k ?d"
  let ?len = "u16_at ?xs 6" and ?tmp = "take (unat (u16_at ?xs 6) - 4) (drop 4 ?xs)"
  note k = body_cursor [OF ok st]
  have n: "8 \<le> unat ?len" using len_okD [OF k(4)] by simp
  have rd: "buf_u16le ?d (?k + 6) = Inr ?len" "buf_u16le ?d (?k + 2) = Inr (u16_at ?xs 2)"
    "buf_u16le ?d (?k + 4) = Inr (u16_at ?xs 4)"
    using k by (intro buf_u16le_drop; simp)+
  show ?thesis
  proof (cases "?k + unat ?len > length ?d")
    case True
    with k have "verdict_of ?xs = NeedMore" by (auto simp: verdict_of_def Let_def)
    with True ok st rd show ?thesis
      by (auto simp: feed_reading_body_def Let_def step_ok_def stalled_def)
  next
    case False
    have cp: "copy_bytes ?d (?k + 4) (unat ?len - 4) = Inr ?tmp"
      "copy_bytes ?d (?k + 8) (unat ?len - 8) = Inr (take (unat ?len - 8) (drop 8 ?xs))"
      using False n by (simp_all add: copy_bytes_eq add.commute)
    show ?thesis
    proof (cases "crc_ccitt_xmodem ?tmp = u16_at ?xs 2")
      case bad: False
      with k False have "verdict_of ?xs = BadCrc" by (auto simp: verdict_of_def Let_def)
      from body_bad_crc [OF ok st this] bad rd cp n False show ?thesis
        by (simp add: feed_reading_body_def Let_def sub_size_def)
    next
      case crc: True
      with k False have "verdict_of ?xs = Good \<lparr>frame_crc = u16_at ?xs 2, frame_raw_id = u16_at ?xs 4, frame_length = ?len,
          frame_body = take (unat ?len - 8) (drop 8 ?xs)\<rparr>" by (auto simp: verdict_of_def Let_def)
      from body_good [OF ok st this] crc rd cp n False show ?thesis
        by (simp add: feed_reading_body_def Let_def sub_size_def)
    qed
  qed
qed

lemma feed_step_ok: "ctx_ok c \<Longrightarrow> step_ok c (feed_step c)"
  by (cases "sync_state (self c)")
    (simp_all add: feed_step_def feed_idle_ok feed_got_dollar_ok feed_reading_header_ok
      feed_reading_body_ok)

lemma feed_loop_ok:
  assumes "ctx_ok c"
  shows "\<exists>c'. feed_loop c = Inr c' \<and> ctx_ok c' \<and> outcome c' = outcome c \<and> stalled c'"
  using assms
proof (induction c rule: feed_loop.induct)
  case (1 c)
  from feed_step_ok [OF 1(2)] obtain c1 b where s: "feed_step c = Inr (c1, b)" "ctx_ok c1"
    "outcome c1 = outcome c" "\<not> b \<longrightarrow> stalled c1"
    by (auto simp: step_ok_def)
  with 1(1) show ?case
    by (cases b) (auto simp: feed_loop.simps [of c])
qed

section \<open>The whole call\<close>

text \<open>The bytes the object still needs: those of an undecided candidate.\<close>

definition sync_pend :: "SbfFrameSync \<Rightarrow> byte list" where
  "sync_pend s = (if sync_state s = Idle then [] else sync_buf s)"

text \<open>The errors a later call will find again in the bytes still held.\<close>

definition sync_errs :: "SbfFrameSync \<Rightarrow> nat" where
  "sync_errs s = scan_errs (drop (sync_frame_drain s) (sync_buf s))"

lemma candidate_ok_append: "candidate_ok st xs \<Longrightarrow> candidate_ok st (xs @ ys)"
  by (cases st) (auto simp: nth_append)

lemma candidate_Cons: "candidate_ok st xs \<Longrightarrow> st \<noteq> Idle \<Longrightarrow> xs = 0x24 # tl xs"
  by (cases st; cases xs) auto

lemma stalled_outcome:
  assumes "ctx_ok c" and "stalled c"
  shows "outcome c =
      (sync_buf (self c), out c,
       if sync_state (self c) = Idle then [] else drop (fstart c) (sync_buf (self c)),
       sync_stats (self c))"
proof (cases "sync_state (self c) = Idle")
  case True
  with assms show ?thesis
    by (simp add: outcome_def stalled_def ctx_cursor_def add_counts_def)
next
  case False
  let ?xs = "drop (fstart c) (sync_buf (self c))"
  have "candidate_ok (sync_state (self c)) ?xs"
    using assms False by (simp add: ctx_ok_def ctx_cursor_def)
  then have eq: "?xs = 0x24 # tl ?xs" using False by (rule candidate_Cons)
  have "verdict_of ?xs = NeedMore" using assms False by (simp add: stalled_def)
  then have "scan ?xs = \<lparr>sc_frames = [], sc_rest = ?xs, sc_crc = 0, sc_len = 0\<rparr>"
    using scan_NeedMore [of "tl ?xs"] eq by metis
  with False show ?thesis
    by (simp add: outcome_def ctx_cursor_def add_counts_def)
qed

lemma feed_persist_ok:
  assumes "ctx_ok c" and "stalled c"
  shows "\<exists>s. feed_persist c = Inr s \<and> sync_inv s \<and> sync_stats s = sync_stats (self c) \<and>
      sync_errs s \<le> scan_errs (sync_buf (self c)) \<and>
      sync_pend s = (if sync_state (self c) = Idle then [] else drop (fstart c) (sync_buf (self c)))"
proof (cases "sync_state (self c) = Idle")
  case True
  with assms show ?thesis
    by (auto simp: feed_persist_def Let_def erase_front_def sync_inv_def sync_pend_def ctx_ok_def
        stalled_def ctx_cursor_def same_scan_def sync_errs_def scan_errs_def)
next
  case False
  then show ?thesis
    using assms
    by (auto simp: feed_persist_def Let_def erase_front_def assert_that_def sync_inv_def
        sync_pend_def ctx_ok_def stalled_def ctx_cursor_def sync_errs_def)
qed

lemma feed_drain_ok:
  "sync_inv s \<Longrightarrow> feed_drain s =
     Inr (s\<lparr>sync_buf := drop (sync_frame_drain s) (sync_buf s), sync_frame_drain := 0\<rparr>)"
  by (auto simp: feed_drain_def erase_front_def assert_that_def sync_inv_def)

lemma feed_spec:
  assumes "sync_inv s"
  shows "\<exists>s'. SbfFrameSync_feed s bytes out0 =
        Inr (s', out0 @ scan_frames (drop (sync_frame_drain s) (sync_buf s) @ bytes)) \<and>
      sync_inv s' \<and> sync_pend s' = scan_rest (drop (sync_frame_drain s) (sync_buf s) @ bytes) \<and>
      sync_errs s' \<le> scan_errs (drop (sync_frame_drain s) (sync_buf s) @ bytes) \<and>
      sync_stats s' = add_counts (sync_stats (feed_append s bytes))
        (scan (drop (sync_frame_drain s) (sync_buf s) @ bytes))"
proof -
  let ?xs = "drop (sync_frame_drain s) (sync_buf s) @ bytes"
  let ?s1 = "s\<lparr>sync_buf := drop (sync_frame_drain s) (sync_buf s), sync_frame_drain := 0\<rparr>"
  let ?c = "\<lparr>self = feed_append ?s1 bytes, pos = 0, fstart = 0, out = out0\<rparr>"
  have "candidate_ok (sync_state s) ?xs"
    using assms by (cases "sync_state s = Idle") (auto simp: sync_inv_def candidate_ok_append)
  then have "ctx_ok ?c"
    by (simp add: ctx_ok_def feed_append_def ctx_cursor_def same_scan_def)
  from feed_loop_ok [OF this] obtain c where c: "feed_loop ?c = Inr c" "ctx_ok c"
    "outcome c = outcome ?c" "stalled c" by blast
  from feed_persist_ok [OF c(2,4)] obtain s' where s': "feed_persist c = Inr s'" "sync_inv s'"
    "sync_stats s' = sync_stats (self c)" "sync_errs s' \<le> scan_errs (sync_buf (self c))"
    "sync_pend s' = (if sync_state (self c) = Idle then [] else drop (fstart c) (sync_buf (self c)))"
    by blast
  have "outcome ?c = (?xs, out0 @ scan_frames ?xs, scan_rest ?xs,
      add_counts (sync_stats (feed_append s bytes)) (scan ?xs))"
    by (simp add: outcome_def Let_def feed_append_def ctx_cursor_def)
  with c(3) stalled_outcome [OF c(2,4)] s' c(1) show ?thesis
    by (auto simp: SbfFrameSync_feed_def feed_drain_ok [OF assms])
qed

text \<open>The junk an idle object may still hold does not matter for the frames and for what is kept.\<close>

lemma sync_inv_scan:
  assumes "sync_inv s"
  shows "same_scan (drop (sync_frame_drain s) (sync_buf s) @ bytes) (sync_pend s @ bytes)"
proof (cases "sync_state s = Idle")
  case True
  with assms show ?thesis
    using scan_append_fields [of "drop (sync_frame_drain s) (sync_buf s)" bytes]
    by (simp add: sync_inv_def sync_pend_def same_scan_def)
qed (use assms in \<open>auto simp: sync_inv_def sync_pend_def same_scan_def\<close>)

lemma sync_pend_rest:
  assumes "sync_inv s"
  shows "scan_rest (sync_pend s) = sync_pend s"
proof (cases "sync_state s = Idle")
  case False
  with assms candidate_Cons [of "sync_state s" "sync_buf s"] show ?thesis
    using scan_NeedMore [of "tl (sync_buf s)"] by (auto simp: sync_inv_def sync_pend_def)
qed (simp add: sync_pend_def)

definition sync_step :: "SbfFrameSync \<Rightarrow> byte list \<Rightarrow> fault + (SbfFrameSync \<times> Frame list)" where
  "sync_step s bytes = SbfFrameSync_feed s bytes []"

interpretation sync: chunked_parser scan_frames scan_rest sync_step sync_inv sync_pend "\<lambda>_. True"
proof unfold_locales
  fix s xs assume inv: "sync_inv s"
  show "\<exists>s'. sync_step s xs = Inr (s', scan_frames (sync_pend s @ xs)) \<and> sync_inv s' \<and>
      sync_pend s' = scan_rest (sync_pend s @ xs)"
    using feed_spec [OF inv, of xs "[]"] sync_inv_scan [OF inv, of xs]
    by (auto simp: sync_step_def same_scan_def)
  show "scan_rest (sync_pend s) = sync_pend s" using inv by (rule sync_pend_rest)
qed

end
