(* ===== verification/FrameSyncProps.thy ===== *)
theory FrameSyncProps
  imports FrameSyncCorrect
begin

text \<open>
  Properties of the synchroniser as its callers see it: over any sequence of calls of \<open>feed\<close>
  and \<open>reset\<close>, and over any way of cutting the byte stream into chunks.
\<close>

section \<open>Reachable objects\<close>

inductive sync_reachable :: "SbfFrameSync \<Rightarrow> bool" where
  init: "sync_reachable SbfFrameSync_init"
| feed: "sync_reachable s \<Longrightarrow> SbfFrameSync_feed s bytes out0 = Inr (s', fs) \<Longrightarrow> sync_reachable s'"
| reset: "sync_reachable s \<Longrightarrow> sync_reachable (SbfFrameSync_reset s)"

lemma sync_inv_init [simp, intro]: "sync_inv SbfFrameSync_init"
  by (simp add: sync_inv_def SbfFrameSync_init_def same_scan_def)

lemma sync_inv_reset [simp, intro]: "sync_inv (SbfFrameSync_reset s)"
  by (simp add: sync_inv_def SbfFrameSync_reset_def same_scan_def)

lemma sync_inv_feed:
  "sync_inv s \<Longrightarrow> SbfFrameSync_feed s bytes out0 = Inr (s', fs) \<Longrightarrow> sync_inv s'"
  using feed_spec [of s bytes out0] by auto

lemma reachable_sync_inv: "sync_reachable s \<Longrightarrow> sync_inv s"
  by (induction rule: sync_reachable.induct) (auto intro: sync_inv_feed)

lemma sync_pend_init [simp]: "sync_pend SbfFrameSync_init = []"
  by (simp add: sync_pend_def SbfFrameSync_init_def)

lemma sync_pend_reset [simp]: "sync_pend (SbfFrameSync_reset s) = []"
  by (simp add: sync_pend_def SbfFrameSync_reset_def)

lemma sync_stats_reset [simp]: "sync_stats (SbfFrameSync_reset s) = sync_stats s"
  by (simp add: SbfFrameSync_reset_def)

text \<open>
  C1: whatever calls came before, \<open>feed\<close> returns: it reads and erases only inside the deque, its
  assertions hold and its buffer sizes do not wrap. It appends frames to the caller's vector, and
  each appended frame has a length that is a multiple of 4 between 8 and 8188, a body of that
  length less 8, and a checksum that matches.
\<close>

theorem feed_never_faults:
  assumes "sync_reachable s"
  shows "\<exists>s' fs. SbfFrameSync_feed s bytes out0 = Inr (s', out0 @ fs) \<and> (\<forall>f \<in> set fs. valid_frame f)"
  using feed_spec [OF reachable_sync_inv [OF assms], of bytes out0] scan_frames_valid by blast

theorem feed_never_faults_witness:
  "\<exists>s' fs. SbfFrameSync_feed (SbfFrameSync_reset SbfFrameSync_init) [0x24, 0x40] [] = Inr (s', [] @ fs) \<and>
     (\<forall>f \<in> set fs. valid_frame f)"
  by (rule feed_never_faults [OF sync_reachable.reset [OF sync_reachable.init]])

section \<open>Streams\<close>

lemma run_init:
  "\<exists>s'. run_chunks sync_step SbfFrameSync_init cs = Inr (s', scan_frames (concat cs)) \<and>
     sync_inv s' \<and> sync_pend s' = scan_rest (concat cs)"
  using sync.run_chunks_law [OF sync_inv_init, of cs] by simp

text \<open>
  C3: the frames emitted over a sequence of \<open>feed\<close> calls, and the bytes kept for an unfinished
  frame, are those the scanner finds in the concatenation of the chunks.
\<close>

theorem feed_refines_scan:
  "\<exists>s'. run_chunks sync_step SbfFrameSync_init cs = Inr (s', scan_frames (concat cs)) \<and>
     sync_pend s' = scan_rest (concat cs)"
  using run_init by blast

text \<open>
  C2: how the transport cuts the stream into chunks does not change the frames: two sequences of
  chunks with the same concatenation give the same frames and leave the same unfinished bytes.
\<close>

theorem feed_chunking_irrelevant:
  assumes "concat cs = concat ds"
  shows "\<exists>s1 s2 fs. run_chunks sync_step SbfFrameSync_init cs = Inr (s1, fs) \<and>
     run_chunks sync_step SbfFrameSync_init ds = Inr (s2, fs) \<and> sync_pend s1 = sync_pend s2"
  using run_init [of cs] run_init [of ds] assms by auto

theorem feed_chunking_irrelevant_witness:
  "\<exists>s1 s2 fs. run_chunks sync_step SbfFrameSync_init [[0x24], [0x40, 0x1D]] = Inr (s1, fs) \<and>
     run_chunks sync_step SbfFrameSync_init [[0x24, 0x40], [], [0x1D]] = Inr (s2, fs) \<and>
     sync_pend s1 = sync_pend s2"
  by (rule feed_chunking_irrelevant) simp

text \<open>
  The stream is exactly some junk before each emitted frame, the wire images of the emitted
  frames in order, some junk, and the bytes of the unfinished frame: every emitted frame arrived
  byte for byte, none is emitted twice and none overlap.
\<close>

theorem feed_emits_pieces_of_stream:
  "\<exists>s' fs js. run_chunks sync_step SbfFrameSync_init cs = Inr (s', fs) \<and>
     length js = Suc (length fs) \<and> concat cs = weave js fs @ sync_pend s'"
  using run_init [of cs] scan_weave [of "concat cs"] by metis

text \<open>
  C14: no valid frame is lost. If the wire image of a valid frame stands in the stream with at least
  8188 bytes from its start on, then a frame is emitted that starts before its end and ends after
  its start: the frame itself, or another piece of the stream that passes the checksum and
  overlaps it.
\<close>

theorem feed_loses_no_frame:
  assumes "valid_frame f" and "8188 \<le> length (wire f @ q)" and "concat cs = p @ wire f @ q"
  shows "\<exists>s' ps. run_chunks sync_step SbfFrameSync_init cs = Inr (s', map snd ps) \<and>
     (\<forall>(i, g) \<in> set ps. take (length (wire g)) (drop i (concat cs)) = wire g) \<and>
     (\<exists>(i, g) \<in> set ps. i < length p + length (wire f) \<and> length p < i + length (wire g))"
proof -
  have "\<forall>(i, g) \<in> set (scan_pos 0 (concat cs)). take (length (wire g)) (drop i (concat cs)) = wire g"
    using scan_pos_wire [of _ _ 0 "concat cs"] by auto
  moreover have "\<exists>(i, g) \<in> set (scan_pos 0 (concat cs)).
      i < length p + length (wire f) \<and> length p < i + length (wire g)"
    using scan_no_loss [OF assms(1,2), of 0 p] assms(3) by simp
  moreover obtain s' where
    "run_chunks sync_step SbfFrameSync_init cs = Inr (s', map snd (scan_pos 0 (concat cs)))"
    using run_init [of cs] by (auto simp: map_snd_scan_pos)
  ultimately show ?thesis by blast
qed

definition ex_frame :: Frame where
  "ex_frame = \<lparr>frame_crc = 0xFF1D, frame_raw_id = 1, frame_length = 8, frame_body = []\<rparr>"

lemma wire_ex_frame: "wire ex_frame = [0x24, 0x40, 0x1D, 0xFF, 0x01, 0x00, 0x08, 0x00]"
  by (simp add: wire_def ex_frame_def lo_byte_def hi_byte_def)

lemma valid_ex_frame: "valid_frame ex_frame"
  by (simp add: valid_frame_def wire_ex_frame crc_eval)
    (simp add: ex_frame_def len_ok_def kMaxSbfLength_def)

theorem feed_loses_no_frame_witness:
  "\<exists>s' ps. run_chunks sync_step SbfFrameSync_init [[0xAB], wire ex_frame, replicate 8180 0] = Inr (s', map snd ps) \<and>
     (\<forall>(i, g) \<in> set ps. take (length (wire g)) (drop i (concat [[0xAB], wire ex_frame, replicate 8180 0])) = wire g) \<and>
     (\<exists>(i, g) \<in> set ps. i < length [0xAB :: byte] + length (wire ex_frame) \<and> length [0xAB :: byte] < i + length (wire g))"
  by (rule feed_loses_no_frame [OF valid_ex_frame, where q = "replicate 8180 0"]) simp_all

section \<open>Clean streams\<close>

lemma scan_errs_append: "scan_errs (xs @ ys) = scan_errs xs + scan_errs (scan_rest xs @ ys)"
  using scan_append_fields(3,4) [of xs ys] by (simp add: scan_errs_def)

lemma run_chunks_counts:
  assumes "sync_inv s" and "sync_errs s = 0" and "scan_errs (sync_pend s @ concat cs) = 0"
    and "run_chunks sync_step s cs = Inr (s', fs)"
  shows "sync_stats s' = (sync_stats s)
      \<lparr>bytes_consumed := bytes_consumed (sync_stats s) + of_nat (length (concat cs)),
       frames_emitted := frames_emitted (sync_stats s) + of_nat (length fs)\<rparr>"
  using assms
proof (induction cs arbitrary: s fs)
  case (Cons c cs)
  let ?xs = "drop (sync_frame_drain s) (sync_buf s) @ c"
  obtain s1 where s1: "sync_step s c = Inr (s1, scan_frames ?xs)" "sync_inv s1"
      "sync_pend s1 = scan_rest ?xs" "sync_errs s1 \<le> scan_errs ?xs"
      "sync_stats s1 = add_counts (sync_stats (feed_append s c)) (scan ?xs)"
    using feed_spec [OF Cons.prems(1), of c "[]"] by (auto simp: sync_step_def)
  have "scan_rest (drop (sync_frame_drain s) (sync_buf s)) = sync_pend s"
    using sync_inv_scan [OF Cons.prems(1), of "[]"] sync_pend_rest [OF Cons.prems(1)]
    by (simp add: same_scan_def)
  then have xs: "scan_errs ?xs = scan_errs (sync_pend s @ c)"
    using Cons.prems(2) scan_errs_append [of "drop (sync_frame_drain s) (sync_buf s)" c]
    by (simp add: sync_errs_def)
  have "scan_rest ?xs = scan_rest (sync_pend s @ c)"
    using sync_inv_scan [OF Cons.prems(1), of c] by (simp add: same_scan_def)
  then have "scan_errs ?xs = 0" and rest: "scan_errs (sync_pend s1 @ concat cs) = 0"
    using Cons.prems(3) scan_errs_append [of "sync_pend s @ c" "concat cs"] xs s1(3) by simp_all
  then have st: "sync_stats s1 = (sync_stats s)
      \<lparr>bytes_consumed := bytes_consumed (sync_stats s) + of_nat (length c),
       frames_emitted := frames_emitted (sync_stats s) + of_nat (length (scan_frames ?xs))\<rparr>"
    unfolding s1(5) by (simp add: add_counts_def feed_append_def scan_errs_def)
  from Cons.prems(4) s1(1) obtain fs' where "run_chunks sync_step s1 cs = Inr (s', fs')"
    "fs = scan_frames ?xs @ fs'"
    by (auto simp: bind_res_eq_Inr split: prod.splits)
  with Cons.IH [OF s1(2) _ rest] s1(4) \<open>scan_errs ?xs = 0\<close> st show ?case
    by (simp add: add.assoc)
qed simp

text \<open>
  C15: a stream of valid frames, after junk without a dollar sign, is received as it was sent,
  however it is cut: exactly these frames are emitted, nothing is left over, and the counters show
  the bytes and frames of the stream and no checksum failure, bad length or resynchronisation.
\<close>

theorem feed_wire_roundtrip:
  assumes "\<forall>f \<in> set fs. valid_frame f" and "0x24 \<notin> set junk"
    and "concat cs = junk @ concat (map wire fs)"
  shows "\<exists>s'. run_chunks sync_step SbfFrameSync_init cs = Inr (s', fs) \<and> sync_pend s' = [] \<and>
     sync_stats s' = \<lparr>bytes_consumed = of_nat (length (concat cs)),
       frames_emitted = of_nat (length fs), crc_failed = 0, length_invalid = 0, resyncs = 0\<rparr>"
proof -
  have sc: "scan (concat cs) = \<lparr>sc_frames = fs, sc_rest = [], sc_crc = 0, sc_len = 0\<rparr>"
    using scan_wires [OF assms(1), of "[]"] by (simp add: assms(3) scan_junk [OF assms(2)])
  then obtain s' where s': "run_chunks sync_step SbfFrameSync_init cs = Inr (s', fs)" "sync_pend s' = []"
    using run_init [of cs] by auto
  have "sync_errs SbfFrameSync_init = 0"
    by (simp add: sync_errs_def scan_errs_def SbfFrameSync_init_def)
  with run_chunks_counts [OF sync_inv_init _ _ s'(1)] sc s' show ?thesis
    by (simp add: scan_errs_def) (simp add: SbfFrameSync_init_def)
qed

theorem feed_wire_roundtrip_witness:
  "\<exists>s'. run_chunks sync_step SbfFrameSync_init [[0xAB, 0xAB, 0x24], tl (wire ex_frame), wire ex_frame] =
       Inr (s', [ex_frame, ex_frame]) \<and> sync_pend s' = [] \<and>
     sync_stats s' = \<lparr>bytes_consumed = of_nat (length (concat [[0xAB, 0xAB, 0x24], tl (wire ex_frame), wire ex_frame])),
       frames_emitted = of_nat (length [ex_frame, ex_frame]), crc_failed = 0, length_invalid = 0, resyncs = 0\<rparr>"
  by (rule feed_wire_roundtrip [where junk = "[0xAB, 0xAB]"])
    (simp_all add: valid_ex_frame wire_ex_frame)

section \<open>Counters, bounds, reset\<close>

text \<open>
  Every resynchronisation is counted with its reason: in every reachable object the number of
  resynchronisations is the number of checksum failures plus the number of bad lengths.
\<close>

theorem resyncs_have_reasons:
  assumes "sync_reachable s"
  shows "resyncs (sync_stats s) = crc_failed (sync_stats s) + length_invalid (sync_stats s)"
  using assms
proof (induction rule: sync_reachable.induct)
  case (feed s bytes out0 s' fs)
  then show ?case
    using feed_spec [OF reachable_sync_inv [OF feed(1)], of bytes out0]
    by (auto simp: add_counts_def feed_append_def)
qed (simp_all add: SbfFrameSync_init_def SbfFrameSync_reset_def)

theorem resyncs_have_reasons_witness:
  "resyncs (sync_stats (SbfFrameSync_reset SbfFrameSync_init)) =
     crc_failed (sync_stats (SbfFrameSync_reset SbfFrameSync_init)) +
     length_invalid (sync_stats (SbfFrameSync_reset SbfFrameSync_init))"
  by (rule resyncs_have_reasons [OF sync_reachable.reset [OF sync_reachable.init]])

text \<open>
  C17: an unfinished frame never holds more than 8187 bytes, whatever was received: the length
  limit keeps a forged length field from growing the buffer.
\<close>

theorem unfinished_bytes_bounded:
  assumes "sync_reachable s"
  shows "length (sync_pend s) \<le> 8187"
proof -
  have "scan_rest (sync_pend s) = sync_pend s"
    by (rule sync_pend_rest [OF reachable_sync_inv [OF assms]])
  with scan_rest_short [of "sync_pend s"] show ?thesis by simp
qed

theorem unfinished_bytes_bounded_witness: "length (sync_pend SbfFrameSync_init) \<le> 8187"
  by (rule unfinished_bytes_bounded [OF sync_reachable.init])

text \<open>
  After \<open>reset\<close> the synchroniser parses what follows like a new one, whatever it held
  before, and its counters are kept.
\<close>

theorem reset_forgets_input_keeps_counters:
  "\<exists>s1 s2 fs. run_chunks sync_step (SbfFrameSync_reset s) cs = Inr (s1, fs) \<and>
     run_chunks sync_step SbfFrameSync_init cs = Inr (s2, fs) \<and>
     sync_pend s1 = sync_pend s2 \<and> sync_stats (SbfFrameSync_reset s) = sync_stats s"
  using sync.run_chunks_law [OF sync_inv_reset, of cs s] run_init [of cs] by auto

section \<open>Counting twice\<close>

text \<open>
  Junk after the last frame of a chunk stays in the buffer and is scanned again by the next call,
  and the errors found in it are counted again.
\<close>

lemmas feed_eval = SbfFrameSync_feed_def feed_drain_def feed_append_def
  feed_persist_def feed_loop.simps feed_step_defs buf_u16le_def buf_at_def skip_to_dollar.simps
  kMaxSbfLength_def sub_size_def erase_front_def assert_that_def Let_def copy_bytes_eq

definition ex_junk :: "byte list" where
  "ex_junk = [0x24, 0x40, 0x00, 0x00, 0x01, 0x00, 0x09, 0x00]"

definition ex_after :: SbfFrameSync where
  "ex_after =
     \<lparr>sync_buf = wire ex_frame @ ex_junk, sync_state = Idle,
      sync_stats = \<lparr>bytes_consumed = 16, frames_emitted = 1, crc_failed = 0, length_invalid = 1, resyncs = 1\<rparr>,
      sync_frame_drain = 8\<rparr>"

lemma feed_ex_junk:
  "SbfFrameSync_feed SbfFrameSync_init (wire ex_frame @ ex_junk) [] = Inr (ex_after, [ex_frame])"
  by (simp add: feed_eval SbfFrameSync_init_def ex_after_def ex_junk_def wire_ex_frame crc_eval)
    (simp add: ex_frame_def)

lemma feed_ex_after:
  "\<exists>s. SbfFrameSync_feed ex_after [] [] = Inr (s, []) \<and> length_invalid (sync_stats s) = 2"
  by (simp add: feed_eval ex_after_def ex_junk_def wire_ex_frame)

text \<open>
  One bad length field in the stream can be counted twice. Feeding a valid frame followed by
  eight bytes with a bad length counts one bad length; one more call with no bytes at all counts
  the same field again.
\<close>

theorem error_counters_depend_on_chunking:
  "\<exists>cs ds s1 s2 fs. concat cs = concat ds \<and>
     run_chunks sync_step SbfFrameSync_init cs = Inr (s1, fs) \<and>
     run_chunks sync_step SbfFrameSync_init ds = Inr (s2, fs) \<and>
     length_invalid (sync_stats s1) = 1 \<and> length_invalid (sync_stats s2) = 2"
proof -
  let ?xs = "wire ex_frame @ ex_junk"
  obtain s where s: "SbfFrameSync_feed ex_after [] [] = Inr (s, [])" "length_invalid (sync_stats s) = 2"
    using feed_ex_after by blast
  have "run_chunks sync_step SbfFrameSync_init [?xs] = Inr (ex_after, [ex_frame])"
    and "run_chunks sync_step SbfFrameSync_init [?xs, []] = Inr (s, [ex_frame])"
    using s by (simp_all add: sync_step_def feed_ex_junk)
  moreover have "length_invalid (sync_stats ex_after) = 1" by (simp add: ex_after_def)
  moreover have "concat [?xs] = concat [?xs, []]" by simp
  ultimately show ?thesis using s(2) by blast
qed

end
