(* ===== verification/Recorder.thy ===== *)
theory Recorder
  imports FrameSyncProps CppString
begin

text \<open>
  The recorder, src/src/sbf_recorder.hpp and sbf_recorder.cpp: frames from the synchroniser are
  written to one file at a time, and files rotate by size or age. The environment is explicit:
  the disk (contents by path), the log of paths opened for writing, and the answers of the clocks,
  of \<open>fopen\<close>, of \<open>fwrite\<close> and of \<open>fclose\<close>, each indexed by the number of calls made so far. The content of an open
  file is what its stream was given; closing brings it to the device and may lose the end of it, which the code
  does not notice. An exception carries the state in which it was thrown. The number in the file names and the rotation
  interval, which are an \<open>int\<close> and a duration in the code, are unbounded here.
\<close>

section \<open>The code: data\<close>

record RecorderStats =
  bytes_written :: u64
  frames_written :: u64
  files_rotated :: u64
  rec_crc_failed :: u64
  rec_length_invalid :: u64
  rec_resyncs :: u64

record RecorderConfig =
  cfg_output_dir :: string
  cfg_file_prefix :: string
  cfg_rotate_bytes :: u64
  cfg_rotate_interval :: int \<comment> \<open>seconds\<close>

record SbfRecorder =
  rec_cfg :: RecorderConfig
  rec_sync :: SbfFrameSync
  prev_resyncs :: u64
  prev_crc_failed :: u64
  prev_length_invalid :: u64
  rec_fp :: "string option" \<comment> \<open>the open file, by path; \<open>None\<close> is a null pointer\<close>
  current_path :: string
  current_size :: u64
  file_start :: int \<comment> \<open>nanoseconds of the steady clock\<close>
  seq_num :: nat
  rec_stats :: RecorderStats

record disk_world =
  w_disk :: "string \<Rightarrow> byte list option"
  w_opened :: "string list"
  w_mkdir_ok :: bool
  w_fopen_ok :: "nat \<Rightarrow> bool"
  w_fwrite_cap :: "nat \<Rightarrow> nat"
  w_fwrites :: nat
  w_close_lost :: "nat \<Rightarrow> nat" \<comment> \<open>bytes in the buffer that the device does not take at the end\<close>
  w_closes :: nat
  w_utc :: "nat \<Rightarrow> int" \<comment> \<open>seconds since the epoch\<close>
  w_steady :: "nat \<Rightarrow> int" \<comment> \<open>nanoseconds\<close>
  w_steadys :: nat

datatype rec_error =
    Cannot_create_dir string
  | Cannot_open string
  | Fwrite_header_failed
  | Fwrite_body_failed
  | Null_file
  | Sync_fault fault

type_synonym rec_state = "SbfRecorder \<times> disk_world"
type_synonym rec_result = "(rec_error \<times> rec_state) + rec_state"

section \<open>The code: file names\<close>

text \<open>\<open>gmtime_r\<close>: the civil date of a number of days since 1970-01-01.\<close>

definition civil_of_days :: "int \<Rightarrow> int \<times> int \<times> int" where
  "civil_of_days days =
     (let z = days + 719468;
          era = z div 146097;
          doe = z - era * 146097;
          yoe = (doe - doe div 1460 + doe div 36524 - doe div 146096) div 365;
          doy = doe - (365 * yoe + yoe div 4 - yoe div 100);
          mp = (5 * doy + 2) div 153;
          d = doy - (153 * mp + 2) div 5 + 1;
          m = (if mp < 10 then mp + 3 else mp - 9)
      in (yoe + era * 400 + (if m \<le> 2 then 1 else 0), m, d))"

definition two_digits :: "int \<Rightarrow> string" where
  "two_digits i = pad_left 2 (int_to_string i)"

definition utc_timestamp :: "int \<Rightarrow> string" where
  "utc_timestamp t =
     (let (y, m, d) = civil_of_days (t div 86400); s = t mod 86400
      in int_to_string y @ two_digits m @ two_digits d @ ''T'' @
         two_digits (s div 3600) @ two_digits (s div 60 mod 60) @ two_digits (s mod 60) @ ''Z'')"

text \<open>\<open>operator/\<close> of \<open>std::filesystem::path\<close>: an absolute right operand replaces the left one.\<close>

definition join_path :: "string \<Rightarrow> string \<Rightarrow> string" where
  "join_path d p =
     (if starts_with ''/'' p then p
      else if d = [] \<or> last d = CHR ''/'' then d @ p
      else d @ ''/'' @ p)"

definition file_path :: "RecorderConfig \<Rightarrow> int \<Rightarrow> nat \<Rightarrow> string" where
  "file_path cfg t n =
     join_path (cfg_output_dir cfg)
       (cfg_file_prefix cfg @ ''-'' @ utc_timestamp t @ ''-'' @ nat_to_string n @ ''.sbf'')"

section \<open>The code: operations\<close>

definition SbfRecorder_ctor :: "RecorderConfig \<Rightarrow> disk_world \<Rightarrow> rec_error + rec_state" where
  "SbfRecorder_ctor cfg w =
     (if \<not> w_mkdir_ok w then Inl (Cannot_create_dir (cfg_output_dir cfg))
      else Inr (\<lparr>rec_cfg = cfg, rec_sync = SbfFrameSync_init, prev_resyncs = 0, prev_crc_failed = 0,
                 prev_length_invalid = 0, rec_fp = None, current_path = [], current_size = 0,
                 file_start = 0, seq_num = 0,
                 rec_stats = \<lparr>bytes_written = 0, frames_written = 0, files_rotated = 0,
                   rec_crc_failed = 0, rec_length_invalid = 0, rec_resyncs = 0\<rparr>\<rparr>, w))"

text \<open>\<open>fflush\<close> and \<open>fclose\<close>, whose results the code ignores: what the device does not take is cut off.\<close>

definition fclose_file :: "string \<Rightarrow> disk_world \<Rightarrow> disk_world" where
  "fclose_file p w =
     w\<lparr>w_disk := (w_disk w)(p := map_option (\<lambda>bs. take (length bs - w_close_lost w (w_closes w)) bs) (w_disk w p)),
       w_closes := Suc (w_closes w)\<rparr>"

definition SbfRecorder_close :: "rec_state \<Rightarrow> rec_state" where
  "SbfRecorder_close st =
     (let (r, w) = st in
      case rec_fp r of
        None \<Rightarrow> st
      | Some p \<Rightarrow> (r\<lparr>rec_fp := None, current_size := 0\<rparr>, fclose_file p w))"

definition steady_now :: "disk_world \<Rightarrow> int \<times> disk_world" where
  "steady_now w = (w_steady w (w_steadys w), w\<lparr>w_steadys := Suc (w_steadys w)\<rparr>)"

text \<open>\<open>fopen (path, "wb")\<close>: on success the file exists and is empty.\<close>

definition fopen_wb :: "string \<Rightarrow> disk_world \<Rightarrow> bool \<times> disk_world" where
  "fopen_wb p w =
     (if w_fopen_ok w (length (w_opened w))
      then (True, w\<lparr>w_disk := (w_disk w)(p \<mapsto> []), w_opened := w_opened w @ [p]\<rparr>)
      else (False, w))"

text \<open>\<open>fwrite\<close>: appends as many bytes as the device takes and returns their number.\<close>

definition fwrite_to :: "string \<Rightarrow> byte list \<Rightarrow> disk_world \<Rightarrow> nat \<times> disk_world" where
  "fwrite_to p bs w =
     (let n = min (w_fwrite_cap w (w_fwrites w)) (length bs);
          old = (case w_disk w p of None \<Rightarrow> [] | Some xs \<Rightarrow> xs)
      in (n, w\<lparr>w_disk := (w_disk w)(p \<mapsto> old @ take n bs), w_fwrites := Suc (w_fwrites w)\<rparr>))"

definition open_new_file :: "rec_state \<Rightarrow> rec_result" where
  "open_new_file st =
     (let (r, w0) = st;
          (r1, w) = (case rec_fp r of
             None \<Rightarrow> (r, w0)
           | Some q \<Rightarrow>
               (r\<lparr>rec_fp := None,
                  rec_stats := (rec_stats r)\<lparr>files_rotated := files_rotated (rec_stats r) + 1\<rparr>\<rparr>,
                fclose_file q w0));
          p = file_path (rec_cfg r1) (w_utc w (length (w_opened w))) (Suc (seq_num r1));
          r2 = r1\<lparr>seq_num := Suc (seq_num r1), current_path := p\<rparr>;
          (ok, w1) = fopen_wb p w
      in if \<not> ok then Inl (Cannot_open p, (r2, w1))
         else let (now, w2) = steady_now w1
              in Inr (r2\<lparr>rec_fp := Some p, current_size := 0, file_start := now\<rparr>, w2))"

definition rotate_if_needed :: "rec_state \<Rightarrow> rec_result" where
  "rotate_if_needed st =
     (let (r, w) = st in
      if rec_fp r = None then Inr st
      else let (now, w1) = steady_now w;
               by_size = (current_size r \<ge> cfg_rotate_bytes (rec_cfg r));
               by_time = (now - file_start r \<ge> cfg_rotate_interval (rec_cfg r) * 1000000000)
           in if by_size \<or> by_time then open_new_file (r, w1) else Inr (r, w1))"

definition frame_header :: "Frame \<Rightarrow> byte list" where
  "frame_header f =
     [0x24, 0x40,
      ucast (frame_crc f AND 0xFF), ucast (drop_bit 8 (frame_crc f) AND 0xFF),
      ucast (frame_raw_id f AND 0xFF), ucast (drop_bit 8 (frame_raw_id f) AND 0xFF),
      ucast (frame_length f AND 0xFF), ucast (drop_bit 8 (frame_length f) AND 0xFF)]"

definition count_written :: "Frame \<Rightarrow> SbfRecorder \<Rightarrow> SbfRecorder" where
  "count_written f r =
     r\<lparr>current_size := current_size r + ucast (frame_length f),
       rec_stats := (rec_stats r)
         \<lparr>bytes_written := bytes_written (rec_stats r) + ucast (frame_length f),
          frames_written := frames_written (rec_stats r) + 1\<rparr>\<rparr>"

definition write_frame :: "Frame \<Rightarrow> rec_state \<Rightarrow> rec_result" where
  "write_frame f st =
     (let (r, w) = st in
      case rec_fp r of
        None \<Rightarrow> Inl (Null_file, st)
      | Some p \<Rightarrow>
          (let (n, w1) = fwrite_to p (frame_header f) w in
           if n \<noteq> 8 then Inl (Fwrite_header_failed, (r, w1))
           else
             bind_res
               (if frame_body f \<noteq> [] then
                  let (m, w2) = fwrite_to p (frame_body f) w1
                  in if m \<noteq> length (frame_body f) then Inl (Fwrite_body_failed, (r, w2)) else Inr w2
                else Inr w1)
               (\<lambda>w3. Inr (count_written f r, w3))))"

fun write_frames :: "Frame list \<Rightarrow> rec_state \<Rightarrow> rec_result" where
  "write_frames [] st = Inr st"
| "write_frames (f # fs) st =
     bind_res (write_frame f st) (\<lambda>st1.
     bind_res (rotate_if_needed st1) (\<lambda>st2. write_frames fs st2))"

definition take_sync_stats :: "SbfRecorder \<Rightarrow> SbfRecorder" where
  "take_sync_stats r =
     (let fs = sync_stats (rec_sync r) in
      r\<lparr>rec_stats := (rec_stats r)
          \<lparr>rec_crc_failed := rec_crc_failed (rec_stats r) + (crc_failed fs - prev_crc_failed r),
           rec_length_invalid := rec_length_invalid (rec_stats r) + (length_invalid fs - prev_length_invalid r),
           rec_resyncs := rec_resyncs (rec_stats r) + (resyncs fs - prev_resyncs r)\<rparr>,
        prev_crc_failed := crc_failed fs, prev_length_invalid := length_invalid fs,
        prev_resyncs := resyncs fs\<rparr>)"

definition SbfRecorder_feed :: "byte list \<Rightarrow> rec_state \<Rightarrow> rec_result" where
  "SbfRecorder_feed bytes st =
     bind_res (if rec_fp (fst st) = None then open_new_file st else Inr st) (\<lambda>(r, w).
     case SbfFrameSync_feed (rec_sync r) bytes [] of
       Inl e \<Rightarrow> Inl (Sync_fault e, (r, w))
     | Inr (s, fs) \<Rightarrow> write_frames fs (take_sync_stats (r\<lparr>rec_sync := s\<rparr>), w))"

fun record_chunks :: "byte list list \<Rightarrow> rec_state \<Rightarrow> rec_result" where
  "record_chunks [] st = Inr st"
| "record_chunks (c # cs) st = bind_res (SbfRecorder_feed c st) (record_chunks cs)"

section \<open>File names\<close>

lemma utc_timestamp_epoch: "utc_timestamp 0 = ''19700101T000000Z''"
  by code_simp

lemma join_path_suffix: "\<exists>q. join_path d p = q @ p"
  by (auto simp: join_path_def)

lemma digits_no_dash: "CHR ''-'' \<notin> set (nat_to_string n @ ''.sbf'')"
  using nat_to_string_digits [of "CHR ''-''" n] by (auto simp: is_digit_char_def)

text \<open>Different sequence numbers give different paths, whatever the times.\<close>

lemma last_segment_unique:
  assumes "q @ CHR ''-'' # xs = q' @ CHR ''-'' # ys" and "CHR ''-'' \<notin> set xs" and "CHR ''-'' \<notin> set ys"
  shows "xs = ys"
proof -
  have "takeWhile (\<lambda>c. c \<noteq> CHR ''-'') (rev (q @ CHR ''-'' # xs)) = rev xs"
    if "CHR ''-'' \<notin> set xs" for q xs
    using that by (auto simp: takeWhile_append)
  with assms show ?thesis by (metis rev_is_rev_conv)
qed

lemma file_path_seq: "file_path cfg t m = file_path cfg' t' n \<Longrightarrow> m = n"
proof -
  assume eq: "file_path cfg t m = file_path cfg' t' n"
  have "\<exists>q. file_path cfg t m = q @ CHR ''-'' # (nat_to_string m @ ''.sbf'')" for cfg t m
    using join_path_suffix [of "cfg_output_dir cfg"
        "cfg_file_prefix cfg @ ''-'' @ utc_timestamp t @ ''-'' @ nat_to_string m @ ''.sbf''"]
    by (auto simp: file_path_def)
  then obtain q q' where "q @ CHR ''-'' # (nat_to_string m @ ''.sbf'') = q' @ CHR ''-'' # (nat_to_string n @ ''.sbf'')"
    using eq by metis
  then have "nat_to_string m @ ''.sbf'' = nat_to_string n @ ''.sbf''"
    by (rule last_segment_unique) (rule digits_no_dash)+
  then show "m = n" by simp
qed

section \<open>What is on disk\<close>

lemma frame_header_wire: "frame_header f @ frame_body f = wire f"
proof -
  have "ucast (c AND 0xFF) = lo_byte c" and "ucast (drop_bit 8 c AND 0xFF) = hi_byte c" for c :: u16
    by (rule bit_word_eqI; auto simp: lo_byte_def hi_byte_def bit_simps numeral_eq_Suc less_Suc_eq)+
  then show ?thesis by (simp add: frame_header_def wire_def)
qed

abbreviation content :: "Frame list \<Rightarrow> byte list" where
  "content fs \<equiv> concat (map wire fs)"

text \<open>
  The state records the frames \<open>parts\<close>: one list of frames per file, in the order in which the
  files were opened; no path was opened twice; the open file is the last one.
\<close>

definition rec_rel :: "rec_state \<Rightarrow> Frame list list \<Rightarrow> bool" where
  "rec_rel st parts \<longleftrightarrow>
     (let (r, w) = st in
      map (w_disk w) (w_opened w) = map (\<lambda>fs. Some (content fs)) parts \<and>
      distinct (w_opened w) \<and>
      (\<forall>p \<in> set (w_opened w). \<exists>t n. n \<le> seq_num r \<and> p = file_path (rec_cfg r) t n) \<and>
      (rec_fp r = None \<or> w_opened w \<noteq> [] \<and> rec_fp r = Some (last (w_opened w))))"

text \<open>All bytes recorded, files in the order of opening.\<close>

definition recorded :: "disk_world \<Rightarrow> byte list" where
  "recorded w = concat (map (\<lambda>p. the (w_disk w p)) (w_opened w))"

lemma content_concat: "content (concat parts) = concat (map content parts)"
  by (induction parts) simp_all

lemma rec_rel_length: "rec_rel (r, w) parts \<Longrightarrow> length (w_opened w) = length parts"
  unfolding rec_rel_def by (auto dest: arg_cong [where f = length])

lemma rec_rel_recorded:
  assumes "rec_rel (r, w) parts"
  shows "recorded w = content (concat parts)"
proof -
  have "map the (map (w_disk w) (w_opened w)) = map the (map (\<lambda>fs. Some (content fs)) parts)"
    using assms by (simp only: rec_rel_def Let_def case_prod_conv)
  then have "map (\<lambda>p. the (w_disk w p)) (w_opened w) = map content parts"
    by (simp add: comp_def)
  then show ?thesis by (simp add: recorded_def content_concat)
qed

section \<open>Operations\<close>

lemma rec_rel_fresh_path:
  assumes "rec_rel (r, w) parts" and "seq_num r < n"
  shows "file_path (rec_cfg r) t n \<notin> set (w_opened w)"
proof
  assume "file_path (rec_cfg r) t n \<in> set (w_opened w)"
  then obtain t' m where "m \<le> seq_num r" "file_path (rec_cfg r) t n = file_path (rec_cfg r) t' m"
    using assms(1) by (auto simp: rec_rel_def)
  with assms(2) show False by (auto dest: file_path_seq)
qed

text \<open>No close loses anything.\<close>

definition closes_ok :: "disk_world \<Rightarrow> bool" where
  "closes_ok w \<longleftrightarrow> (\<forall>n. w_close_lost w n = 0)"

lemma fclose_lossless: "closes_ok w \<Longrightarrow> fclose_file p w = w\<lparr>w_closes := Suc (w_closes w)\<rparr>"
  by (cases w) (simp add: fclose_file_def closes_ok_def option.map_id0 [unfolded id_def] fun_upd_idem)

lemma closes_ok_cong [simp]:
  "closes_ok (w\<lparr>w_closes := n\<rparr>) = closes_ok w" "closes_ok (w\<lparr>w_disk := d\<rparr>) = closes_ok w"
  "closes_ok (w\<lparr>w_opened := x\<rparr>) = closes_ok w" "closes_ok (w\<lparr>w_steadys := n\<rparr>) = closes_ok w"
  by (simp_all add: closes_ok_def)

lemma recorded_close:
  "closes_ok w \<Longrightarrow> recorded (snd (SbfRecorder_close (r, w))) = recorded w"
  by (simp add: SbfRecorder_close_def fclose_lossless recorded_def split: option.splits)

lemma open_new_file_ok:
  assumes rel: "rec_rel (r, w) parts" and ok: "w_fopen_ok w (length (w_opened w))" and cl: "closes_ok w"
  shows "\<exists>r' w'. open_new_file (r, w) = Inr (r', w') \<and> rec_rel (r', w') (parts @ [[]]) \<and>
      rec_fp r' \<noteq> None \<and> current_size r' = 0 \<and> file_start r' = w_steady w (w_steadys w) \<and> w_steadys w' = Suc (w_steadys w) \<and>
      rec_cfg r' = rec_cfg r \<and> rec_sync r' = rec_sync r \<and>
      (prev_resyncs r', prev_crc_failed r', prev_length_invalid r') =
        (prev_resyncs r, prev_crc_failed r, prev_length_invalid r) \<and>
      rec_stats r' = (if rec_fp r = None then rec_stats r
        else (rec_stats r)\<lparr>files_rotated := files_rotated (rec_stats r) + 1\<rparr>) \<and>
      w_fopen_ok w' = w_fopen_ok w \<and> w_fwrite_cap w' = w_fwrite_cap w \<and> w_steady w' = w_steady w \<and>
      w_close_lost w' = w_close_lost w"
proof -
  let ?p = "file_path (rec_cfg r) (w_utc w (length (w_opened w))) (Suc (seq_num r))"
  have fresh: "?p \<notin> set (w_opened w)" using rec_rel_fresh_path [OF rel] by simp
  then have "map ((w_disk w)(?p \<mapsto> [])) (w_opened w) = map (w_disk w) (w_opened w)"
    by (auto intro: map_cong)
  with rel fresh ok cl show ?thesis
    by (cases "rec_fp r")
      (auto simp: open_new_file_def fopen_wb_def steady_now_def rec_rel_def Let_def fclose_lossless, (meson le_Suc_eq)+)
qed

lemma open_new_file_fail:
  assumes rel: "rec_rel (r, w) parts" and bad: "\<not> w_fopen_ok w (length (w_opened w))"
    and cl: "closes_ok w"
  shows "\<exists>e r' w'. open_new_file (r, w) = Inl (e, (r', w')) \<and> rec_rel (r', w') parts \<and> closes_ok w'"
  using rel bad cl
  by (cases "rec_fp r")
    (auto simp: open_new_file_def fopen_wb_def rec_rel_def Let_def fclose_lossless, (meson le_Suc_eq)+)

text \<open>Appending bytes to the open file, which is the last one.\<close>

definition appended :: "disk_world \<Rightarrow> disk_world \<Rightarrow> byte list \<Rightarrow> bool" where
  "appended w w' bs \<longleftrightarrow>
     w_opened w \<noteq> [] \<and> w_opened w' = w_opened w \<and>
     w_disk w' = (w_disk w)(last (w_opened w) \<mapsto> the (w_disk w (last (w_opened w))) @ bs) \<and>
     w_fopen_ok w' = w_fopen_ok w \<and> w_fwrite_cap w' = w_fwrite_cap w \<and> w_steady w' = w_steady w \<and>
     w_steadys w' = w_steadys w \<and> w_close_lost w' = w_close_lost w"

lemma appended_closes: "appended w w' bs \<Longrightarrow> closes_ok w' = closes_ok w"
  by (simp add: appended_def closes_ok_def)

lemma appended_trans: "appended w w1 as \<Longrightarrow> appended w1 w2 bs \<Longrightarrow> appended w w2 (as @ bs)"
  by (auto simp: appended_def)

lemma rec_rel_snoc:
  assumes "rec_rel (r, w) parts" and "w_opened w \<noteq> []"
  obtains ps p init l where "w_opened w = ps @ [p]" "parts = init @ [l]" "p \<notin> set ps"
    "w_disk w p = Some (content l)" "map (w_disk w) ps = map (\<lambda>fs. Some (content fs)) init"
proof -
  obtain ps p where ps: "w_opened w = ps @ [p]"
    using assms(2) by (metis append_butlast_last_id)
  have len: "length parts = Suc (length ps)"
    using rec_rel_length [OF assms(1)] ps by simp
  then obtain init l where parts: "parts = init @ [l]" by (metis append_butlast_last_id length_0_conv nat.simps(3))
  show thesis
    by (rule that [OF ps parts]) (use assms ps parts in \<open>auto simp: rec_rel_def\<close>)
qed

lemma appended_rel:
  assumes "rec_rel (r, w) parts" and "appended w w' (wire f)"
    and "seq_num r' = seq_num r" "rec_cfg r' = rec_cfg r" "rec_fp r' = rec_fp r"
  shows "rec_rel (r', w') (butlast parts @ [last parts @ [f]])"
proof -
  have ne: "w_opened w \<noteq> []" using assms(2) by (simp add: appended_def)
  obtain ps p init l where *: "w_opened w = ps @ [p]" "parts = init @ [l]" "p \<notin> set ps"
    "w_disk w p = Some (content l)" "map (w_disk w) ps = map (\<lambda>fs. Some (content fs)) init"
    using assms(1) ne by (rule rec_rel_snoc)
  have "w_disk w' = (w_disk w)(p \<mapsto> content (l @ [f]))"
    using assms(2) * by (simp add: appended_def)
  moreover have "map ((w_disk w)(p \<mapsto> content (l @ [f]))) ps = map (w_disk w) ps"
    using *(3) by auto
  ultimately show ?thesis
    using assms * by (auto simp: rec_rel_def appended_def)
qed

lemma appended_recorded:
  assumes "rec_rel (r, w) parts" and "appended w w' bs"
  shows "recorded w' = recorded w @ bs"
proof -
  have ne: "w_opened w \<noteq> []" using assms(2) by (simp add: appended_def)
  obtain ps p init l where *: "w_opened w = ps @ [p]" "parts = init @ [l]" "p \<notin> set ps"
    "w_disk w p = Some (content l)" "map (w_disk w) ps = map (\<lambda>fs. Some (content fs)) init"
    using assms(1) ne by (rule rec_rel_snoc)
  have "concat (map (\<lambda>q. the (w_disk w' q)) ps) = concat (map (\<lambda>q. the (w_disk w q)) ps)"
    using *(1,3) assms(2) by (intro arg_cong [where f = concat] map_cong) (auto simp: appended_def)
  moreover have "w_opened w' = ps @ [p]" "w_disk w' p = Some (content l @ bs)"
    using * assms(2) by (simp_all add: appended_def)
  ultimately show ?thesis using *(1,4) by (simp add: recorded_def)
qed

lemma rec_rel_open:
  assumes "rec_rel (r, w) parts" and "rec_fp r = Some p"
  shows "w_opened w \<noteq> []" and "p = last (w_opened w)" and "w_disk w p \<noteq> None"
proof -
  show p: "w_opened w \<noteq> []" "p = last (w_opened w)" using assms by (auto simp: rec_rel_def)
  then show "w_disk w p \<noteq> None" using rec_rel_snoc [OF assms(1) p(1)] by (metis last_snoc option.distinct(1))
qed

lemma fwrite_appended:
  assumes "w_opened w \<noteq> []" "p = last (w_opened w)" "w_disk w p \<noteq> None" and "fwrite_to p bs w = (n, w')"
  shows "appended w w' (take n bs)" and "n \<le> length bs"
    and "length bs \<le> w_fwrite_cap w (w_fwrites w) \<Longrightarrow> n = length bs"
  using assms by (auto simp: fwrite_to_def Let_def appended_def)

lemma length_frame_header [simp]: "length (frame_header f) = 8"
  by (simp add: frame_header_def)

lemma count_written_frame [simp]:
  "seq_num (count_written f r) = seq_num r" "rec_cfg (count_written f r) = rec_cfg r"
  "rec_fp (count_written f r) = rec_fp r" "file_start (count_written f r) = file_start r"
  "rec_sync (count_written f r) = rec_sync r"
  by (simp_all add: count_written_def)

text \<open>The device never refuses a file, takes every write of a frame's size and loses nothing at the end.\<close>

definition device_ok :: "disk_world \<Rightarrow> bool" where
  "device_ok w \<longleftrightarrow> (\<forall>n. w_fopen_ok w n) \<and> (\<forall>n. 8188 \<le> w_fwrite_cap w n) \<and> closes_ok w"

lemma device_closes: "device_ok w \<Longrightarrow> closes_ok w"
  by (simp add: device_ok_def)

text \<open>A frame is written whole, or the call throws and a proper piece of its start is on disk.\<close>

lemma write_frame_eq:
  assumes "rec_fp r = Some p" and "fwrite_to p (frame_header f) w = (n, w1)" and "fwrite_to p (frame_body f) w1 = (m, w2)"
  shows "write_frame f (r, w) =
     (if n \<noteq> 8 then Inl (Fwrite_header_failed, (r, w1))
      else if frame_body f = [] then Inr (count_written f r, w1)
      else if m \<noteq> length (frame_body f) then Inl (Fwrite_body_failed, (r, w2))
      else Inr (count_written f r, w2))"
  using assms by (simp add: write_frame_def Let_def)

lemma device_fwrite:
  assumes "device_ok w" and "length bs \<le> 8188" and "fwrite_to p bs w = (n, w')"
  shows "n = length bs"
proof -
  have "8188 \<le> w_fwrite_cap w (w_fwrites w)" using assms(1) by (simp add: device_ok_def)
  with assms(2,3) show ?thesis by (auto simp: fwrite_to_def Let_def)
qed

lemma device_appended: "appended w w' bs \<Longrightarrow> device_ok w \<Longrightarrow> device_ok w'"
  by (simp add: device_ok_def appended_def closes_ok_def)

lemma write_frame_cases:
  assumes rel: "rec_rel (r, w) parts" and fp: "rec_fp r = Some p"
  shows "(\<exists>w'. write_frame f (r, w) = Inr (count_written f r, w') \<and> appended w w' (wire f)) \<or>
     (\<exists>e w' k. write_frame f (r, w) = Inl (e, (r, w')) \<and> appended w w' (take k (wire f)) \<and>
        \<not> (device_ok w \<and> length (wire f) \<le> 8188))"
proof -
  obtain n w1 where h: "fwrite_to p (frame_header f) w = (n, w1)" by fastforce
  obtain m w2 where b: "fwrite_to p (frame_body f) w1 = (m, w2)" by fastforce
  note eq = write_frame_eq [OF fp h b]
  note h' = fwrite_appended [OF rec_rel_open [OF rel fp] h]
  have head: "take n (frame_header f) = take n (wire f)" using h'(2) by (simp flip: frame_header_wire)
  show ?thesis
  proof (cases "n = 8")
    case False
    then have "\<not> device_ok w" using device_fwrite [OF _ _ h] by auto
    with h'(1) head eq False show ?thesis by metis
  next
    case True
    then have ap1: "appended w w1 (frame_header f)" using h'(1) by simp
    have "w_opened w1 \<noteq> []" "p = last (w_opened w1)" "w_disk w1 p \<noteq> None"
      using ap1 rec_rel_open [OF rel fp] by (auto simp: appended_def)
    note b' = fwrite_appended [OF this b]
    have ap: "appended w w2 (take (8 + m) (wire f))"
      using appended_trans [OF ap1 b'(1)] by (simp flip: frame_header_wire)
    have "m = length (frame_body f)" if "device_ok w" "length (wire f) \<le> 8188"
      using device_fwrite [OF device_appended [OF ap1 that(1)] _ b] that(2) by simp
    moreover have "take (8 + length (frame_body f)) (wire f) = wire f" by (simp add: wire_def)
    moreover have "frame_body f = [] \<Longrightarrow> appended w w1 (wire f)"
      using ap1 by (simp flip: frame_header_wire)
    ultimately show ?thesis using ap eq True by (cases "m = length (frame_body f)") metis+
  qed
qed

lemma recorded_appended_take:
  "rec_rel (r, w) parts \<Longrightarrow> appended w w' (take k (wire f)) \<Longrightarrow>
     prefix (recorded w') (content (concat parts @ f # fs))"
  using appended_recorded [of r w parts w' "take k (wire f)"] rec_rel_recorded [of r w parts]
  by (auto simp: prefix_def) (metis append_assoc append_take_drop_id)

lemma rotate_cases:
  assumes rel: "rec_rel (r, w) parts" and fp: "rec_fp r \<noteq> None"
  shows "(\<exists>w'. rotate_if_needed (r, w) = Inr (r, w') \<and> rec_rel (r, w') parts \<and>
       w_fopen_ok w' = w_fopen_ok w \<and> w_fwrite_cap w' = w_fwrite_cap w \<and> w_steady w' = w_steady w \<and>
       w_close_lost w' = w_close_lost w \<and> w_steadys w' = Suc (w_steadys w) \<and>
       current_size r < cfg_rotate_bytes (rec_cfg r) \<and>
       w_steady w (w_steadys w) - file_start r < cfg_rotate_interval (rec_cfg r) * 1000000000) \<or>
     (\<exists>w1. rotate_if_needed (r, w) = open_new_file (r, w1) \<and> rec_rel (r, w1) parts \<and>
       w_fopen_ok w1 = w_fopen_ok w \<and> w_fwrite_cap w1 = w_fwrite_cap w \<and> w_steady w1 = w_steady w \<and>
       w_close_lost w1 = w_close_lost w \<and> w_steadys w1 = Suc (w_steadys w) \<and>
       (cfg_rotate_bytes (rec_cfg r) \<le> current_size r \<or>
        cfg_rotate_interval (rec_cfg r) * 1000000000 \<le> w_steady w (w_steadys w) - file_start r))"
proof -
  have "rec_rel (r, w\<lparr>w_steadys := Suc (w_steadys w)\<rparr>) parts"
    using rel by (simp add: rec_rel_def)
  with fp show ?thesis
    by (auto simp: rotate_if_needed_def steady_now_def Let_def not_le)
qed

end
