(* ===== verification/RecorderProps.thy ===== *)
theory RecorderProps
  imports Recorder
begin

text \<open>
  Properties of the recorder over a whole recording: what is on disk, how the files rotate, what
  the statistics say, and what is on disk when a write fails.
\<close>

section \<open>The recording invariant\<close>

definition rec_counts :: "SbfRecorder \<Rightarrow> Frame list list \<Rightarrow> bool" where
  "rec_counts r parts \<longleftrightarrow>
     current_size r = of_nat (length (content (last parts))) \<and>
     bytes_written (rec_stats r) = of_nat (length (content (concat parts))) \<and>
     frames_written (rec_stats r) = of_nat (length (concat parts)) \<and>
     files_rotated (rec_stats r) = of_nat (length parts - 1)"

text \<open>
  Readings of the steady clock are numbered. Opening a file takes one reading and the rotation check after each frame
  takes one, so that after the files \<open>init\<close> the next file is opened at the following reading.
\<close>

definition opened_at :: "nat \<Rightarrow> Frame list list \<Rightarrow> nat" where
  "opened_at n init = n + length init + length (concat init)"

text \<open>A file that was opened at reading \<open>o\<close> and holds the frames \<open>p\<close> is full, or old at the check after its last frame.\<close>

definition rotation_due :: "RecorderConfig \<Rightarrow> (nat \<Rightarrow> int) \<Rightarrow> nat \<Rightarrow> Frame list \<Rightarrow> bool" where
  "rotation_due cfg clock k p \<longleftrightarrow>
     unat (cfg_rotate_bytes cfg) \<le> length (content p) \<or>
     cfg_rotate_interval cfg * 1000000000 \<le> clock (k + length p) - clock k"

text \<open>No rotation was due after any of the first \<open>n\<close> frames.\<close>

definition kept_open :: "RecorderConfig \<Rightarrow> (nat \<Rightarrow> int) \<Rightarrow> nat \<Rightarrow> Frame list \<Rightarrow> nat \<Rightarrow> bool" where
  "kept_open cfg clock k p n \<longleftrightarrow> (\<forall>j. 0 < j \<and> j \<le> n \<longrightarrow> \<not> rotation_due cfg clock k (take j p))"

definition left_when_due :: "RecorderConfig \<Rightarrow> (nat \<Rightarrow> int) \<Rightarrow> nat \<Rightarrow> Frame list \<Rightarrow> bool" where
  "left_when_due cfg clock k p \<longleftrightarrow> p \<noteq> [] \<and> rotation_due cfg clock k p \<and> kept_open cfg clock k p (length p - 1)"

definition closed_files :: "RecorderConfig \<Rightarrow> (nat \<Rightarrow> int) \<Rightarrow> nat \<Rightarrow> Frame list list \<Rightarrow> bool" where
  "closed_files cfg clock n init \<longleftrightarrow>
     (\<forall>i < length init. left_when_due cfg clock (opened_at n (take i init)) (init ! i))"

definition sizes_ok :: "RecorderConfig \<Rightarrow> Frame list list \<Rightarrow> bool" where
  "sizes_ok cfg parts \<longleftrightarrow>
     (\<forall>p \<in> set parts. length (content p) < unat (cfg_rotate_bytes cfg) + 8188 \<or> length (content p) \<le> 8188)"

lemma closed_files_snoc:
  "closed_files cfg clock n (init @ [l]) \<longleftrightarrow>
     closed_files cfg clock n init \<and> left_when_due cfg clock (opened_at n init) l"
  by (auto simp: closed_files_def less_Suc_eq nth_append)

lemma kept_open_snoc: "kept_open cfg clock k l (length l) \<Longrightarrow> kept_open cfg clock k (l @ [f]) (length l)"
  by (simp add: kept_open_def)

lemma kept_open_grow:
  assumes "kept_open cfg clock k l (length l - 1)" and "\<not> rotation_due cfg clock k l"
  shows "kept_open cfg clock k l (length l)"
  unfolding kept_open_def
proof (intro allI impI)
  fix j assume j: "0 < j \<and> j \<le> length l"
  show "\<not> rotation_due cfg clock k (take j l)"
  proof (cases "j = length l")
    case False
    then have "j \<le> length l - 1" using j by arith
    with assms(1) j show ?thesis by (simp add: kept_open_def)
  qed (use assms(2) in simp)
qed

definition env_same :: "disk_world \<Rightarrow> disk_world \<Rightarrow> bool" where
  "env_same w w' \<longleftrightarrow>
     w_fopen_ok w' = w_fopen_ok w \<and> w_fwrite_cap w' = w_fwrite_cap w \<and> w_steady w' = w_steady w \<and>
     w_close_lost w' = w_close_lost w"

text \<open>
  The state after a write, before the rotation check; \<open>n\<close> is the reading at which the first file was opened.
\<close>

definition written :: "nat \<Rightarrow> rec_state \<Rightarrow> Frame list list \<Rightarrow> bool" where
  "written n st parts \<longleftrightarrow>
     (let (r, w) = st; k = opened_at n (butlast parts) in
      rec_rel st parts \<and> rec_fp r \<noteq> None \<and> parts \<noteq> [] \<and> rec_counts r parts \<and>
      sizes_ok (rec_cfg r) parts \<and> closed_files (rec_cfg r) (w_steady w) n (butlast parts) \<and>
      kept_open (rec_cfg r) (w_steady w) k (last parts) (length (last parts) - 1) \<and>
      file_start r = w_steady w k \<and> unat (cfg_rotate_bytes (rec_cfg r)) + 8188 < 2 ^ 64)"

definition recording :: "nat \<Rightarrow> rec_state \<Rightarrow> Frame list list \<Rightarrow> bool" where
  "recording n st parts \<longleftrightarrow>
     (let (r, w) = st; k = opened_at n (butlast parts) in
      written n st parts \<and> kept_open (rec_cfg r) (w_steady w) k (last parts) (length (last parts)) \<and>
      w_steadys w = Suc (k + length (last parts)))"

lemma env_same_trans: "env_same w w1 \<Longrightarrow> env_same w1 w2 \<Longrightarrow> env_same w w2"
  by (simp add: env_same_def)

lemma env_same_device: "env_same w w' \<Longrightarrow> device_ok w' = device_ok w"
  by (simp add: env_same_def device_ok_def closes_ok_def)

lemma valid_frame_len:
  "valid_frame f \<Longrightarrow> (ucast (frame_length f) :: u64) = of_nat (length (wire f)) \<and>
     length (wire f) \<le> 8188"
proof -
  assume v: "valid_frame f"
  then have n: "unat (frame_length f) = length (wire f)" by (simp add: valid_frame_def)
  moreover have "unat (frame_length f) \<le> 8188"
    using v len_okD [of "frame_length f"] by (simp add: valid_frame_def)
  moreover have "(ucast (frame_length f) :: u64) = of_nat (unat (frame_length f))"
    by simp
  ultimately show ?thesis by simp
qed

lemma unat_size: "n < 2 ^ 64 \<Longrightarrow> unat (of_nat n :: u64) = n"
  by (simp add: unsigned_of_nat take_bit_nat_eq_self)

lemma counts_after_write:
  assumes "rec_counts r (init @ [l])" and "valid_frame f"
  shows "rec_counts (count_written f r) (init @ [l @ [f]])"
  using assms valid_frame_len [OF assms(2)]
  by (simp add: rec_counts_def count_written_def algebra_simps)

lemma recordingD: "recording n (r, w) parts \<Longrightarrow> written n (r, w) parts"
  by (simp add: recording_def Let_def)

lemma writtenD:
  assumes "written n (r, w) parts"
  shows "rec_rel (r, w) parts" and "rec_fp r \<noteq> None" and "parts \<noteq> []" and "rec_counts r parts"
    and "sizes_ok (rec_cfg r) parts" and "closed_files (rec_cfg r) (w_steady w) n (butlast parts)"
    and "kept_open (rec_cfg r) (w_steady w) (opened_at n (butlast parts)) (last parts) (length (last parts) - 1)"
    and "file_start r = w_steady w (opened_at n (butlast parts))"
    and "unat (cfg_rotate_bytes (rec_cfg r)) + 8188 < 2 ^ 64"
  using assms by (simp_all add: written_def Let_def)

lemma recording_last:
  assumes "recording n (r, w) parts"
  shows "kept_open (rec_cfg r) (w_steady w) (opened_at n (butlast parts)) (last parts) (length (last parts))"
    and "w_steadys w = Suc (opened_at n (butlast parts) + length (last parts))"
    and "last parts = [] \<or> length (content (last parts)) < unat (cfg_rotate_bytes (rec_cfg r))"
proof -
  show k: "kept_open (rec_cfg r) (w_steady w) (opened_at n (butlast parts)) (last parts) (length (last parts))"
    and "w_steadys w = Suc (opened_at n (butlast parts) + length (last parts))"
    using assms by (simp_all add: recording_def Let_def)
  show "last parts = [] \<or> length (content (last parts)) < unat (cfg_rotate_bytes (rec_cfg r))"
    using k by (cases "last parts") (auto simp: kept_open_def rotation_due_def dest!: spec [of _ "length (last parts)"])
qed

lemma write_ok:
  assumes rec: "recording n (r, w) parts" and f: "valid_frame f" and dev: "device_ok w"
  shows "\<exists>w'. write_frame f (r, w) = Inr (count_written f r, w') \<and>
     written n (count_written f r, w') (butlast parts @ [last parts @ [f]]) \<and> env_same w w' \<and>
     w_steadys w' = opened_at n (butlast parts) + length (last parts @ [f])"
proof -
  note D = writtenD [OF recordingD [OF rec]] and R = recording_last [OF rec]
  let ?r1 = "count_written f r"
  obtain init l where parts: "parts = init @ [l]" using D(3) by (metis append_butlast_last_id)
  obtain p where fp: "rec_fp r = Some p" using D(2) by auto
  have fl: "length (wire f) \<le> 8188" using valid_frame_len [OF f] by simp
  with write_frame_cases [OF D(1) fp, of f] dev obtain w1 where
    w1: "write_frame f (r, w) = Inr (?r1, w1)" "appended w w1 (wire f)" by blast
  have env: "env_same w w1" "w_steadys w1 = w_steadys w" using w1(2) by (simp_all add: appended_def env_same_def)
  have "length (content (l @ [f])) = length (content l) + length (wire f)" by simp
  with R(3) fl have "length (content (l @ [f])) < unat (cfg_rotate_bytes (rec_cfg r)) + 8188 \<or>
      length (content (l @ [f])) \<le> 8188"
    by (auto simp: parts)
  then have "sizes_ok (rec_cfg r) (init @ [l @ [f]])" using D(5) by (auto simp: sizes_ok_def parts)
  moreover have "rec_counts ?r1 (init @ [l @ [f]])"
    using counts_after_write [OF _ f] D(4) by (simp add: parts)
  moreover have "rec_rel (?r1, w1) (init @ [l @ [f]])"
    using appended_rel [OF D(1) w1(2), of ?r1] by (simp add: parts)
  ultimately have "written n (?r1, w1) (init @ [l @ [f]])"
    using D(6,8,9) kept_open_snoc R(1) fp env(1) by (auto simp: written_def env_same_def parts)
  with w1(1) env R(2) show ?thesis by (auto simp: parts)
qed

lemma written_size:
  assumes "written n (r, w) parts"
  shows "unat (current_size r) = length (content (last parts))"
proof -
  have "last parts \<in> set parts" using writtenD(3) [OF assms] by simp
  then have "length (content (last parts)) < 2 ^ 64"
    using writtenD(5,9) [OF assms] unfolding sizes_ok_def by fastforce
  then show ?thesis
    using writtenD(4) [OF assms] unat_size by (simp add: rec_counts_def)
qed

text \<open>The check rotates exactly when a rotation is due.\<close>

lemma rotate_exactly:
  assumes wr: "written n (r, w) parts" and now: "w_steadys w = opened_at n (butlast parts) + length (last parts)"
  shows "(\<exists>w'. rotate_if_needed (r, w) = Inr (r, w') \<and> rec_rel (r, w') parts \<and> env_same w w' \<and>
       w_steadys w' = Suc (w_steadys w) \<and>
       \<not> rotation_due (rec_cfg r) (w_steady w) (opened_at n (butlast parts)) (last parts)) \<or>
     (\<exists>w1. rotate_if_needed (r, w) = open_new_file (r, w1) \<and> rec_rel (r, w1) parts \<and> env_same w w1 \<and>
       w_steadys w1 = Suc (w_steadys w) \<and>
       rotation_due (rec_cfg r) (w_steady w) (opened_at n (butlast parts)) (last parts))"
  using rotate_cases [OF writtenD(1,2) [OF wr]] writtenD(8) [OF wr] written_size [OF wr] now
  by (auto simp: rotation_due_def env_same_def word_less_nat_alt word_le_nat_alt)

lemma rotate_ok:
  assumes wr: "written n (r, w) parts" and dev: "device_ok w" and ne: "last parts \<noteq> []"
    and now: "w_steadys w = opened_at n (butlast parts) + length (last parts)"
  shows "\<exists>r' w' parts'. rotate_if_needed (r, w) = Inr (r', w') \<and> recording n (r', w') parts' \<and>
     concat parts' = concat parts \<and> env_same w w' \<and> rec_cfg r' = rec_cfg r \<and> rec_sync r' = rec_sync r"
  using rotate_exactly [OF wr now]
proof (elim disjE exE conjE)
  note D = writtenD [OF wr]
  fix w2 assume s: "rotate_if_needed (r, w) = Inr (r, w2)" "rec_rel (r, w2) parts" "env_same w w2"
    "w_steadys w2 = Suc (w_steadys w)" "\<not> rotation_due (rec_cfg r) (w_steady w) (opened_at n (butlast parts)) (last parts)"
  have "recording n (r, w2) parts"
    using s D now kept_open_grow [OF D(7) s(5)] by (simp add: recording_def written_def env_same_def)
  with s show ?thesis by blast
next
  note D = writtenD [OF wr]
  fix w2 assume s: "rotate_if_needed (r, w) = open_new_file (r, w2)" "rec_rel (r, w2) parts" "env_same w w2"
    "w_steadys w2 = Suc (w_steadys w)" "rotation_due (rec_cfg r) (w_steady w) (opened_at n (butlast parts)) (last parts)"
  obtain init l where parts: "parts = init @ [l]" using D(3) by (metis append_butlast_last_id)
  have "w_fopen_ok w2 (length (w_opened w2))" "closes_ok w2"
    using dev env_same_device [OF s(3)] by (simp_all add: device_ok_def)
  from open_new_file_ok [OF s(2) this] D(2) obtain r3 w3 where
    o: "open_new_file (r, w2) = Inr (r3, w3)" "rec_rel (r3, w3) (parts @ [[]])"
      "rec_fp r3 \<noteq> None" "current_size r3 = 0" "file_start r3 = w_steady w2 (w_steadys w2)"
      "rec_cfg r3 = rec_cfg r" "rec_sync r3 = rec_sync r" "env_same w2 w3" "w_steadys w3 = Suc (w_steadys w2)"
      "rec_stats r3 = (rec_stats r)\<lparr>files_rotated := files_rotated (rec_stats r) + 1\<rparr>"
    by (auto simp: env_same_def)
  have env: "env_same w w3" using s(3) o(8) by (rule env_same_trans)
  have at: "opened_at n parts = Suc (w_steadys w)" using now by (simp add: opened_at_def parts)
  have "closed_files (rec_cfg r) (w_steady w) n parts"
    using D(6,7) s(5) ne by (simp add: parts closed_files_snoc left_when_due_def)
  moreover have "rec_counts r3 (parts @ [[]])"
    using D(4) o(4,10) by (simp add: rec_counts_def parts)
  moreover have "sizes_ok (rec_cfg r) (parts @ [[]])" using D(5) by (simp add: sizes_ok_def)
  ultimately have "recording n (r3, w3) (parts @ [[]])"
    using o s(3,4) D(9) env at by (simp add: recording_def written_def env_same_def kept_open_def)
  with o s(1) env show ?thesis
    by (intro exI [of _ r3] exI [of _ w3] exI [of _ "parts @ [[]]"]) simp
qed

lemma write_then_rotate:
  assumes rec: "recording n (r, w) parts" and f: "valid_frame f" and dev: "device_ok w"
  shows "\<exists>r' w' parts'. bind_res (write_frame f (r, w)) rotate_if_needed = Inr (r', w') \<and>
     recording n (r', w') parts' \<and> concat parts' = concat parts @ [f] \<and> env_same w w' \<and>
     rec_cfg r' = rec_cfg r \<and> rec_sync r' = rec_sync r"
proof -
  obtain init l where parts: "parts = init @ [l]"
    using writtenD(3) [OF recordingD [OF rec]] by (metis append_butlast_last_id)
  from write_ok [OF assms] obtain w1 where
    1: "write_frame f (r, w) = Inr (count_written f r, w1)"
      "written n (count_written f r, w1) (init @ [l @ [f]])" "env_same w w1"
      "w_steadys w1 = opened_at n init + length (l @ [f])"
    by (auto simp: parts)
  have "device_ok w1" using dev env_same_device [OF 1(3)] by simp
  from rotate_ok [OF 1(2) this] 1 show ?thesis
    by (auto simp: parts dest: env_same_trans)
qed

lemma write_frames_unfold:
  "write_frames (f # fs) st = bind_res (bind_res (write_frame f st) rotate_if_needed) (write_frames fs)"
  by (cases "write_frame f st") simp_all

lemma write_frames_ok:
  assumes "recording n (r, w) parts" and "\<forall>f \<in> set fs. valid_frame f" and "device_ok w"
  shows "\<exists>r' w' parts'. write_frames fs (r, w) = Inr (r', w') \<and> recording n (r', w') parts' \<and>
     concat parts' = concat parts @ fs \<and> env_same w w' \<and> rec_cfg r' = rec_cfg r \<and>
     rec_sync r' = rec_sync r"
  using assms
proof (induction fs arbitrary: r w parts)
  case Nil
  then show ?case by (auto simp: env_same_def)
next
  case (Cons f fs)
  then obtain r1 w1 parts1 where 1: "bind_res (write_frame f (r, w)) rotate_if_needed = Inr (r1, w1)"
      "recording n (r1, w1) parts1" "concat parts1 = concat parts @ [f]" "env_same w w1"
      "rec_cfg r1 = rec_cfg r" "rec_sync r1 = rec_sync r"
    using write_then_rotate [of n r w parts f] by auto
  with Cons.IH [OF 1(2)] Cons.prems env_same_device [OF 1(4)] obtain r2 w2 parts2 where
      "write_frames fs (r1, w1) = Inr (r2, w2)" "recording n (r2, w2) parts2"
      "concat parts2 = concat parts1 @ fs" "env_same w1 w2" "rec_cfg r2 = rec_cfg r1"
      "rec_sync r2 = rec_sync r1"
    by auto
  with 1 env_same_trans [OF 1(4)] show ?case
    unfolding write_frames_unfold by auto
qed

text \<open>Taking over the synchroniser's counters changes nothing else.\<close>

lemma take_sync_stats_recording:
  "recording n (r, w) parts \<Longrightarrow> recording n (take_sync_stats (r\<lparr>rec_sync := s\<rparr>), w) parts"
  by (simp add: recording_def written_def rec_rel_def rec_counts_def take_sync_stats_def Let_def)

lemma take_sync_stats_fields [simp]:
  "rec_sync (take_sync_stats r) = rec_sync r" "rec_cfg (take_sync_stats r) = rec_cfg r"
  "rec_fp (take_sync_stats r) = rec_fp r"
  by (simp_all add: take_sync_stats_def Let_def)

lemma feed_open_ok:
  assumes "recording n (r, w) parts" and "sync_inv (rec_sync r)" and "device_ok w"
  shows "\<exists>r' w' parts'. SbfRecorder_feed bytes (r, w) = Inr (r', w') \<and> recording n (r', w') parts' \<and>
     concat parts' = concat parts @ scan_frames (sync_pend (rec_sync r) @ bytes) \<and> env_same w w' \<and>
     rec_cfg r' = rec_cfg r \<and> sync_inv (rec_sync r') \<and>
     sync_pend (rec_sync r') = scan_rest (sync_pend (rec_sync r) @ bytes)"
proof -
  let ?fs = "scan_frames (sync_pend (rec_sync r) @ bytes)"
  obtain s where s: "SbfFrameSync_feed (rec_sync r) bytes [] = Inr (s, ?fs)" "sync_inv s"
      "sync_pend s = scan_rest (sync_pend (rec_sync r) @ bytes)"
    using sync.step_law [OF assms(2), of bytes] by (auto simp: sync_step_def)
  have "\<forall>f \<in> set ?fs. valid_frame f" using scan_frames_valid by blast
  from write_frames_ok [OF take_sync_stats_recording [OF assms(1)] this assms(3)] s assms(1) show ?thesis
    by (fastforce simp: SbfRecorder_feed_def recording_def written_def)
qed

lemma record_chunks_ok:
  assumes "recording n (r, w) parts" and "sync_inv (rec_sync r)" and "device_ok w"
  shows "\<exists>r' w' parts'. record_chunks cs (r, w) = Inr (r', w') \<and> recording n (r', w') parts' \<and>
     concat parts' = concat parts @ scan_frames (sync_pend (rec_sync r) @ concat cs) \<and>
     rec_cfg r' = rec_cfg r \<and> env_same w w'"
  using assms
proof (induction cs arbitrary: r w parts)
  case Nil
  then show ?case
    using scanner.parse_rest [of "sync_pend (rec_sync r)"] sync_pend_rest [of "rec_sync r"]
    by (auto simp: env_same_def)
next
  case (Cons c cs)
  let ?p = "sync_pend (rec_sync r)"
  from feed_open_ok [OF Cons.prems, of c] obtain r1 w1 parts1 where
    1: "SbfRecorder_feed c (r, w) = Inr (r1, w1)" "recording n (r1, w1) parts1"
      "concat parts1 = concat parts @ scan_frames (?p @ c)" "env_same w w1" "rec_cfg r1 = rec_cfg r"
      "sync_inv (rec_sync r1)" "sync_pend (rec_sync r1) = scan_rest (?p @ c)"
    by blast
  from Cons.IH [OF 1(2,6)] Cons.prems(3) env_same_device [OF 1(4)] obtain r2 w2 parts2 where
    2: "record_chunks cs (r1, w1) = Inr (r2, w2)" "recording n (r2, w2) parts2"
      "concat parts2 = concat parts1 @ scan_frames (scan_rest (?p @ c) @ concat cs)"
      "rec_cfg r2 = rec_cfg r1" "env_same w1 w2"
    using 1(7) by auto
  have "scan_frames (?p @ c @ concat cs) = scan_frames (?p @ c) @ scan_frames (scan_rest (?p @ c) @ concat cs)"
    using scanner.parse_append [of "?p @ c" "concat cs"] by simp
  with 1 2 env_same_trans [OF 1(4) 2(5)] show ?case
    by (intro exI [of _ r2] exI [of _ w2] exI [of _ parts2]) simp
qed

section \<open>Failures\<close>

text \<open>The exceptions that report the device; the others would be programming errors.\<close>

fun io_error :: "rec_error \<Rightarrow> bool" where
  "io_error (Cannot_open _) = True"
| "io_error Fwrite_header_failed = True"
| "io_error Fwrite_body_failed = True"
| "io_error _ = False"

text \<open>
  Every outcome records whole frames of \<open>fs\<close> after those of \<open>done\<close>; an exception may leave the
  start of the next frame behind them. Closing loses nothing.
\<close>

definition outcome_of :: "Frame list \<Rightarrow> rec_result \<Rightarrow> Frame list \<Rightarrow> SbfFrameSync \<Rightarrow> bool" where
  "outcome_of done res fs sync \<longleftrightarrow>
     (case res of
        Inr (r, w) \<Rightarrow> \<exists>parts. rec_rel (r, w) parts \<and> rec_fp r \<noteq> None \<and> concat parts = done @ fs \<and>
          rec_sync r = sync \<and> closes_ok w
      | Inl (e, (r, w)) \<Rightarrow> io_error e \<and> closes_ok w \<and> prefix (recorded w) (content (done @ fs)))"

lemma outcome_of_open:
  assumes "rec_rel (r, w) parts" and "closes_ok w"
  shows "outcome_of (concat parts) (open_new_file (r, w)) [] (rec_sync r)"
proof (cases "w_fopen_ok w (length (w_opened w))")
  case True
  from open_new_file_ok [OF assms(1) this assms(2)] assms(2) show ?thesis
    by (fastforce simp: outcome_of_def closes_ok_def intro: exI [of _ "parts @ [[]]"])
next
  case False
  from open_new_file_fail [OF assms(1) this assms(2)] obtain e r' w' where
    o: "open_new_file (r, w) = Inl (e, (r', w'))" "rec_rel (r', w') parts" "closes_ok w'" by blast
  then have "io_error e" using False
    by (auto simp: open_new_file_def fopen_wb_def steady_now_def Let_def split: if_splits option.splits)
  with o rec_rel_recorded [OF o(2)] show ?thesis by (simp add: outcome_of_def)
qed

lemma outcome_of_rotate:
  assumes "rec_rel (r, w) parts" and "rec_fp r \<noteq> None" and "closes_ok w"
  shows "outcome_of (concat parts) (rotate_if_needed (r, w)) [] (rec_sync r)"
proof -
  have "outcome_of (concat parts) (open_new_file (r, w')) [] (rec_sync r)"
    if "rec_rel (r, w') parts" "w_close_lost w' = w_close_lost w" for w'
    using that assms(3) by (intro outcome_of_open) (simp_all add: closes_ok_def)
  with rotate_cases [OF assms(1,2)] assms(2,3) show ?thesis
    by (auto simp: outcome_of_def closes_ok_def)
qed

lemma outcome_of_write:
  assumes "rec_rel (r, w) parts" and "rec_fp r = Some p" and "closes_ok w"
  shows "outcome_of (concat parts) (write_frame f (r, w)) [f] (rec_sync r)"
  using write_frame_cases [OF assms(1,2), of f]
proof (elim disjE exE conjE)
  fix w' assume w': "write_frame f (r, w) = Inr (count_written f r, w')" "appended w w' (wire f)"
  have "w_opened w \<noteq> []" using w'(2) by (simp add: appended_def)
  with assms(1) obtain init l where "parts = init @ [l]" by (metis rec_rel_snoc)
  then show ?thesis
    using appended_rel [OF assms(1) w'(2), of "count_written f r"] w'(1) assms(2,3) appended_closes [OF w'(2)]
    by (auto simp: outcome_of_def intro!: exI [of _ "init @ [l @ [f]]"])
next
  fix e w' k assume w': "write_frame f (r, w) = Inl (e, (r, w'))" "appended w w' (take k (wire f))"
  have "io_error e"
    using w'(1) assms(2) by (auto simp: write_frame_def Let_def split: prod.splits if_splits)
  with w'(1) recorded_appended_take [OF assms(1) w'(2), of "[]"] assms(3) appended_closes [OF w'(2)] show ?thesis
    by (simp add: outcome_of_def)
qed

lemma outcome_of_bind:
  assumes "outcome_of done res fs sync"
    and "\<And>r w parts. rec_rel (r, w) parts \<Longrightarrow> rec_fp r \<noteq> None \<Longrightarrow> rec_sync r = sync \<Longrightarrow>
      concat parts = done @ fs \<Longrightarrow> closes_ok w \<Longrightarrow> outcome_of (done @ fs) (k (r, w)) gs sync'"
  shows "outcome_of done (bind_res res k) (fs @ gs) sync'"
proof (cases res)
  case (Inl a)
  with assms(1) show ?thesis
    by (cases a) (auto simp: outcome_of_def intro: prefix_order.trans)
next
  case (Inr b)
  obtain r w where "b = (r, w)" by fastforce
  with Inr assms(1) obtain parts where
    "rec_rel (r, w) parts" "rec_fp r \<noteq> None" "rec_sync r = sync" "concat parts = done @ fs" "closes_ok w"
    by (auto simp: outcome_of_def)
  from assms(2) [OF this] Inr \<open>b = (r, w)\<close> show ?thesis
    by (auto simp: outcome_of_def split: sum.splits)
qed

lemma outcome_of_append: "outcome_of (done @ fs) res gs s \<Longrightarrow> outcome_of done res (fs @ gs) s"
  by (auto simp: outcome_of_def split: sum.splits)

lemma outcome_of_write_frames:
  assumes "rec_rel (r, w) parts" and "rec_fp r \<noteq> None" and "closes_ok w"
  shows "outcome_of (concat parts) (write_frames fs (r, w)) fs (rec_sync r)"
  using assms
proof (induction fs arbitrary: r w parts)
  case Nil
  then show ?case by (auto simp: outcome_of_def)
next
  case (Cons f fs)
  obtain p where "rec_fp r = Some p" using Cons.prems(2) by blast
  from outcome_of_write [OF Cons.prems(1) this Cons.prems(3)]
  have "outcome_of (concat parts) (bind_res (write_frame f (r, w)) rotate_if_needed) ([f] @ []) (rec_sync r)"
    by (rule outcome_of_bind) (auto dest: outcome_of_rotate)
  then have "outcome_of (concat parts)
      (bind_res (bind_res (write_frame f (r, w)) rotate_if_needed) (write_frames fs)) (([f] @ []) @ fs) (rec_sync r)"
    by (rule outcome_of_bind) (use Cons.IH in \<open>fastforce+\<close>)
  then show ?case by (simp only: write_frames_unfold append_Nil2 append_Cons append_Nil)
qed

lemma outcome_of_feed:
  assumes "rec_rel (r, w) parts" and "sync_inv (rec_sync r)" and "closes_ok w"
  shows "\<exists>s. outcome_of (concat parts) (SbfRecorder_feed bytes (r, w))
       (scan_frames (sync_pend (rec_sync r) @ bytes)) s \<and>
     sync_inv s \<and> sync_pend s = scan_rest (sync_pend (rec_sync r) @ bytes)"
proof -
  let ?fs = "scan_frames (sync_pend (rec_sync r) @ bytes)"
  let ?k = "\<lambda>(r, w). case SbfFrameSync_feed (rec_sync r) bytes [] of
       Inl e \<Rightarrow> Inl (Sync_fault e, (r, w))
     | Inr (s, fs) \<Rightarrow> write_frames fs (take_sync_stats (r\<lparr>rec_sync := s\<rparr>), w)"
  obtain s where s: "SbfFrameSync_feed (rec_sync r) bytes [] = Inr (s, ?fs)" "sync_inv s"
      "sync_pend s = scan_rest (sync_pend (rec_sync r) @ bytes)"
    using sync.step_law [OF assms(2), of bytes] by (auto simp: sync_step_def)
  have first: "outcome_of (concat parts) (if rec_fp r = None then open_new_file (r, w) else Inr (r, w)) [] (rec_sync r)"
    using outcome_of_open [OF assms(1,3)] assms(1,3) by (auto simp: outcome_of_def)
  have "outcome_of (concat parts) (?k (r', w')) ?fs s"
    if "rec_rel (r', w') parts'" "rec_fp r' \<noteq> None" "rec_sync r' = rec_sync r"
      "concat parts' = concat parts" "closes_ok w'" for r' w' parts'
  proof -
    have "rec_rel (take_sync_stats (r'\<lparr>rec_sync := s\<rparr>), w') parts'"
      using that(1) by (simp add: rec_rel_def take_sync_stats_def Let_def)
    from outcome_of_write_frames [OF this _ that(5), of ?fs] that s show ?thesis by simp
  qed
  then have "outcome_of (concat parts)
      (bind_res (if rec_fp r = None then open_new_file (r, w) else Inr (r, w)) ?k) ([] @ ?fs) s"
    by (intro outcome_of_bind [OF first]) simp
  then have "outcome_of (concat parts) (SbfRecorder_feed bytes (r, w)) ?fs s"
    unfolding SbfRecorder_feed_def fst_conv append_Nil .
  with s show ?thesis by blast
qed

lemma outcome_of_record_chunks:
  assumes "rec_rel (r, w) parts" and "sync_inv (rec_sync r)" and "rec_fp r \<noteq> None \<or> cs \<noteq> []" and "closes_ok w"
  shows "\<exists>s. outcome_of (concat parts) (record_chunks cs (r, w))
     (scan_frames (sync_pend (rec_sync r) @ concat cs)) s"
  using assms
proof (induction cs arbitrary: r w parts)
  case Nil
  then show ?case
    using scanner.parse_rest [of "sync_pend (rec_sync r)"] sync_pend_rest [of "rec_sync r"]
    by (auto simp: outcome_of_def)
next
  case (Cons c cs)
  let ?p = "sync_pend (rec_sync r)"
  obtain s where s: "outcome_of (concat parts) (SbfRecorder_feed c (r, w)) (scan_frames (?p @ c)) s"
      "sync_inv s" "sync_pend s = scan_rest (?p @ c)"
    using outcome_of_feed [OF Cons.prems(1,2,4)] by blast
  have split: "scan_frames (?p @ c @ concat cs) =
      scan_frames (?p @ c) @ scan_frames (scan_rest (?p @ c) @ concat cs)"
    using scanner.parse_append [of "?p @ c" "concat cs"] by simp
  show ?case
  proof (cases "SbfRecorder_feed c (r, w)")
    case (Inl a)
    with s(1) show ?thesis
      by (cases a) (auto simp: outcome_of_def split intro: prefix_order.trans)
  next
    case (Inr b)
    obtain r1 w1 where b: "b = (r1, w1)" by fastforce
    with Inr s(1) obtain parts1 where 1: "rec_rel (r1, w1) parts1" "rec_fp r1 \<noteq> None"
      "concat parts1 = concat parts @ scan_frames (?p @ c)" "rec_sync r1 = s" "closes_ok w1"
      by (auto simp: outcome_of_def)
    with Cons.IH [OF 1(1)] s(2,3) obtain s' where
      "outcome_of (concat parts1) (record_chunks cs (r1, w1)) (scan_frames (scan_rest (?p @ c) @ concat cs)) s'"
      by auto
    then have "outcome_of (concat parts) (record_chunks cs (r1, w1)) (scan_frames (?p @ c @ concat cs)) s'"
      using outcome_of_append 1(3) split by simp
    with Inr b show ?thesis by auto
  qed
qed

section \<open>The error counters of the recorder\<close>

definition mirrors :: "SbfRecorder \<Rightarrow> bool" where
  "mirrors r \<longleftrightarrow>
     (let fs = sync_stats (rec_sync r); st = rec_stats r in
      rec_crc_failed st = crc_failed fs \<and> rec_length_invalid st = length_invalid fs \<and>
      rec_resyncs st = resyncs fs \<and>
      prev_crc_failed r = crc_failed fs \<and> prev_length_invalid r = length_invalid fs \<and>
      prev_resyncs r = resyncs fs)"

lemma mirrors_take: "mirrors r \<Longrightarrow> mirrors (take_sync_stats (r\<lparr>rec_sync := s\<rparr>))"
  by (simp add: mirrors_def take_sync_stats_def Let_def)

lemma mirrors_open: "open_new_file (r, w) = Inr (r', w') \<Longrightarrow> mirrors r' = mirrors r"
  by (auto simp: open_new_file_def mirrors_def Let_def split: prod.splits if_splits option.splits)

lemma mirrors_rotate: "rotate_if_needed (r, w) = Inr (r', w') \<Longrightarrow> mirrors r' = mirrors r"
  by (auto simp: rotate_if_needed_def Let_def mirrors_open split: prod.splits if_splits)

lemma mirrors_write: "write_frame f (r, w) = Inr (r', w') \<Longrightarrow> mirrors r' = mirrors r"
  by (auto simp: write_frame_def count_written_def mirrors_def Let_def
      split: prod.splits if_splits option.splits)

lemma mirrors_write_frames: "write_frames fs (r, w) = Inr (r', w') \<Longrightarrow> mirrors r' = mirrors r"
proof (induction fs arbitrary: r w)
  case (Cons f fs)
  then obtain r1 w1 r2 w2 where "write_frame f (r, w) = Inr (r1, w1)"
      "rotate_if_needed (r1, w1) = Inr (r2, w2)" "write_frames fs (r2, w2) = Inr (r', w')"
    by (auto simp: bind_res_eq_Inr)
  then show ?case using Cons.IH mirrors_write mirrors_rotate by metis
qed simp

lemma mirrors_feed:
  assumes "SbfRecorder_feed bs (r, w) = Inr (r', w')" and "mirrors r"
  shows "mirrors r'"
proof -
  obtain r1 w1 where 1: "(if rec_fp r = None then open_new_file (r, w) else Inr (r, w)) = Inr (r1, w1)"
      "(case SbfFrameSync_feed (rec_sync r1) bs [] of
          Inl e \<Rightarrow> Inl (Sync_fault e, (r1, w1))
        | Inr (s, fs) \<Rightarrow> write_frames fs (take_sync_stats (r1\<lparr>rec_sync := s\<rparr>), w1)) = Inr (r', w')"
    using assms(1) by (force simp: SbfRecorder_feed_def bind_res_eq_Inr)
  then obtain s fs where "write_frames fs (take_sync_stats (r1\<lparr>rec_sync := s\<rparr>), w1) = Inr (r', w')"
    by (auto split: sum.split_asm prod.split_asm)
  moreover from 1(1) have "mirrors r1" using assms(2) mirrors_open by (auto split: if_splits)
  ultimately show ?thesis using mirrors_take mirrors_write_frames by blast
qed

lemma mirrors_record_chunks:
  "record_chunks cs (r, w) = Inr (r', w') \<Longrightarrow> mirrors r \<Longrightarrow> mirrors r'"
proof (induction cs arbitrary: r w)
  case (Cons c cs)
  then obtain r1 w1 where "SbfRecorder_feed c (r, w) = Inr (r1, w1)" "record_chunks cs (r1, w1) = Inr (r', w')"
    by (auto simp: bind_res_eq_Inr)
  with Cons mirrors_feed show ?case by blast
qed simp

section \<open>A recording from its start\<close>

lemma ctor_ok:
  assumes "SbfRecorder_ctor cfg w = Inr (r, w')" and "w_opened w = []"
  shows "w' = w" and "rec_rel (r, w) []" and "rec_cfg r = cfg" and "rec_sync r = SbfFrameSync_init"
    and "rec_fp r = None" and "mirrors r"
    and "bytes_written (rec_stats r) = 0" "frames_written (rec_stats r) = 0" "files_rotated (rec_stats r) = 0"
  using assms
  by (auto simp: SbfRecorder_ctor_def rec_rel_def mirrors_def SbfFrameSync_init_def split: if_splits)

text \<open>The first call of \<open>feed\<close> opens the first file and then acts as on an open one.\<close>

lemma first_feed:
  assumes rel: "rec_rel (r, w) []" and fp: "rec_fp r = None" and dev: "device_ok w"
    and zero: "bytes_written (rec_stats r) = 0" "frames_written (rec_stats r) = 0" "files_rotated (rec_stats r) = 0"
    and wrap: "unat (cfg_rotate_bytes (rec_cfg r)) + 8188 < 2 ^ 64"
  shows "\<exists>r1 w1. recording (w_steadys w) (r1, w1) [[]] \<and> rec_sync r1 = rec_sync r \<and> rec_cfg r1 = rec_cfg r \<and>
     env_same w w1 \<and> (\<forall>cs. cs \<noteq> [] \<longrightarrow> record_chunks cs (r, w) = record_chunks cs (r1, w1))"
proof -
  have "w_fopen_ok w (length (w_opened w))" "closes_ok w" using dev by (simp_all add: device_ok_def)
  from open_new_file_ok [OF rel this] fp obtain r1 w1 where
    o: "open_new_file (r, w) = Inr (r1, w1)" "rec_rel (r1, w1) [[]]" "rec_fp r1 \<noteq> None" "current_size r1 = 0"
      "file_start r1 = w_steady w (w_steadys w)" "w_steadys w1 = Suc (w_steadys w)" "rec_cfg r1 = rec_cfg r" "rec_sync r1 = rec_sync r"
      "rec_stats r1 = rec_stats r" "env_same w w1"
    by (auto simp: env_same_def)
  then have "recording (w_steadys w) (r1, w1) [[]]"
    using zero wrap by (auto simp: recording_def written_def rec_counts_def sizes_ok_def closed_files_def
        kept_open_def opened_at_def env_same_def)
  moreover have "SbfRecorder_feed c (r, w) = SbfRecorder_feed c (r1, w1)" for c
    using o(1,3) fp by (auto simp: SbfRecorder_feed_def)
  then have "record_chunks cs (r, w) = record_chunks cs (r1, w1)" if "cs \<noteq> []" for cs
    using that by (cases cs) simp_all
  ultimately show ?thesis using o by blast
qed

lemma record_from_start:
  assumes ctor: "SbfRecorder_ctor cfg w = Inr st" and new: "w_opened w = []" and dev: "device_ok w"
    and wrap: "unat (cfg_rotate_bytes cfg) + 8188 < 2 ^ 64" and cs: "cs \<noteq> []"
  shows "\<exists>r' w' parts. record_chunks cs st = Inr (r', w') \<and> recording (w_steadys w) (r', w') parts \<and>
     concat parts = scan_frames (concat cs) \<and> rec_cfg r' = cfg \<and> env_same w w' \<and> mirrors r'"
proof -
  obtain r w0 where st: "st = (r, w0)" by fastforce
  note c = ctor_ok [OF ctor [unfolded st] new]
  from first_feed [OF c(2,5) dev c(7-9)] c wrap cs obtain r1 w1 where
    1: "recording (w_steadys w) (r1, w1) [[]]" "rec_sync r1 = SbfFrameSync_init" "rec_cfg r1 = cfg" "env_same w w1"
      "record_chunks cs st = record_chunks cs (r1, w1)"
    by (auto simp: st)
  have pend: "sync_pend SbfFrameSync_init = []" using run_init [of "[]"] by auto
  have inv: "sync_inv (rec_sync r1)" using 1(2) by (simp add: sync_inv_init)
  have dev1: "device_ok w1" using dev env_same_device [OF 1(4)] by simp
  obtain r2 w2 parts where 2: "record_chunks cs (r1, w1) = Inr (r2, w2)" "recording (w_steadys w) (r2, w2) parts"
      "concat parts = scan_frames (concat cs)" "rec_cfg r2 = cfg" "env_same w1 w2"
    using record_chunks_ok [OF 1(1) inv dev1, of cs] 1(2,3) pend by auto
  moreover have "mirrors r2"
    using mirrors_record_chunks [of cs r w r2 w2] 2(1) 1(5) c by (simp add: st)
  moreover have "env_same w w2" using 1(4) 2(5) by (rule env_same_trans)
  ultimately show ?thesis using 1(5) by auto
qed

section \<open>Properties\<close>

text \<open>
  C4: on a device that takes every write (with at least one chunk received and \<open>rotate_bytes\<close> at least 8188 below
  \<open>2 ^ 64\<close>), recording never fails, and what is on disk is what was
  received: no two files have the same path, every file holds whole frames, and the frames of the
  files in the order of opening are exactly the frames the synchroniser finds in the stream,
  whatever the chunks and the rotations.
\<close>

theorem recording_is_complete:
  assumes "SbfRecorder_ctor cfg w = Inr st" and "w_opened w = []" and "device_ok w"
    and "unat (cfg_rotate_bytes cfg) + 8188 < 2 ^ 64" and "cs \<noteq> []"
  shows "\<exists>r' w' parts. record_chunks cs st = Inr (r', w') \<and>
     map (w_disk w') (w_opened w') = map (\<lambda>fs. Some (content fs)) parts \<and>
     distinct (w_opened w') \<and> concat parts = scan_frames (concat cs)"
proof -
  obtain r' w' parts where *: "record_chunks cs st = Inr (r', w')" "recording (w_steadys w) (r', w') parts"
      "concat parts = scan_frames (concat cs)"
    using record_from_start [OF assms] by blast
  from writtenD(1) [OF recordingD [OF *(2)]] * show ?thesis by (auto simp: rec_rel_def)
qed

definition ex_cfg :: RecorderConfig where
  "ex_cfg = \<lparr>cfg_output_dir = ''out'', cfg_file_prefix = ''asterx'', cfg_rotate_bytes = 16,
     cfg_rotate_interval = 3600\<rparr>"

definition ex_world :: disk_world where
  "ex_world = \<lparr>w_disk = Map.empty, w_opened = [], w_mkdir_ok = True, w_fopen_ok = (\<lambda>n. True),
     w_fwrite_cap = (\<lambda>n. 8188), w_fwrites = 0, w_close_lost = (\<lambda>n. 0), w_closes = 0, w_utc = (\<lambda>n. 0), w_steady = (\<lambda>n. int n), w_steadys = 0\<rparr>"

definition ex_stream :: "byte list list" where
  "ex_stream = [0xAB # wire ex_frame, wire ex_frame @ wire ex_frame]"

lemma ex_setup:
  "\<exists>st. SbfRecorder_ctor ex_cfg ex_world = Inr st" "w_opened ex_world = []" "device_ok ex_world"
  "unat (cfg_rotate_bytes ex_cfg) + 8188 < 2 ^ 64" "ex_stream \<noteq> []"
  by (simp_all add: SbfRecorder_ctor_def ex_world_def ex_cfg_def device_ok_def closes_ok_def ex_stream_def)

lemma scan_ex_stream: "scan_frames (concat ex_stream) = [ex_frame, ex_frame, ex_frame]"
  using scan_wires [of "[ex_frame, ex_frame, ex_frame]" "[]"] scan_junk [of "[0xAB]"] valid_ex_frame
  by (simp add: ex_stream_def)

theorem recording_is_complete_witness:
  "\<exists>st r' w' parts. SbfRecorder_ctor ex_cfg ex_world = Inr st \<and> record_chunks ex_stream st = Inr (r', w') \<and>
     map (w_disk w') (w_opened w') = map (\<lambda>fs. Some (content fs)) parts \<and>
     distinct (w_opened w') \<and> concat parts = [ex_frame, ex_frame, ex_frame]"
  using recording_is_complete [OF _ ex_setup(2-5)] ex_setup(1) by (auto simp: scan_ex_stream)

lemma left_when_dueD:
  assumes "left_when_due cfg clock k p" and "0 < j" and "j \<le> length p"
  shows "rotation_due cfg clock k (take j p) \<longleftrightarrow> j = length p"
  using assms by (cases "j = length p") (auto simp: left_when_due_def kept_open_def)

lemma recording_rotates:
  assumes "recording n (r, w) parts" and "i < length parts" and "0 < j" and "j \<le> length (parts ! i)"
  shows "rotation_due (rec_cfg r) (w_steady w) (opened_at n (take i parts)) (take j (parts ! i)) \<longleftrightarrow>
     j = length (parts ! i) \<and> Suc i < length parts"
proof -
  note D = writtenD [OF recordingD [OF assms(1)]] and R = recording_last [OF assms(1)]
  obtain init l where parts: "parts = init @ [l]" using D(3) by (metis append_butlast_last_id)
  show ?thesis
  proof (cases "i < length init")
    case True
    then have "left_when_due (rec_cfg r) (w_steady w) (opened_at n (take i init)) (init ! i)"
      using D(6) by (simp add: parts closed_files_def)
    with left_when_dueD True assms(3,4) show ?thesis by (simp add: parts nth_append)
  next
    case False
    then have "i = length init" using assms(2) by (simp add: parts)
    with R(1) assms(3,4) show ?thesis by (simp add: parts kept_open_def)
  qed
qed

text \<open>
  C18: files rotate exactly when they should. On a device that opens every file, takes every write and loses nothing
  when a file is closed, with at least one chunk received and \<open>rotate_bytes\<close> at least 8188 below \<open>2 ^ 64\<close>, the
  recording succeeds and the frames of the stream are split over the files like this: after each frame, the check finds
  that the file has \<open>rotate_bytes\<close> bytes or more, or that the clock now is \<open>rotate_interval\<close> or more after the reading
  at which this very file was opened, if and only if that frame is the last of its file and another file follows; every
  file but the last has a frame; and no file grows by more than one frame past \<open>rotate_bytes\<close> (a single frame is
  written whatever the limit).
\<close>

theorem rotation_bounds_files:
  assumes "SbfRecorder_ctor cfg w = Inr st" and "w_opened w = []" and "device_ok w"
    and "unat (cfg_rotate_bytes cfg) + 8188 < 2 ^ 64" and "cs \<noteq> []"
  shows "\<exists>r' w' parts. record_chunks cs st = Inr (r', w') \<and>
     map (w_disk w') (w_opened w') = map (\<lambda>fs. Some (content fs)) parts \<and> concat parts = scan_frames (concat cs) \<and>
     (\<forall>i < length parts. \<forall>j. 0 < j \<and> j \<le> length (parts ! i) \<longrightarrow>
        (rotation_due cfg (w_steady w) (opened_at (w_steadys w) (take i parts)) (take j (parts ! i)) \<longleftrightarrow>
         j = length (parts ! i) \<and> Suc i < length parts)) \<and>
     [] \<notin> set (butlast parts) \<and>
     (\<forall>p \<in> set parts. length (content p) < max 8189 (unat (cfg_rotate_bytes cfg) + 8188))"
proof -
  obtain r' w' parts where *: "record_chunks cs st = Inr (r', w')" "recording (w_steadys w) (r', w') parts"
      "concat parts = scan_frames (concat cs)" "rec_cfg r' = cfg" "w_steady w' = w_steady w"
    using record_from_start [OF assms] by (auto simp: env_same_def)
  note D = writtenD [OF recordingD [OF *(2)]]
  have "map (w_disk w') (w_opened w') = map (\<lambda>fs. Some (content fs)) parts"
    using D(1) by (simp add: rec_rel_def)
  moreover have "[] \<notin> set (butlast parts)"
    using D(6) by (auto simp: closed_files_def left_when_due_def in_set_conv_nth)
  moreover have "\<forall>p \<in> set parts. length (content p) < max 8189 (unat (cfg_rotate_bytes cfg) + 8188)"
    using D(5) *(4) unfolding sizes_ok_def by (fastforce simp: less_max_iff_disj)
  ultimately show ?thesis
    using *(1,3) recording_rotates [OF *(2)] *(4,5) by (intro exI [of _ r'] exI [of _ w'] exI [of _ parts]) simp
qed

theorem rotation_bounds_files_witness:
  "\<exists>st r' w' parts. SbfRecorder_ctor ex_cfg ex_world = Inr st \<and> record_chunks ex_stream st = Inr (r', w') \<and>
     concat parts = [ex_frame, ex_frame, ex_frame] \<and>
     (\<forall>i < length parts. \<forall>j. 0 < j \<and> j \<le> length (parts ! i) \<longrightarrow>
        (rotation_due ex_cfg int (opened_at 0 (take i parts)) (take j (parts ! i)) \<longleftrightarrow>
         j = length (parts ! i) \<and> Suc i < length parts)) \<and> [] \<notin> set (butlast parts)"
proof -
  have "w_steady ex_world = int" "w_steadys ex_world = 0" by (simp_all add: ex_world_def fun_eq_iff)
  with rotation_bounds_files [OF _ ex_setup(2-5)] ex_setup(1) show ?thesis unfolding scan_ex_stream by metis
qed

text \<open>
  C19: the statistics of a recording without failures tell the truth. On a device that opens every file, takes every
  write and loses nothing when a file is closed, with at least one chunk received and \<open>rotate_bytes\<close> at least 8188 below
  \<open>2 ^ 64\<close>: the bytes and frames written are those on disk (modulo \<open>2 ^ 64\<close>), \<open>files_rotated\<close> is one less than the
  number of files, and the error counters are the synchroniser's own.
\<close>

theorem recorder_statistics:
  assumes "SbfRecorder_ctor cfg w = Inr st" and "w_opened w = []" and "device_ok w"
    and "unat (cfg_rotate_bytes cfg) + 8188 < 2 ^ 64" and "cs \<noteq> []"
  shows "\<exists>r' w'. record_chunks cs st = Inr (r', w') \<and>
     rec_stats r' =
       \<lparr>bytes_written = of_nat (length (recorded w')),
        frames_written = of_nat (length (scan_frames (concat cs))),
        files_rotated = of_nat (length (w_opened w') - 1),
        rec_crc_failed = crc_failed (sync_stats (rec_sync r')),
        rec_length_invalid = length_invalid (sync_stats (rec_sync r')),
        rec_resyncs = resyncs (sync_stats (rec_sync r'))\<rparr>"
proof -
  obtain r' w' parts where *: "record_chunks cs st = Inr (r', w')" "recording (w_steadys w) (r', w') parts"
      "concat parts = scan_frames (concat cs)" "mirrors r'"
    using record_from_start [OF assms] by blast
  note D = writtenD [OF recordingD [OF *(2)]]
  have "rec_counts r' parts" "length (w_opened w') = length parts" "recorded w' = content (concat parts)"
    using D(4) rec_rel_length [OF D(1)] rec_rel_recorded [OF D(1)] by simp_all
  with * show ?thesis
    by (cases "rec_stats r'") (simp add: rec_counts_def mirrors_def Let_def)
qed

theorem recorder_statistics_witness:
  "\<exists>st r' w'. SbfRecorder_ctor ex_cfg ex_world = Inr st \<and> record_chunks ex_stream st = Inr (r', w') \<and>
     frames_written (rec_stats r') = 3 \<and> files_rotated (rec_stats r') = of_nat (length (w_opened w') - 1)"
  using recorder_statistics [OF _ ex_setup(2-5)] ex_setup(1) by (force simp: scan_ex_stream)

text \<open>
  Whatever \<open>fopen\<close> and \<open>fwrite\<close> refuse, and whenever, the bytes recorded so far are a prefix of the
  frames received, file after file: as long as closing loses nothing, a failure can cut the recording short, in the
  middle of a frame, but never leaves a gap or puts frames out of order. The exceptions are those of \<open>fopen\<close> and
  \<open>fwrite\<close>; a write through a null file and a fault of the synchroniser cannot occur.
\<close>

theorem failed_recording_is_prefix:
  assumes "SbfRecorder_ctor cfg w = Inr st" and "w_opened w = []" and "closes_ok w"
  shows "case record_chunks cs st of
      Inr (r', w') \<Rightarrow> closes_ok w' \<and> recorded w' = content (scan_frames (concat cs))
    | Inl (e, (r', w')) \<Rightarrow> io_error e \<and> closes_ok w' \<and> prefix (recorded w') (content (scan_frames (concat cs)))"
proof -
  obtain r w0 where st: "st = (r, w0)" by fastforce
  note c = ctor_ok [OF assms(1) [unfolded st] assms(2)]
  have pend: "sync_pend SbfFrameSync_init = []" using run_init [of "[]"] by auto
  show ?thesis
  proof (cases "cs = []")
    case True
    then show ?thesis using assms(2,3) c(1) by (simp add: st recorded_def scan.simps)
  next
    case False
    with outcome_of_record_chunks [OF c(2), of cs] c(1,4) assms(3) pend obtain s where
      "outcome_of [] (record_chunks cs st) (scan_frames (concat cs)) s"
      by (auto simp: st sync_inv_init)
    then show ?thesis
      by (auto simp: outcome_of_def rec_rel_recorded split: sum.splits)
  qed
qed

definition ex_full :: disk_world where
  "ex_full = ex_world\<lparr>w_fwrite_cap := (\<lambda>n. if n = 0 then 8 else 3)\<rparr>"

theorem failed_recording_is_prefix_witness:
  "\<exists>st. SbfRecorder_ctor ex_cfg ex_full = Inr st \<and>
     (case record_chunks ex_stream st of
        Inr (r', w') \<Rightarrow> closes_ok w' \<and> recorded w' = content (scan_frames (concat ex_stream))
      | Inl (e, (r', w')) \<Rightarrow> io_error e \<and> closes_ok w' \<and> prefix (recorded w') (content (scan_frames (concat ex_stream))))"
proof -
  have "w_opened ex_full = []" "closes_ok ex_full" by (simp_all add: ex_full_def ex_world_def closes_ok_def)
  moreover have "\<exists>st. SbfRecorder_ctor ex_cfg ex_full = Inr st"
    by (simp add: SbfRecorder_ctor_def ex_full_def ex_world_def)
  ultimately show ?thesis using failed_recording_is_prefix by blast
qed

end
