(* ===== verification/TcpClient.thy ===== *)
theory TcpClient
  imports CppString "HOL-Library.Sublist"
begin

text \<open>
  The blocking socket, src/src/tcp_client.hpp and tcp_client.cpp. The operating system is a script:
  the results it will give to \<open>send\<close>, \<open>poll\<close> and \<open>recv\<close>, in order, the addresses a name resolves to
  with what happens on each, and the readings of the steady clock. A call that finds its script
  empty is one that never returns; such a run has the outcome \<open>Blocked\<close>. The state after an exception
  is kept, because callers catch exceptions.
\<close>

section \<open>The code: data\<close>

abbreviation (input) EINTR :: int where "EINTR \<equiv> 4"
abbreviation (input) EWOULDBLOCK :: int where "EWOULDBLOCK \<equiv> 11"
abbreviation (input) ETIMEDOUT :: int where "ETIMEDOUT \<equiv> 110"
abbreviation (input) EINPROGRESS :: int where "EINPROGRESS \<equiv> 115"

text \<open>Every message of a \<open>TcpError\<close>, as a constructor with the parts of the message.\<close>

datatype TcpError =
    Already_open
  | Gai_failed string u16 int
  | Fcntl_getfl_failed int
  | Fcntl_setfl_failed int
  | Connect_failed string u16 int
  | Write_not_open
  | Send_failed int
  | Send_zero
  | Read_not_open
  | Poll_failed int
  | Read_timeout int
  | Recv_failed int
  | Exact_timeout
  | Exact_closed
  | Until_max nat
  | Until_timeout string
  | Until_closed

datatype send_res = Sent nat | Send_err int
datatype poll_res = Poll_ready | Poll_timeout | Poll_err int
datatype recv_res = Received "byte list" | Recv_err int
datatype fcntl_res = Fcntl_ok | Getfl_err int | Setfl_err int

text \<open>What happens on one address of \<open>getaddrinfo\<close>'s list.\<close>

record attempt =
  at_socket :: "int + nat" \<comment> \<open>\<open>socket\<close>: errno or descriptor\<close>
  at_nonblock :: fcntl_res
  at_connect :: "int option" \<comment> \<open>\<open>connect\<close>: success or errno\<close>
  at_poll :: poll_res
  at_sockopt :: "int + int" \<comment> \<open>\<open>getsockopt\<close>: errno or the socket's pending error\<close>
  at_block :: fcntl_res

record net =
  fd :: int \<comment> \<open>\<open>fd_\<close>\<close>
  open_fds :: "int list" \<comment> \<open>descriptors of this object that the process holds\<close>
  resolve :: "string \<Rightarrow> u16 \<Rightarrow> int + attempt list"
  sends :: "send_res list"
  polls :: "poll_res list"
  recvs :: "recv_res list"
  sent :: "byte list" \<comment> \<open>all bytes the socket took\<close>
  clock :: "nat \<Rightarrow> int" \<comment> \<open>nanoseconds\<close>
  clock_reads :: nat

datatype ('e, 'a) io = Done 'a | Throw 'e | Blocked

type_synonym ('e, 'a) act = "net \<Rightarrow> ('e, 'a) io \<times> net"

definition bind_io :: "('e, 'a) io \<times> 'w \<Rightarrow> ('a \<Rightarrow> 'w \<Rightarrow> ('e, 'b) io \<times> 'w) \<Rightarrow> ('e, 'b) io \<times> 'w" where
  "bind_io x k =
     (case x of
        (Done a, w) \<Rightarrow> k a w
      | (Throw e, w) \<Rightarrow> (Throw e, w)
      | (Blocked, w) \<Rightarrow> (Blocked, w))"

section \<open>The code: operations\<close>

definition TcpClient_close :: "net \<Rightarrow> net" where
  "TcpClient_close n =
     (if 0 \<le> fd n then n\<lparr>open_fds := remove1 (fd n) (open_fds n), fd := -1\<rparr> else n)"

definition set_nonblocking :: "fcntl_res \<Rightarrow> TcpError option" where
  "set_nonblocking r =
     (case r of Fcntl_ok \<Rightarrow> None | Getfl_err e \<Rightarrow> Some (Fcntl_getfl_failed e)
      | Setfl_err e \<Rightarrow> Some (Fcntl_setfl_failed e))"

text \<open>The end of a successful attempt: back to blocking mode, then the socket is the object's.\<close>

definition adopt :: "nat \<Rightarrow> attempt \<Rightarrow> (TcpError, unit) act" where
  "adopt s a n =
     (case set_nonblocking (at_block a) of
        Some e \<Rightarrow> (Throw e, n)
      | None \<Rightarrow> (Done (), n\<lparr>fd := int s\<rparr>))"

definition close_fd :: "nat \<Rightarrow> net \<Rightarrow> net" where
  "close_fd s n = n\<lparr>open_fds := remove1 (int s) (open_fds n)\<rparr>"

fun connect_loop :: "string \<Rightarrow> u16 \<Rightarrow> int \<Rightarrow> attempt list \<Rightarrow> (TcpError, unit) act" where
  "connect_loop host port last_err [] n = (Throw (Connect_failed host port last_err), n)"
| "connect_loop host port last_err (a # as) n =
     (case at_socket a of
        Inl e \<Rightarrow> connect_loop host port e as n
      | Inr s \<Rightarrow>
          (let n1 = n\<lparr>open_fds := int s # open_fds n\<rparr> in
           case set_nonblocking (at_nonblock a) of
             Some e \<Rightarrow> (Throw e, n1)
           | None \<Rightarrow>
               (case at_connect a of
                  None \<Rightarrow> adopt s a n1
                | Some e \<Rightarrow>
                    if e \<noteq> EINPROGRESS \<and> e \<noteq> EWOULDBLOCK
                    then connect_loop host port e as (close_fd s n1)
                    else
                      (case at_poll a of
                         Poll_timeout \<Rightarrow> connect_loop host port ETIMEDOUT as (close_fd s n1)
                       | Poll_err pe \<Rightarrow> connect_loop host port pe as (close_fd s n1)
                       | Poll_ready \<Rightarrow>
                           (case at_sockopt a of
                              Inl oe \<Rightarrow> connect_loop host port oe as (close_fd s n1)
                            | Inr so_err \<Rightarrow>
                                if so_err \<noteq> 0 then connect_loop host port so_err as (close_fd s n1)
                                else adopt s a n1)))))"

definition TcpClient_connect :: "string \<Rightarrow> u16 \<Rightarrow> (TcpError, unit) act" where
  "TcpClient_connect host port n =
     (if 0 \<le> fd n then (Throw Already_open, n)
      else case resolve n host port of
        Inl gai \<Rightarrow> (Throw (Gai_failed host port gai), n)
      | Inr as \<Rightarrow> connect_loop host port 0 as n)"

function send_loop :: "byte list \<Rightarrow> (TcpError, unit) act" where
  "send_loop p n =
     (if p = [] then (Done (), n)
      else case sends n of
        [] \<Rightarrow> (Blocked, n)
      | Send_err e # rest \<Rightarrow>
          if e = EINTR then send_loop p (n\<lparr>sends := rest\<rparr>)
          else (Throw (Send_failed e), n\<lparr>sends := rest\<rparr>)
      | Sent k # rest \<Rightarrow>
          let m = min k (length p) in
          if m = 0 then (Throw Send_zero, n\<lparr>sends := rest\<rparr>)
          else send_loop (drop m p) (n\<lparr>sends := rest, sent := sent n @ take m p\<rparr>))"
  by pat_completeness auto
termination
  by (relation "measure (\<lambda>(p, n). length (sends n))") auto

declare send_loop.simps [simp del]

definition write_all :: "byte list \<Rightarrow> (TcpError, unit) act" where
  "write_all buf n = (if fd n < 0 then (Throw Write_not_open, n) else send_loop buf n)"

text \<open>\<open>recv\<close> into a buffer of \<open>cap\<close> bytes: what does not fit stays in the stream.\<close>

definition recv_os :: "nat \<Rightarrow> (TcpError, byte list) act" where
  "recv_os cap n =
     (case recvs n of
        [] \<Rightarrow> (Blocked, n)
      | Recv_err e # rest \<Rightarrow>
          (if e = EINTR then Done [] else Throw (Recv_failed e), n\<lparr>recvs := rest\<rparr>)
      | Received bs # rest \<Rightarrow>
          (Done (take cap bs),
           n\<lparr>recvs := (if cap < length bs then Received (drop cap bs) # rest else rest)\<rparr>))"

text \<open>The bytes that a call stores in the buffer; their number is the value it returns.\<close>

definition read_some :: "nat \<Rightarrow> int \<Rightarrow> (TcpError, byte list) act" where
  "read_some cap io_timeout n =
     (if fd n < 0 then (Throw Read_not_open, n)
      else case polls n of
        [] \<Rightarrow> (Blocked, n)
      | Poll_err e # rest \<Rightarrow>
          (if e = EINTR then Done [] else Throw (Poll_failed e), n\<lparr>polls := rest\<rparr>)
      | Poll_timeout # rest \<Rightarrow> (Throw (Read_timeout io_timeout), n\<lparr>polls := rest\<rparr>)
      | Poll_ready # rest \<Rightarrow> recv_os cap (n\<lparr>polls := rest\<rparr>))"

definition clock_now :: "net \<Rightarrow> int \<times> net" where
  "clock_now n = (clock n (clock_reads n), n\<lparr>clock_reads := Suc (clock_reads n)\<rparr>)"

lemma read_some_polls:
  "read_some cap t n = (Done bs, n') \<Longrightarrow> length (polls n') < length (polls n)"
  by (auto simp: read_some_def recv_os_def split: if_splits list.splits poll_res.splits recv_res.splits)

lemma clock_now_polls: "clock_now n = (t, n') \<Longrightarrow> polls n' = polls n"
  by (auto simp: clock_now_def)

lemma read_after_clock:
  "(t, n1) = clock_now n \<Longrightarrow> (Done bs, n2) = read_some cap d n1 \<Longrightarrow> length (polls n2) < length (polls n)"
  using read_some_polls [of cap d n1 bs n2] clock_now_polls [of n t n1] by simp

function read_exact_loop :: "nat \<Rightarrow> int \<Rightarrow> byte list \<Rightarrow> (TcpError, byte list) act" where
  "read_exact_loop rem deadline acc n =
     (if rem = 0 then (Done acc, n)
      else let (now, n1) = clock_now n in
        if now \<ge> deadline then (Throw Exact_timeout, n1)
        else case read_some rem ((deadline - now) div 1000000) n1 of
          (Done got, n2) \<Rightarrow>
            if got = [] then (Throw Exact_closed, n2)
            else read_exact_loop (rem - length got) deadline (acc @ got) n2
        | (Throw e, n2) \<Rightarrow> (Throw e, n2)
        | (Blocked, n2) \<Rightarrow> (Blocked, n2))"
  by pat_completeness auto
termination
  by (relation "measure (\<lambda>(rem, d, acc, n). length (polls n))") (simp, clarsimp, metis read_after_clock)

declare read_exact_loop.simps [simp del]

definition read_exact :: "nat \<Rightarrow> int \<Rightarrow> (TcpError, byte list) act" where
  "read_exact cnt io_timeout n =
     (let (now, n1) = clock_now n in read_exact_loop cnt (now + io_timeout * 1000000) [] n1)"

definition string_of_bytes :: "byte list \<Rightarrow> string" where
  "string_of_bytes bs = map (\<lambda>b. char_of (unat b)) bs"

definition bytes_of_string :: "string \<Rightarrow> byte list" where
  "bytes_of_string s = map (\<lambda>c. of_nat (of_char c)) s"

function read_until_loop :: "string \<Rightarrow> nat \<Rightarrow> int \<Rightarrow> string \<Rightarrow> (TcpError, string) act" where
  "read_until_loop terminator max_bytes deadline acc n =
     (if str_contains terminator acc then (Done acc, n)
      else if max_bytes \<le> length acc then (Throw (Until_max max_bytes), n)
      else let (now, n1) = clock_now n in
        if now \<ge> deadline then (Throw (Until_timeout terminator), n1)
        else case read_some (min 512 (max_bytes - length acc)) ((deadline - now) div 1000000) n1 of
          (Done got, n2) \<Rightarrow>
            if got = [] then (Throw Until_closed, n2)
            else read_until_loop terminator max_bytes deadline (acc @ string_of_bytes got) n2
        | (Throw e, n2) \<Rightarrow> (Throw e, n2)
        | (Blocked, n2) \<Rightarrow> (Blocked, n2))"
  by pat_completeness auto
termination
  by (relation "measure (\<lambda>(t, m, d, acc, n). length (polls n))") (simp, clarsimp, metis read_after_clock)

declare read_until_loop.simps [simp del]

definition read_until :: "string \<Rightarrow> int \<Rightarrow> nat \<Rightarrow> (TcpError, string) act" where
  "read_until terminator total_timeout max_bytes n =
     (let (now, n1) = clock_now n
      in read_until_loop terminator max_bytes (now + total_timeout * 1000000) [] n1)"

section \<open>Sequencing\<close>

lemma bind_io_simps [simp]:
  "bind_io (Done a, w) k = k a w"
  "bind_io (Throw e, w) k = (Throw e, w)"
  "bind_io (Blocked, w) k = (Blocked, w)"
  by (simp_all add: bind_io_def)

lemma bind_io_eq_Done:
  "bind_io x k = (Done b, w') \<longleftrightarrow> (\<exists>a w. x = (Done a, w) \<and> k a w = (Done b, w'))"
  by (cases x; cases "fst x") (auto simp: bind_io_def)

section \<open>Strings and bytes\<close>

lemma string_of_bytes_inverse [simp]: "string_of_bytes (bytes_of_string s) = s"
  by (induction s) (simp_all add: string_of_bytes_def bytes_of_string_def unsigned_of_nat take_bit_nat_eq_self)

lemma bytes_of_string_inverse [simp]: "bytes_of_string (string_of_bytes bs) = bs"
proof -
  have "(of_nat (of_char (char_of (unat b) :: char)) :: byte) = b" for b :: byte
    using unsigned_less [of b, where 'a = nat] by (simp add: of_char_of)
  then show ?thesis by (induction bs) (simp_all add: string_of_bytes_def bytes_of_string_def)
qed

lemma string_of_bytes_Nil [simp]: "string_of_bytes [] = []"
  by (simp add: string_of_bytes_def)

lemma string_of_bytes_append [simp]: "string_of_bytes (xs @ ys) = string_of_bytes xs @ string_of_bytes ys"
  by (simp add: string_of_bytes_def)

lemma bytes_of_string_append [simp]: "bytes_of_string (xs @ ys) = bytes_of_string xs @ bytes_of_string ys"
  by (simp add: bytes_of_string_def)

lemma length_string_of_bytes [simp]: "length (string_of_bytes bs) = length bs"
  by (simp add: string_of_bytes_def)

section \<open>Writing\<close>

lemma send_loop_stop [simp]: "send_loop [] n = (Done (), n)"
  by (simp add: send_loop.simps)

text \<open>Whatever \<open>send\<close> does, the bytes taken are a prefix of the buffer, all of it on success.\<close>

lemma send_loop_sent:
  "send_loop p n = (res, n') \<Longrightarrow>
     \<exists>k. sent n' = sent n @ take k p \<and> k \<le> length p \<and> (res = Done () \<longleftrightarrow> k = length p) \<and>
       n'\<lparr>sends := [], sent := []\<rparr> = n\<lparr>sends := [], sent := []\<rparr>"
proof (induction p n arbitrary: res n' rule: send_loop.induct)
  case (1 p n)
  show ?case
  proof (cases "p = [] \<or> sends n = []")
    case True
    then show ?thesis using 1(3) by (cases "p = []") (auto simp: send_loop.simps [of p n] intro: exI [of _ 0])
  next
    case False
    then obtain r rest where sends: "p \<noteq> []" "sends n = r # rest" by (cases "sends n") auto
    show ?thesis
    proof (cases r)
      case (Send_err e)
      show ?thesis
      proof (cases "e = EINTR")
        case True
        with 1(2) [OF sends(1,2) Send_err True] 1(3) sends Send_err show ?thesis
          by (force simp: send_loop.simps [of p n])
      next
        case f: False
        with 1(3) sends Send_err show ?thesis
          by (auto simp: send_loop.simps [of p n] intro: exI [of _ 0])
      qed
    next
      case (Sent k)
      define m where "m = min k (length p)"
      show ?thesis
      proof (cases "m = 0")
        case True
        with 1(3) sends Sent show ?thesis
          by (auto simp: send_loop.simps [of p n] m_def intro: exI [of _ 0])
      next
        case m: False
        let ?n = "n\<lparr>sends := rest, sent := sent n @ take m p\<rparr>"
        have step: "send_loop (drop m p) ?n = (res, n')"
          using 1(3) sends Sent m by (simp add: send_loop.simps [of p n] Let_def flip: m_def)
        have le: "m \<le> length p" by (simp add: m_def)
        from 1(1) [OF sends(1,2) Sent m_def m step] obtain j where
          j: "sent n' = sent n @ take m p @ take j (drop m p)" "j \<le> length p - m"
          "res = Done () \<longleftrightarrow> j = length p - m"
          "n'\<lparr>sends := [], sent := []\<rparr> = n\<lparr>sends := [], sent := []\<rparr>"
          by auto
        then have "sent n' = sent n @ take (m + j) p" by (simp add: take_add)
        moreover have "res = Done () \<longleftrightarrow> m + j = length p" using j(2,3) le by auto
        ultimately show ?thesis using j(2,4) le by (intro exI [of _ "m + j"]) simp
      qed
    qed
  qed
qed

text \<open>Enough calls of \<open>send\<close> that take at least a byte each, with interruptions between them, are enough.\<close>

fun takes_bytes :: "send_res \<Rightarrow> bool" where
  "takes_bytes (Sent k) = (0 < k)"
| "takes_bytes (Send_err e) = False"

lemma send_loop_progress:
  assumes "\<forall>r \<in> set (sends n). takes_bytes r \<or> r = Send_err EINTR"
    and "length p \<le> length (filter takes_bytes (sends n))"
  shows "\<exists>n'. send_loop p n = (Done (), n')"
  using assms
proof (induction p n rule: send_loop.induct)
  case (1 p n)
  show ?case
  proof (cases "p = []")
    case False
    with 1(4) obtain r rest where sends: "sends n = r # rest" by (cases "sends n") auto
    show ?thesis
    proof (cases r)
      case (Send_err e)
      with 1(3) sends have "e = EINTR" by auto
      with 1(2) [OF False sends Send_err] 1(3,4) sends Send_err False show ?thesis
        by (simp add: send_loop.simps [of p n])
    next
      case (Sent k)
      define m where "m = min k (length p)"
      have "m \<noteq> 0" using 1(3) sends Sent False by (auto simp: m_def)
      with 1(1) [OF False sends Sent m_def] 1(3,4) sends Sent False show ?thesis
        by (auto simp: send_loop.simps [of p n] Let_def simp flip: m_def)
    qed
  qed simp
qed

section \<open>Reading\<close>

fun rx_bytes :: "recv_res list \<Rightarrow> byte list" where
  "rx_bytes [] = []"
| "rx_bytes (Received bs # rs) = bs @ rx_bytes rs"
| "rx_bytes (Recv_err e # rs) = rx_bytes rs"

abbreviation rx :: "net \<Rightarrow> byte list" where
  "rx n \<equiv> rx_bytes (recvs n)"

abbreviation got_of :: "('e, 'a list) io \<Rightarrow> 'a list" where
  "got_of r \<equiv> (case r of Done bs \<Rightarrow> bs | _ \<Rightarrow> [])"

text \<open>The parts of the state that reading never touches.\<close>

definition rx_frame :: "net \<Rightarrow> net" where
  "rx_frame n = n\<lparr>polls := [], recvs := [], clock_reads := 0\<rparr>"

lemma rx_frame_fields:
  "rx_frame n = rx_frame n' \<Longrightarrow> fd n = fd n' \<and> open_fds n = open_fds n' \<and> sent n = sent n' \<and>
     sends n = sends n' \<and> clock n = clock n' \<and> resolve n = resolve n'"
  by (cases n; cases n') (simp add: rx_frame_def)

lemma read_some_law:
  assumes "read_some cap t n = (r, n')"
  shows "rx n = got_of r @ rx n'" and "length (got_of r) \<le> cap" and "rx_frame n' = rx_frame n"
  using assms
  by (auto simp: read_some_def recv_os_def rx_frame_def
      split: if_splits list.splits poll_res.splits recv_res.splits)

lemma clock_now_law:
  "clock_now n = (t, n') \<Longrightarrow> rx n' = rx n \<and> rx_frame n' = rx_frame n \<and> t \<in> range (clock n)"
  by (auto simp: clock_now_def rx_frame_def)

lemma read_until_loop_law:
  assumes "read_until_loop pat mx d acc n = (r, n')" and "length acc \<le> mx"
  shows "\<exists>bs. rx n = bs @ rx n' \<and> rx_frame n' = rx_frame n \<and>
     (\<forall>s. r = Done s \<longrightarrow> s = acc @ string_of_bytes bs \<and> str_contains pat s \<and> length s \<le> mx)"
  using assms
proof (induction "length (polls n)" arbitrary: acc n rule: less_induct)
  case less
  show ?case
  proof (cases "str_contains pat acc \<or> mx \<le> length acc")
    case True
    with less.prems show ?thesis
      by (auto simp: read_until_loop.simps [of pat mx d acc n] string_of_bytes_def split: if_splits)
  next
    case False
    obtain t n1 where c: "clock_now n = (t, n1)" by fastforce
    note c' = clock_now_law [OF c]
    obtain q n2 where rd: "read_some (min 512 (mx - length acc)) ((d - t) div 1000000) n1 = (q, n2)"
      by fastforce
    note rd' = read_some_law [OF rd]
    show ?thesis
    proof (cases "d \<le> t \<or> (\<forall>got. q = Done got \<longrightarrow> got = [])")
      case True
      with False c rd less.prems c' rd' show ?thesis
        by (cases q) (auto simp: read_until_loop.simps [of pat mx d acc n] split: if_splits)
    next
      case f: False
      then obtain got where got: "q = Done got" "got \<noteq> []" "\<not> d \<le> t" by auto
      have "length (polls n2) < length (polls n)"
        by (rule read_after_clock [OF c [symmetric] rd [symmetric, unfolded got(1)]])
      moreover have "read_until_loop pat mx d (acc @ string_of_bytes got) n2 = (r, n')"
        using less.prems(1) False c rd got by (simp add: read_until_loop.simps [of pat mx d acc n])
      moreover have "length (acc @ string_of_bytes got) \<le> mx" using rd'(2) got False by (auto simp: not_le)
      ultimately obtain bs where "rx n2 = bs @ rx n'" "rx_frame n' = rx_frame n2"
        "\<forall>s. r = Done s \<longrightarrow> s = (acc @ string_of_bytes got) @ string_of_bytes bs \<and>
            str_contains pat s \<and> length s \<le> mx"
        using less.hyps by blast
      with c' rd' got show ?thesis by (intro exI [of _ "got @ bs"]) auto
    qed
  qed
qed

lemma read_exact_loop_law:
  assumes "read_exact_loop rem d acc n = (r, n')"
  shows "\<exists>bs. rx n = bs @ rx n' \<and> rx_frame n' = rx_frame n \<and>
     (\<forall>s. r = Done s \<longrightarrow> s = acc @ bs \<and> length bs = rem)"
  using assms
proof (induction "length (polls n)" arbitrary: rem acc n rule: less_induct)
  case less
  show ?case
  proof (cases "rem = 0")
    case True
    with less.prems show ?thesis by (auto simp: read_exact_loop.simps [of 0 d acc n])
  next
    case False
    obtain t n1 where c: "clock_now n = (t, n1)" by fastforce
    note c' = clock_now_law [OF c]
    obtain q n2 where rd: "read_some rem ((d - t) div 1000000) n1 = (q, n2)" by fastforce
    note rd' = read_some_law [OF rd]
    show ?thesis
    proof (cases "d \<le> t \<or> (\<forall>got. q = Done got \<longrightarrow> got = [])")
      case True
      with False c rd less.prems c' rd' show ?thesis
        by (cases q) (auto simp: read_exact_loop.simps [of rem d acc n] split: if_splits)
    next
      case f: False
      then obtain got where got: "q = Done got" "got \<noteq> []" "\<not> d \<le> t" by auto
      have "length (polls n2) < length (polls n)"
        by (rule read_after_clock [OF c [symmetric] rd [symmetric, unfolded got(1)]])
      moreover have "read_exact_loop (rem - length got) d (acc @ got) n2 = (r, n')"
        using less.prems(1) False c rd got by (simp add: read_exact_loop.simps [of rem d acc n])
      ultimately obtain bs where "rx n2 = bs @ rx n'" "rx_frame n' = rx_frame n2"
        "\<forall>s. r = Done s \<longrightarrow> s = (acc @ got) @ bs \<and> length bs = rem - length got"
        using less.hyps by blast
      with c' rd' got show ?thesis by (intro exI [of _ "got @ bs"]) auto
    qed
  qed
qed

text \<open>
  A reply that arrives in chunks, with the terminator completed by the last one, in time and within
  the limit, is returned, and nothing after it is consumed.
\<close>

lemma read_until_loop_delivers:
  assumes "polls n = replicate (length cs) Poll_ready @ ps" and "recvs n = map Received cs @ rs"
    and "\<forall>c \<in> set cs. c \<noteq> [] \<and> length c \<le> 512"
    and "\<forall>k < length cs. \<not> str_contains pat (acc @ string_of_bytes (concat (take k cs)))"
    and "str_contains pat (acc @ string_of_bytes (concat cs))"
    and "length (acc @ string_of_bytes (concat cs)) \<le> mx" and "\<forall>i. clock n i < d" and "0 \<le> fd n"
  shows "read_until_loop pat mx d acc n =
     (Done (acc @ string_of_bytes (concat cs)),
      n\<lparr>polls := ps, recvs := rs, clock_reads := clock_reads n + length cs\<rparr>)"
  using assms
proof (induction cs arbitrary: acc n)
  case Nil
  then show ?case by (simp add: read_until_loop.simps [of pat mx d acc n] string_of_bytes_def)
next
  case (Cons c cs)
  let ?n2 = "n\<lparr>polls := replicate (length cs) Poll_ready @ ps, recvs := map Received cs @ rs,
     clock_reads := Suc (clock_reads n)\<rparr>"
  have "length acc + length c \<le> mx" and c512: "c \<noteq> []" "length c \<le> 512" using Cons.prems(3,6) by simp_all
  moreover from c512 have "0 < length c" by simp
  ultimately have c: "c \<noteq> []" "length c \<le> min 512 (mx - length acc)" "length acc < mx"
    by (simp_all only: min_def) auto
  have "\<not> str_contains pat acc" using Cons.prems(4) by (auto simp: string_of_bytes_def)
  moreover have "read_some cap t (n\<lparr>clock_reads := Suc (clock_reads n)\<rparr>) = (Done c, ?n2)"
    if "length c \<le> cap" for cap t
    using Cons.prems(1,2,8) that by (simp add: read_some_def recv_os_def)
  note this [OF c(2)]
  ultimately have step: "read_until_loop pat mx d acc n =
      read_until_loop pat mx d (acc @ string_of_bytes c) ?n2"
    using spec [OF Cons.prems(7), of "clock_reads n"] c(1,3)
    by (simp add: read_until_loop.simps [of pat mx d acc n] clock_now_def)
  have "\<not> str_contains pat ((acc @ string_of_bytes c) @ string_of_bytes (concat (take k cs)))"
    if "k < length cs" for k
    using Cons.prems(4) that by (auto dest: spec [of _ "Suc k"])
  then have "read_until_loop pat mx d (acc @ string_of_bytes c) ?n2 =
      (Done ((acc @ string_of_bytes c) @ string_of_bytes (concat cs)),
       ?n2\<lparr>polls := ps, recvs := rs, clock_reads := clock_reads ?n2 + length cs\<rparr>)"
    using Cons.prems(3,5-8) by (intro Cons.IH) auto
  with step show ?case by simp
qed

section \<open>Connecting\<close>

text \<open>An attempt on an address ends with a usable socket, with nothing, or with an exception.\<close>

definition usable :: "attempt \<Rightarrow> bool" where
  "usable a \<longleftrightarrow>
     (\<exists>s. at_socket a = Inr s) \<and> at_nonblock a = Fcntl_ok \<and> at_block a = Fcntl_ok \<and>
     (at_connect a = None \<or>
      at_connect a \<in> {Some EINPROGRESS, Some EWOULDBLOCK} \<and> at_poll a = Poll_ready \<and> at_sockopt a = Inr 0)"

definition fcntl_works :: "attempt \<Rightarrow> bool" where
  "fcntl_works a \<longleftrightarrow> at_nonblock a = Fcntl_ok \<and> at_block a = Fcntl_ok"

lemma set_nonblocking_ok [simp]: "set_nonblocking Fcntl_ok = None"
  by (simp add: set_nonblocking_def)

lemma connect_loop_usable:
  assumes "usable a" and "at_socket a = Inr s"
  shows "connect_loop h p e (a # as) n = (Done (), n\<lparr>open_fds := int s # open_fds n, fd := int s\<rparr>)"
  using assms by (auto simp: usable_def adopt_def Let_def)

lemma connect_loop_unusable:
  assumes "\<not> usable a" and "fcntl_works a"
  shows "\<exists>e'. connect_loop h p e (a # as) n = connect_loop h p e' as n"
  using assms
  by (auto simp: usable_def fcntl_works_def close_fd_def Let_def split: sum.splits option.splits poll_res.splits)

lemma connect_loop_first_usable:
  assumes "\<forall>a \<in> set as. fcntl_works a"
  shows "case find usable as of
      Some a \<Rightarrow> \<exists>s. at_socket a = Inr s \<and>
        connect_loop h p e as n = (Done (), n\<lparr>open_fds := int s # open_fds n, fd := int s\<rparr>)
    | None \<Rightarrow> \<exists>e'. connect_loop h p e as n = (Throw (Connect_failed h p e'), n)"
  using assms
proof (induction as arbitrary: e)
  case (Cons a as)
  show ?case
  proof (cases "usable a")
    case True
    then obtain s where "at_socket a = Inr s" by (auto simp: usable_def)
    with True connect_loop_usable show ?thesis by simp
  next
    case False
    with connect_loop_unusable [of a h p e as n] Cons.prems obtain e' where
      "connect_loop h p e (a # as) n = connect_loop h p e' as n" by auto
    with Cons.IH [of e'] Cons.prems False show ?thesis
      by (simp del: connect_loop.simps split: option.splits)
  qed
qed simp

section \<open>Properties\<close>

text \<open>
  \<open>write_all\<close> on an open socket. Whatever short writes, interruptions and errors the system
  gives, the bytes the socket took are a prefix of the buffer, in order and without repetition; the
  call returns normally exactly when that prefix is the whole buffer.
\<close>

theorem write_all_sends_prefix:
  assumes "0 \<le> fd n" and "write_all buf n = (res, n')"
  shows "\<exists>k \<le> length buf. sent n' = sent n @ take k buf \<and> (res = Done () \<longleftrightarrow> k = length buf)"
  using send_loop_sent [of buf n res n'] assms by (auto simp: write_all_def)

definition ex_net :: net where
  "ex_net = \<lparr>fd = 7, open_fds = [7], resolve = (\<lambda>h p. Inl 0),
     sends = [Send_err EINTR, Sent 2, Send_err EINTR, Sent 9, Sent 4, Sent 4],
     polls = [Poll_ready, Poll_ready, Poll_ready],
     recvs = map (\<lambda>s. Received (bytes_of_string s)) [''$R; ok'', ''IPS1> xyz'', ''more''],
     sent = [], clock = int, clock_reads = 0\<rparr>"

theorem write_all_sends_prefix_witness:
  "\<exists>k \<le> length (bytes_of_string ''hello'').
     sent (snd (write_all (bytes_of_string ''hello'') ex_net)) = sent ex_net @ take k (bytes_of_string ''hello'') \<and>
     (fst (write_all (bytes_of_string ''hello'') ex_net) = Done () \<longleftrightarrow> k = length (bytes_of_string ''hello''))"
  by (rule write_all_sends_prefix) (simp_all add: ex_net_def)

text \<open>
  C24: \<open>write_all\<close> returns. If \<open>send\<close> is only ever interrupted or takes at least one byte, and is ready
  as many times as the buffer has bytes, the call ends normally and the whole buffer was sent:
  interruptions are retried.
\<close>

theorem write_all_completes:
  assumes "0 \<le> fd n" and "\<forall>r \<in> set (sends n). takes_bytes r \<or> r = Send_err EINTR"
    and "length buf \<le> length (filter takes_bytes (sends n))"
  shows "\<exists>n'. write_all buf n = (Done (), n') \<and> sent n' = sent n @ buf"
proof -
  obtain n' where "send_loop buf n = (Done (), n')" using send_loop_progress [OF assms(2,3)] by blast
  with send_loop_sent [OF this] assms(1) show ?thesis by (auto simp: write_all_def)
qed

theorem write_all_completes_witness:
  "\<exists>n'. write_all (bytes_of_string ''abc'') ex_net = (Done (), n') \<and>
     sent n' = sent ex_net @ bytes_of_string ''abc''"
  by (rule write_all_completes) (simp_all add: ex_net_def bytes_of_string_def)

text \<open>
  \<open>read_until\<close>. A string that is returned contains the terminator, has at most \<open>max_bytes\<close>
  characters and is exactly the next piece of the incoming stream, of which nothing is skipped or
  read twice; every other outcome also consumes a prefix of the stream only, and sends nothing.
\<close>

theorem read_until_returns_stream:
  assumes "read_until pat timeout mx n = (res, n')"
  shows "\<exists>bs. rx n = bs @ rx n' \<and> sent n' = sent n \<and> fd n' = fd n \<and>
     (\<forall>s. res = Done s \<longrightarrow> s = string_of_bytes bs \<and> str_contains pat s \<and> length s \<le> mx)"
proof -
  obtain t n1 where c: "clock_now n = (t, n1)" by fastforce
  have "read_until_loop pat mx (t + timeout * 1000000) [] n1 = (res, n')"
    using assms c by (simp add: read_until_def)
  from read_until_loop_law [OF this] clock_now_law [OF c] show ?thesis
    by (auto dest!: rx_frame_fields)
qed

theorem read_until_returns_stream_witness:
  "\<exists>bs. rx ex_net = bs @ rx (snd (read_until ''>'' 3000 65536 ex_net)) \<and>
     sent (snd (read_until ''>'' 3000 65536 ex_net)) = sent ex_net \<and>
     fd (snd (read_until ''>'' 3000 65536 ex_net)) = fd ex_net \<and>
     (\<forall>s. fst (read_until ''>'' 3000 65536 ex_net) = Done s \<longrightarrow>
        s = string_of_bytes bs \<and> str_contains ''>'' s \<and> length s \<le> 65536)"
  by (rule read_until_returns_stream) simp

text \<open>
  C25: \<open>read_until\<close> returns. A reply that arrives in pieces of at most 512 bytes before the deadline,
  whose last piece completes the terminator, and that fits the limit, is returned whole, and
  the stream behind it is untouched.
\<close>

theorem read_until_delivers:
  assumes "0 \<le> fd n" and "polls n = replicate (length cs) Poll_ready @ ps" and "recvs n = map Received cs @ rs"
    and "\<forall>c \<in> set cs. c \<noteq> [] \<and> length c \<le> 512"
    and "\<forall>k < length cs. \<not> str_contains pat (string_of_bytes (concat (take k cs)))"
    and "str_contains pat (string_of_bytes (concat cs))" and "length (concat cs) \<le> mx"
    and "\<forall>i. clock n i < clock n (clock_reads n) + timeout * 1000000"
  shows "\<exists>n'. read_until pat timeout mx n = (Done (string_of_bytes (concat cs)), n') \<and>
     polls n' = ps \<and> recvs n' = rs"
proof -
  let ?n = "n\<lparr>clock_reads := Suc (clock_reads n)\<rparr>"
  let ?d = "clock n (clock_reads n) + timeout * 1000000"
  have same: "polls ?n = polls n" "recvs ?n = recvs n" "clock ?n = clock n" "fd ?n = fd n" by simp_all
  have run: "read_until_loop pat mx ?d [] ?n = (Done ([] @ string_of_bytes (concat cs)),
      ?n\<lparr>polls := ps, recvs := rs, clock_reads := clock_reads ?n + length cs\<rparr>)"
    using assms by (intro read_until_loop_delivers) (simp_all only: append_Nil length_string_of_bytes same simp_thms)
  show ?thesis
    unfolding read_until_def clock_now_def Let_def case_prod_conv
    by (intro exI conjI, rule run [unfolded append_Nil]) simp_all
qed

definition ex_quiet :: net where
  "ex_quiet = ex_net\<lparr>clock := (\<lambda>i. 0)\<rparr>"

theorem read_until_delivers_witness:
  "\<exists>n'. read_until ''>'' 3000 65536 ex_quiet =
      (Done (string_of_bytes (concat (map bytes_of_string [''$R; ok'', ''IPS1> xyz'']))), n') \<and>
     polls n' = [Poll_ready] \<and> recvs n' = [Received (bytes_of_string ''more'')]"
proof -
  let ?cs = "map bytes_of_string [''$R; ok'', ''IPS1> xyz'']"
  have "\<not> str_contains ''>'' (string_of_bytes (concat (take 0 ?cs)))"
    and "\<not> str_contains ''>'' (string_of_bytes (concat (take 1 ?cs)))"
    by (simp_all add: str_contains_def)
  moreover have "k = 0 \<or> k = 1" if "k < length ?cs" for k using that by auto
  ultimately have first: "\<forall>k < length ?cs. \<not> str_contains ''>'' (string_of_bytes (concat (take k ?cs)))"
    by metis
  have all: "str_contains ''>'' (string_of_bytes (concat ?cs))"
    by (simp add: str_contains_def)
  have "polls ex_quiet = replicate (length ?cs) Poll_ready @ [Poll_ready]"
    and "recvs ex_quiet = map Received ?cs @ [Received (bytes_of_string ''more'')]"
    and "0 \<le> fd ex_quiet" and "\<forall>i. clock ex_quiet i < clock ex_quiet (clock_reads ex_quiet) + 3000 * 1000000"
    by (simp_all add: ex_quiet_def ex_net_def)
  moreover have "\<forall>c \<in> set ?cs. c \<noteq> [] \<and> length c \<le> 512" and "length (concat ?cs) \<le> 65536"
    by (simp_all add: bytes_of_string_def)
  ultimately show ?thesis using first all by (intro read_until_delivers)
qed

text \<open>
  \<open>read_exact\<close> returns exactly the requested number of bytes, the next ones of the stream, or
  does not return normally.
\<close>

theorem read_exact_returns_exactly:
  assumes "read_exact cnt timeout n = (Done bs, n')"
  shows "length bs = cnt \<and> rx n = bs @ rx n'"
proof -
  obtain t n1 where c: "clock_now n = (t, n1)" by fastforce
  have "read_exact_loop cnt (t + timeout * 1000000) [] n1 = (Done bs, n')"
    using assms c by (simp add: read_exact_def)
  from read_exact_loop_law [OF this] clock_now_law [OF c] show ?thesis by auto
qed

lemma read_exact_ex:
  "read_exact 3 3000 ex_quiet =
     (Done (bytes_of_string ''$R;''),
      ex_quiet\<lparr>polls := [Poll_ready, Poll_ready], clock_reads := 2,
        recvs := map (\<lambda>s. Received (bytes_of_string s)) ['' ok'', ''IPS1> xyz'', ''more'']\<rparr>)"
  by (simp add: read_exact_def clock_now_def read_exact_loop.simps read_some_def recv_os_def
      ex_quiet_def ex_net_def bytes_of_string_def)

theorem read_exact_returns_exactly_witness:
  "length (bytes_of_string ''$R;'') = 3 \<and> rx ex_quiet = bytes_of_string ''$R;'' @
     rx (ex_quiet\<lparr>polls := [Poll_ready, Poll_ready], clock_reads := 2,
        recvs := map (\<lambda>s. Received (bytes_of_string s)) ['' ok'', ''IPS1> xyz'', ''more'']\<rparr>)"
  by (rule read_exact_returns_exactly [OF read_exact_ex])

text \<open>
  C26: \<open>connect\<close> takes the first address that works, and holds no other descriptor afterwards; when
  none works it throws and every socket it opened is closed again, provided that \<open>fcntl\<close> does
  not fail.
\<close>

theorem connect_first_usable:
  assumes "fd n < 0" and "resolve n host port = Inr as" and "\<forall>a \<in> set as. fcntl_works a"
  shows "case find usable as of
      Some a \<Rightarrow> \<exists>s. at_socket a = Inr s \<and>
        TcpClient_connect host port n = (Done (), n\<lparr>open_fds := int s # open_fds n, fd := int s\<rparr>)
    | None \<Rightarrow> \<exists>e. TcpClient_connect host port n = (Throw (Connect_failed host port e), n)"
  using connect_loop_first_usable [OF assms(3), of host port 0 n] assms(1,2)
  by (simp add: TcpClient_connect_def split: option.splits)

definition ex_attempt :: attempt where
  "ex_attempt = \<lparr>at_socket = Inr 5, at_nonblock = Fcntl_ok, at_connect = Some EINPROGRESS,
     at_poll = Poll_ready, at_sockopt = Inr 0, at_block = Fcntl_ok\<rparr>"

definition ex_closed :: "attempt list \<Rightarrow> net" where
  "ex_closed as = ex_net\<lparr>fd := -1, open_fds := [], resolve := (\<lambda>h p. Inr as)\<rparr>"

theorem connect_first_usable_witness:
  "case find usable [ex_attempt\<lparr>at_poll := Poll_timeout\<rparr>, ex_attempt] of
      Some a \<Rightarrow> \<exists>s. at_socket a = Inr s \<and>
        TcpClient_connect ''rx'' 28784 (ex_closed [ex_attempt\<lparr>at_poll := Poll_timeout\<rparr>, ex_attempt]) =
          (Done (), (ex_closed [ex_attempt\<lparr>at_poll := Poll_timeout\<rparr>, ex_attempt])
             \<lparr>open_fds := int s # open_fds (ex_closed [ex_attempt\<lparr>at_poll := Poll_timeout\<rparr>, ex_attempt]), fd := int s\<rparr>)
    | None \<Rightarrow> \<exists>e. TcpClient_connect ''rx'' 28784 (ex_closed [ex_attempt\<lparr>at_poll := Poll_timeout\<rparr>, ex_attempt]) =
        (Throw (Connect_failed ''rx'' 28784 e), ex_closed [ex_attempt\<lparr>at_poll := Poll_timeout\<rparr>, ex_attempt])"
  by (rule connect_first_usable) (simp_all add: ex_closed_def ex_attempt_def fcntl_works_def)

text \<open>
  A failing \<open>fcntl\<close> leaks the socket: the exception leaves \<open>connect\<close> with a descriptor
  open that the object does not know and \<open>close\<close> does not close.
\<close>

theorem connect_fcntl_failure_leaks:
  "\<exists>n n' e. open_fds n = [] \<and> TcpClient_connect ''rx'' 28784 n = (Throw e, n') \<and>
     fd n' = -1 \<and> open_fds (TcpClient_close n') = [5]"
proof -
  let ?n = "ex_closed [ex_attempt\<lparr>at_block := Setfl_err 9\<rparr>]"
  have "TcpClient_connect ''rx'' 28784 ?n = (Throw (Fcntl_setfl_failed 9), ?n\<lparr>open_fds := [5]\<rparr>)"
    by (simp add: TcpClient_connect_def ex_closed_def ex_attempt_def adopt_def set_nonblocking_def ex_net_def)
  moreover have "open_fds ?n = []" "fd ?n = -1" by (simp_all add: ex_closed_def)
  ultimately show ?thesis by (intro exI [of _ ?n] exI [of _ "?n\<lparr>open_fds := [5]\<rparr>"] exI) (simp add: TcpClient_close_def)
qed

text \<open>
  \<open>read_some\<close> returns 0 bytes not only when the peer has closed: an interrupted \<open>poll\<close> or \<open>recv\<close>
  gives the same value while the stream goes on.
\<close>

theorem read_some_zero_on_interrupt:
  "\<exists>n n'. read_some 65536 10000 n = (Done [], n') \<and> rx n' \<noteq> [] \<and>
     read_some 65536 10000 n' = (Done (bytes_of_string ''$R; ok''), snd (read_some 65536 10000 n'))"
  by (rule exI [of _ "ex_net\<lparr>polls := [Poll_err EINTR, Poll_ready]\<rparr>"])
    (simp add: read_some_def recv_os_def ex_net_def bytes_of_string_def)

end
