(* ===== verification/ReceiverConfig.thy ===== *)
theory ReceiverConfig
  imports TcpClient CppDouble
begin

text \<open>
  Receiver configuration, src/src/receiver_config.hpp and receiver_config.cpp: the command builder,
  the reply parsers and the dialogue on the control connection. This theory holds the code; what
  it guarantees is in ReceiverConfigProps. Log output is left out, except where a logged text also
  goes into an exception.
\<close>

section \<open>The code: data\<close>

datatype ConfigError = ConfigError string

datatype exn = Tcp TcpError | Config ConfigError

record SbfStream =
  stream_id :: int
  blocks :: "string list"
  interval :: string

record Vec3 =
  vec_x :: double
  vec_y :: double
  vec_z :: double

record AttitudeOffset =
  heading_deg :: double
  pitch_deg :: double

record ReceiverCapabilities =
  has_main :: bool
  has_aux1 :: bool
  measurement_interval_ms :: int
  pvt_interval_ms :: int
  ins_interval_ms :: int

record ReceiverSettings =
  user :: string
  password :: string
  ips_id :: int
  ips_port :: u16
  streams :: "SbfStream list"
  use_sensor_default :: bool
  imu_startup_data_mode :: string
  imu_orientation_mode :: string
  theta_x_deg :: double
  theta_y_deg :: double
  theta_z_deg :: double
  ant_lever_arm_m :: Vec3
  ant_lever_arm_configured :: bool
  require_aux1 :: bool
  gnss_attitude_mode :: string
  attitude_offset_deg :: AttitudeOffset
  configure_all_tracking :: bool
  cn0_mask_dbhz :: int

definition ReceiverSettings_default :: ReceiverSettings where
  "ReceiverSettings_default =
     \<lparr>user = ''admin'', password = ''admin'', ips_id = 1, ips_port = 28785,
      streams =
        [\<lparr>stream_id = 1, blocks = [''ExtSensorMeas''], interval = ''OnChange''\<rparr>,
         \<lparr>stream_id = 2, blocks = [''MeasEpoch'', ''MeasExtra'', ''EndOfMeas''], interval = ''OnChange''\<rparr>,
         \<lparr>stream_id = 3, blocks = [''AuxAntPositions'', ''AttEuler'', ''AttCovEuler'', ''EndOfAtt''],
          interval = ''OnChange''\<rparr>,
         \<lparr>stream_id = 4, blocks = [''ExtSensorStatus'', ''ExtSensorInfo'', ''IMUSetup''], interval = ''OnChange''\<rparr>,
         \<lparr>stream_id = 5, blocks = [''ReceiverStatus'', ''QualityInd'', ''ReceiverTime'', ''ChannelStatus''],
          interval = ''OnChange''\<rparr>,
         \<lparr>stream_id = 6, blocks = [''GPS'', ''GLO'', ''GAL'', ''BDS'', ''QZS'', ''RawNavBits'', ''ReceiverSetup'',
            ''Commands'', ''DiffCorr''], interval = ''OnChange''\<rparr>],
      use_sensor_default = True, imu_startup_data_mode = ''Boot'', imu_orientation_mode = ''SensorDefault'',
      theta_x_deg = Fin 0, theta_y_deg = Fin 0, theta_z_deg = Fin 0,
      ant_lever_arm_m = \<lparr>vec_x = Fin 0, vec_y = Fin 0, vec_z = Fin 0\<rparr>, ant_lever_arm_configured = False,
      require_aux1 = True, gnss_attitude_mode = ''MultiAntenna'',
      attitude_offset_deg = \<lparr>heading_deg = Fin 0, pitch_deg = Fin 0\<rparr>,
      configure_all_tracking = True, cn0_mask_dbhz = 0\<rparr>"

section \<open>The code: strings\<close>

abbreviation (input) kMaxAsciiCommandLength :: nat where "kMaxAsciiCommandLength \<equiv> 2000"

fun join :: "string list \<Rightarrow> char \<Rightarrow> string" where
  "join [] sep = []"
| "join [p] sep = p"
| "join (p # q # ps) sep = p @ sep # join (q # ps) sep"

definition trim :: "string \<Rightarrow> string" where
  "trim s = rev (dropWhile is_space (rev (dropWhile is_space s)))"

definition starts_with_ci :: "string \<Rightarrow> string \<Rightarrow> bool" where
  "starts_with_ci s prfx \<longleftrightarrow>
     length prfx \<le> length s \<and> lower_copy (take (length prfx) s) = lower_copy prfx"

text \<open>The lines \<open>std::getline\<close> delivers: no empty line after a final separator.\<close>

function getlines :: "char \<Rightarrow> string \<Rightarrow> string list" where
  "getlines sep s =
     (if s = [] then []
      else takeWhile (\<lambda>x. x \<noteq> sep) s # getlines sep (drop 1 (dropWhile (\<lambda>x. x \<noteq> sep) s)))"
  by pat_completeness auto
termination
proof (relation "measure (\<lambda>(sep, s). length s)")
  fix sep :: char and s :: string
  assume "s \<noteq> []"
  then show "((sep, drop 1 (dropWhile (\<lambda>x. x \<noteq> sep) s)), sep, s) \<in> measure (\<lambda>(sep, s). length s)"
    using length_dropWhile_le [of "\<lambda>x. x \<noteq> sep" s] by (cases s) auto
qed simp

declare getlines.simps [simp del]

definition split :: "string \<Rightarrow> char \<Rightarrow> string list" where
  "split s sep = map trim (getlines sep s)"

definition fmt_command_decimal :: "double \<Rightarrow> string" where
  "fmt_command_decimal v =
     (let v = (if d_less (d_abs v) (round_double (5 / 10000)) then Fin 0 else v) in print_fixed 3 v)"

text \<open>A text in single quotes, for messages.\<close>

definition quoted :: "string \<Rightarrow> string" where
  "quoted s = CHR 0x27 # s @ [CHR 0x27]"

definition parse_int_prefix :: "string \<Rightarrow> string \<Rightarrow> ConfigError + int" where
  "parse_int_prefix s field =
     (case parse_int32 (trim s) of
        None \<Rightarrow> Inl (ConfigError (''could not parse integer field '' @ quoted field @ '' from '' @ quoted s))
      | Some v \<Rightarrow> Inr v)"

definition parse_double_prefix :: "string \<Rightarrow> string \<Rightarrow> ConfigError + double" where
  "parse_double_prefix s field =
     (case parse_double (trim s) of
        None \<Rightarrow> Inl (ConfigError (''could not parse numeric field '' @ quoted field @ '' from '' @ quoted s))
      | Some v \<Rightarrow> Inr v)"

definition close_enough :: "double \<Rightarrow> double \<Rightarrow> bool" where
  "close_enough a b = d_le (d_abs (d_sub a b)) (round_double (1 / 1000))"

fun find_line :: "string \<Rightarrow> string list \<Rightarrow> string option" where
  "find_line prfx [] = None"
| "find_line prfx (l # ls) =
     (if starts_with_ci (trim l) prfx then Some (trim (drop (length prfx) (trim l))) else find_line prfx ls)"

definition find_config_line_payload :: "string \<Rightarrow> string \<Rightarrow> ConfigError + string" where
  "find_config_line_payload reply key =
     (case find_line (key @ '','') (getlines (CHR 0x0A) reply) of
        Some payload \<Rightarrow> Inr payload
      | None \<Rightarrow> Inl (ConfigError (''receiver reply did not contain '' @ quoted key @ '' line: '' @ reply)))"

definition compact_payload_after_key :: "string \<Rightarrow> string \<Rightarrow> ConfigError + string" where
  "compact_payload_after_key reply key =
     (let marker = key @ '','' in
      case str_find marker reply of
        None \<Rightarrow> Inl (ConfigError (''receiver reply did not contain '' @ quoted key @ '' payload: '' @ reply))
      | Some pos \<Rightarrow>
          let payload = drop (pos + length marker) reply;
              payload = (case str_find ''>'' payload of Some prompt \<Rightarrow> take prompt payload | None \<Rightarrow> payload)
          in Inr (map (\<lambda>c. if c = CHR 0x0D \<or> c = CHR 0x0A \<or> c = CHR 0x09 then CHR '' '' else c) payload))"

definition enforce_command_length :: "string \<Rightarrow> ConfigError + unit" where
  "enforce_command_length cmd =
     (if kMaxAsciiCommandLength < length cmd
      then Inl (ConfigError ''ASCII command exceeds Septentrio 2000-character limit'') else Inr ())"

definition set_orientation_command :: "ReceiverSettings \<Rightarrow> string" where
  "set_orientation_command settings =
     (if equals_ci (imu_orientation_mode settings) ''SensorDefault'' then ''setIMUOrientation, SensorDefault''
      else ''setIMUOrientation, '' @ imu_orientation_mode settings @ '', '' @
        fmt_command_decimal (theta_x_deg settings) @ '', '' @
        fmt_command_decimal (theta_y_deg settings) @ '', '' @
        fmt_command_decimal (theta_z_deg settings))"

definition set_vec3_command :: "string \<Rightarrow> Vec3 \<Rightarrow> string" where
  "set_vec3_command name v =
     name @ '', '' @ fmt_command_decimal (vec_x v) @ '', '' @ fmt_command_decimal (vec_y v) @ '', '' @
     fmt_command_decimal (vec_z v)"

definition redact_cmd :: "string \<Rightarrow> string" where
  "redact_cmd cmd = (if starts_with ''login'' cmd then ''login, <REDACTED>, <REDACTED>'' else cmd)"

section \<open>The code: commands and replies\<close>

definition allowed_intervals :: "string list" where
  "allowed_intervals =
     [''onchange'', ''off'', ''msec5'', ''msec10'', ''msec20'', ''msec40'', ''msec50'', ''msec100'', ''msec200'',
      ''msec500'', ''sec1'', ''sec2'', ''sec5'', ''sec10'', ''sec15'', ''sec30'', ''sec60'',
      ''min2'', ''min5'', ''min10'', ''min15'', ''min30'', ''min60'']"

definition is_valid_sbf_interval :: "string \<Rightarrow> bool" where
  "is_valid_sbf_interval s = (lower_copy s \<in> set allowed_intervals)"

definition build_sbf_output_command :: "SbfStream \<Rightarrow> int \<Rightarrow> ConfigError + string" where
  "build_sbf_output_command stream ips =
     (if stream_id stream < 1 \<or> 10 < stream_id stream then Inl (ConfigError ''SBF stream id must be in range 1..10'')
      else if ips < 1 \<or> 5 < ips then Inl (ConfigError ''IPS id must be in range 1..5'')
      else if blocks stream = [] then Inl (ConfigError ''SBF stream must contain at least one block'')
      else if \<not> is_valid_sbf_interval (interval stream)
      then Inl (ConfigError (''unsupported SBF interval '' @ quoted (interval stream)))
      else
        let cmd = ''setSBFOutput, Stream'' @ int_to_string (stream_id stream) @ '', IPS'' @ int_to_string ips @
              '', '' @ join (blocks stream) (CHR ''+'') @ '', '' @ interval stream
        in bind_res (enforce_command_length cmd) (\<lambda>_. Inr cmd))"

definition build_ins_ant_lever_arm_command :: "Vec3 \<Rightarrow> string" where
  "build_ins_ant_lever_arm_command v = set_vec3_command ''setINSAntLeverArm'' v"

definition parse_receiver_capabilities_reply :: "string \<Rightarrow> ConfigError + ReceiverCapabilities" where
  "parse_receiver_capabilities_reply reply =
     bind_res (compact_payload_after_key reply ''ReceiverCapabilities'') (\<lambda>payload.
     let fields = split payload (CHR '','') in
     if length fields < 7 then Inl (ConfigError (''ReceiverCapabilities reply had too few fields: '' @ reply))
     else
       let antennas = split (fields ! 0) (CHR ''+'') in
       bind_res (parse_int_prefix (fields ! (length fields - 3)) ''measurement_interval_ms'') (\<lambda>meas.
       bind_res (parse_int_prefix (fields ! (length fields - 2)) ''pvt_interval_ms'') (\<lambda>pvt.
       bind_res (parse_int_prefix (fields ! (length fields - 1)) ''ins_interval_ms'') (\<lambda>ins.
       Inr \<lparr>has_main = list_ex (\<lambda>a. equals_ci a ''Main'') antennas,
            has_aux1 = list_ex (\<lambda>a. equals_ci a ''Aux1'') antennas,
            measurement_interval_ms = meas, pvt_interval_ms = pvt, ins_interval_ms = ins\<rparr>))))"

definition verify_imu_orientation_reply :: "string \<Rightarrow> ReceiverSettings \<Rightarrow> ConfigError + unit" where
  "verify_imu_orientation_reply reply settings =
     bind_res (find_config_line_payload reply ''IMUOrientation'') (\<lambda>payload.
     let fields = split payload (CHR '','') in
     if fields = [] then Inl (ConfigError ''IMUOrientation reply did not contain an orientation mode'')
     else if \<not> equals_ci (fields ! 0) (imu_orientation_mode settings)
     then Inl (ConfigError (''IMU orientation mismatch: expected '' @ imu_orientation_mode settings @ '', got '' @ fields ! 0))
     else if \<not> equals_ci (imu_orientation_mode settings) ''SensorDefault'' then
       if length fields < 4 then Inl (ConfigError ''IMUOrientation reply did not include theta values'')
       else
         bind_res (parse_double_prefix (fields ! 1) ''ThetaX'') (\<lambda>theta_x.
         bind_res (parse_double_prefix (fields ! 2) ''ThetaY'') (\<lambda>theta_y.
         bind_res (parse_double_prefix (fields ! 3) ''ThetaZ'') (\<lambda>theta_z.
         if \<not> close_enough theta_x (theta_x_deg settings) \<or> \<not> close_enough theta_y (theta_y_deg settings) \<or>
            \<not> close_enough theta_z (theta_z_deg settings)
         then Inl (ConfigError ''IMU orientation theta values do not match requested config'')
         else Inr ())))
     else Inr ())"

definition verify_ins_ant_lever_arm_reply :: "string \<Rightarrow> Vec3 \<Rightarrow> ConfigError + unit" where
  "verify_ins_ant_lever_arm_reply reply expected =
     bind_res (find_config_line_payload reply ''INSAntLeverArm'') (\<lambda>payload.
     let fields = split payload (CHR '','') in
     if length fields < 3 then Inl (ConfigError ''INSAntLeverArm reply did not contain x/y/z values'')
     else
       bind_res (parse_double_prefix (fields ! 0) ''INSAntLeverArm.X'') (\<lambda>x.
       bind_res (parse_double_prefix (fields ! 1) ''INSAntLeverArm.Y'') (\<lambda>y.
       bind_res (parse_double_prefix (fields ! 2) ''INSAntLeverArm.Z'') (\<lambda>z.
       if \<not> close_enough x (vec_x expected) \<or> \<not> close_enough y (vec_y expected) \<or>
          \<not> close_enough z (vec_z expected)
       then Inl (ConfigError ''INS antenna lever arm does not match requested config'')
       else Inr ()))))"

definition verify_gnss_attitude_reply :: "string \<Rightarrow> string \<Rightarrow> ConfigError + unit" where
  "verify_gnss_attitude_reply reply expected_mode =
     bind_res (find_config_line_payload reply ''GNSSAttitude'') (\<lambda>payload.
     let fields = split payload (CHR '','') in
     if fields = [] then Inl (ConfigError ''GNSSAttitude reply did not contain a mode'')
     else if \<not> equals_ci (fields ! 0) expected_mode
     then Inl (ConfigError (''GNSS attitude mode mismatch: expected '' @ expected_mode @ '', got '' @ fields ! 0))
     else Inr ())"

definition verify_attitude_offset_reply :: "string \<Rightarrow> AttitudeOffset \<Rightarrow> ConfigError + unit" where
  "verify_attitude_offset_reply reply expected =
     bind_res (find_config_line_payload reply ''AttitudeOffset'') (\<lambda>payload.
     let fields = split payload (CHR '','') in
     if length fields < 2 then Inl (ConfigError ''AttitudeOffset reply did not contain heading/pitch values'')
     else
       bind_res (parse_double_prefix (fields ! 0) ''AttitudeOffset.Heading'') (\<lambda>heading.
       bind_res (parse_double_prefix (fields ! 1) ''AttitudeOffset.Pitch'') (\<lambda>pitch.
       if \<not> close_enough heading (heading_deg expected) \<or> \<not> close_enough pitch (pitch_deg expected)
       then Inl (ConfigError ''GNSS attitude offset does not match requested config'')
       else Inr ())))"

section \<open>The code: validation\<close>

definition in_lever_range :: "double \<Rightarrow> bool" where
  "in_lever_range v \<longleftrightarrow> d_le (Fin (-100)) v \<and> d_le v (Fin 100)"

fun build_all :: "SbfStream list \<Rightarrow> int \<Rightarrow> ConfigError + unit" where
  "build_all [] ips = Inr ()"
| "build_all (s # ss) ips = bind_res (build_sbf_output_command s ips) (\<lambda>_. build_all ss ips)"

definition validate_receiver_settings :: "ReceiverSettings \<Rightarrow> ConfigError + unit" where
  "validate_receiver_settings settings =
     (if ips_id settings < 1 \<or> 5 < ips_id settings then Inl (ConfigError ''receiver.ips_id must be in range 1..5'')
      else if \<not> equals_ci (imu_startup_data_mode settings) ''Boot'' \<and>
        \<not> equals_ci (imu_startup_data_mode settings) ''GnssTimeKnown''
      then Inl (ConfigError ''receiver.imu.startup_data_mode must be Boot or GnssTimeKnown'')
      else if \<not> equals_ci (imu_orientation_mode settings) ''SensorDefault'' \<and>
        \<not> equals_ci (imu_orientation_mode settings) ''manual'' \<and>
        \<not> equals_ci (imu_orientation_mode settings) ''fixed''
      then Inl (ConfigError ''receiver.imu.orientation_mode must be SensorDefault, manual, or fixed'')
      else if \<not> ant_lever_arm_configured settings
      then Inl (ConfigError ''receiver.imu.ant_lever_arm_m is required'')
      else if \<not> in_lever_range (vec_x (ant_lever_arm_m settings)) \<or>
        \<not> in_lever_range (vec_y (ant_lever_arm_m settings)) \<or>
        \<not> in_lever_range (vec_z (ant_lever_arm_m settings))
      then Inl (ConfigError ''receiver.imu.ant_lever_arm_m components must be in [-100, 100] meters'')
      else if \<not> equals_ci (gnss_attitude_mode settings) ''none'' \<and>
        \<not> equals_ci (gnss_attitude_mode settings) ''MultiAntenna''
      then Inl (ConfigError ''receiver.gnss_attitude.mode must be none or MultiAntenna'')
      else if cn0_mask_dbhz settings < 0 \<or> 60 < cn0_mask_dbhz settings
      then Inl (ConfigError ''receiver.tracking.cn0_mask_dbhz must be in range 0..60 dB-Hz'')
      else if streams settings = [] then Inl (ConfigError ''receiver.streams must contain at least one stream'')
      else build_all (streams settings) (ips_id settings))"

section \<open>The code: the dialogue\<close>

definition lift_tcp :: "(TcpError, 'a) io \<times> net \<Rightarrow> (exn, 'a) io \<times> net" where
  "lift_tcp x =
     (case x of (Done a, n) \<Rightarrow> (Done a, n) | (Throw e, n) \<Rightarrow> (Throw (Tcp e), n) | (Blocked, n) \<Rightarrow> (Blocked, n))"

definition lift_config :: "ConfigError + 'a \<Rightarrow> (exn, 'a) act" where
  "lift_config x n = (case x of Inl e \<Rightarrow> (Throw (Config e), n) | Inr a \<Rightarrow> (Done a, n))"

definition command_line :: "string \<Rightarrow> byte list" where
  "command_line cmd = bytes_of_string (cmd @ [CHR 0x0D, CHR 0x0A])"

definition send_command :: "string \<Rightarrow> int \<Rightarrow> (exn, string) act" where
  "send_command cmd timeout n =
     bind_io (lift_tcp (write_all (command_line cmd) n)) (\<lambda>_ n1.
     bind_io (lift_tcp (read_until ''>'' timeout 65536 n1)) (\<lambda>reply n2.
     if str_contains ''$R?'' reply \<or> str_contains ''Invalid'' reply
     then (Throw (Config (ConfigError (''receiver rejected '' @ quoted (redact_cmd cmd) @ '': '' @ reply))), n2)
     else (Done reply, n2)))"

definition login :: "string \<Rightarrow> string \<Rightarrow> int \<Rightarrow> (exn, unit) act" where
  "login usr pass timeout n =
     bind_io (lift_tcp (read_until ''>'' timeout 65536 n)) (\<lambda>banner n1.
     bind_io (send_command (''login, '' @ usr @ '', '' @ pass) timeout n1) (\<lambda>reply n2.
     if str_contains ''$R?'' reply then (Throw (Config (ConfigError ''login refused (check credentials)'')), n2)
     else (Done (), n2)))"

definition clear_stream_command :: "nat \<Rightarrow> string" where
  "clear_stream_command i = ''setSBFOutput, Stream'' @ nat_to_string i @ '', none, none, off''"

text \<open>The loop over the ten stream numbers, with \<open>catch (const ConfigError &)\<close>.\<close>

fun clear_streams :: "nat list \<Rightarrow> int \<Rightarrow> (exn, unit) act" where
  "clear_streams [] t n = (Done (), n)"
| "clear_streams (i # is) t n =
     (case send_command (clear_stream_command i) t n of
        (Done _, n1) \<Rightarrow> clear_streams is t n1
      | (Throw (Config _), n1) \<Rightarrow> clear_streams is t n1
      | (Throw (Tcp e), n1) \<Rightarrow> (Throw (Tcp e), n1)
      | (Blocked, n1) \<Rightarrow> (Blocked, n1))"

definition send_and_verify :: "string \<Rightarrow> (string \<Rightarrow> ConfigError + unit) \<Rightarrow> int \<Rightarrow> (exn, unit) act" where
  "send_and_verify cmd check t n =
     bind_io (send_command cmd t n) (\<lambda>reply. lift_config (check reply))"

definition ignore_reply :: "string \<Rightarrow> int \<Rightarrow> (exn, unit) act" where
  "ignore_reply cmd t n = bind_io (send_command cmd t n) (\<lambda>_ n1. (Done (), n1))"

definition check_capabilities :: "ReceiverSettings \<Rightarrow> string \<Rightarrow> ConfigError + unit" where
  "check_capabilities settings reply =
     bind_res (parse_receiver_capabilities_reply reply) (\<lambda>caps.
     if require_aux1 settings \<and> \<not> has_aux1 caps
     then Inl (ConfigError ''receiver capabilities do not include Aux1; dual-antenna collection is not available'')
     else Inr ())"

definition reset_tracking :: "ReceiverSettings \<Rightarrow> int \<Rightarrow> (exn, unit) act" where
  "reset_tracking settings t n =
     (if configure_all_tracking settings then
        bind_io (ignore_reply ''setSatelliteTracking, all'' t n) (\<lambda>_ n1.
        bind_io (ignore_reply ''setSignalTracking, all'' t n1) (\<lambda>_ n2.
        bind_io (ignore_reply ''setSignalUsage, all, all'' t n2) (\<lambda>_ n3.
        ignore_reply (''setCN0Mask, all, '' @ int_to_string (cn0_mask_dbhz settings)) t n3)))
      else (Done (), n))"

fun enable_streams :: "SbfStream list \<Rightarrow> int \<Rightarrow> int \<Rightarrow> (exn, unit) act" where
  "enable_streams [] ips t n = (Done (), n)"
| "enable_streams (s # ss) ips t n =
     (if blocks s = [] then enable_streams ss ips t n
      else
        bind_io (lift_config (build_sbf_output_command s ips) n) (\<lambda>cmd n1.
        bind_io (ignore_reply cmd t n1) (\<lambda>_ n2. enable_streams ss ips t n2)))"

definition ReceiverConfigurator_apply :: "ReceiverSettings \<Rightarrow> int \<Rightarrow> (exn, unit) act" where
  "ReceiverConfigurator_apply settings t n =
     bind_io (lift_config (validate_receiver_settings settings) n) (\<lambda>_ n.
     bind_io (send_and_verify ''getReceiverCapabilities'' (check_capabilities settings) t n) (\<lambda>_ n.
     bind_io (clear_streams [1..<11] t n) (\<lambda>_ n.
     bind_io (ignore_reply (''setIPServerSettings, IPS'' @ int_to_string (ips_id settings) @ '', '' @
       nat_to_string (unat (ips_port settings)) @ '', TCP'') t n) (\<lambda>_ n.
     bind_io (ignore_reply (''setDataInOut, IPS'' @ int_to_string (ips_id settings) @ '', , +SBF'') t n) (\<lambda>_ n.
     bind_io (reset_tracking settings t n) (\<lambda>_ n.
     bind_io (ignore_reply (''setIMUStartupDataMode, '' @ imu_startup_data_mode settings) t n) (\<lambda>_ n.
     bind_io (ignore_reply (set_orientation_command settings) t n) (\<lambda>_ n.
     bind_io (send_and_verify ''getIMUOrientation'' (\<lambda>r. verify_imu_orientation_reply r settings) t n) (\<lambda>_ n.
     bind_io (ignore_reply (build_ins_ant_lever_arm_command (ant_lever_arm_m settings)) t n) (\<lambda>_ n.
     bind_io (send_and_verify ''getINSAntLeverArm''
       (\<lambda>r. verify_ins_ant_lever_arm_reply r (ant_lever_arm_m settings)) t n) (\<lambda>_ n.
     bind_io (ignore_reply (''setGNSSAttitude, '' @ gnss_attitude_mode settings) t n) (\<lambda>_ n.
     bind_io (send_and_verify ''getGNSSAttitude''
       (\<lambda>r. verify_gnss_attitude_reply r (gnss_attitude_mode settings)) t n) (\<lambda>_ n.
     bind_io (ignore_reply (''setAttitudeOffset, '' @ fmt_command_decimal (heading_deg (attitude_offset_deg settings)) @
       '', '' @ fmt_command_decimal (pitch_deg (attitude_offset_deg settings))) t n) (\<lambda>_ n.
     bind_io (send_and_verify ''getAttitudeOffset''
       (\<lambda>r. verify_attitude_offset_reply r (attitude_offset_deg settings)) t n) (\<lambda>_ n.
     enable_streams (streams settings) (ips_id settings) t n)))))))))))))))"

text \<open>\<open>stop_streams\<close>, with \<open>catch (...)\<close> around every command.\<close>

fun stop_loop :: "nat list \<Rightarrow> (exn, unit) act" where
  "stop_loop [] n = (Done (), n)"
| "stop_loop (i # is) n =
     (case send_command (clear_stream_command i) 2000 n of
        (Done _, n1) \<Rightarrow> stop_loop is n1
      | (Throw _, n1) \<Rightarrow> stop_loop is n1
      | (Blocked, n1) \<Rightarrow> (Blocked, n1))"

definition stop_streams :: "ReceiverSettings \<Rightarrow> (exn, unit) act" where
  "stop_streams settings n = stop_loop [1..<11] n"

end
