(* ===== verification/ReceiverDialogue.thy ===== *)
theory ReceiverDialogue
  imports ReceiverConfig
begin

text \<open>
  The dialogue with the receiver. The abstract specification of \<open>apply\<close> is a list of steps, each a
  command with a check of the reply; the code refines it. A port on which commands are sent is
  described by two locales, one for what it logs and one for a port whose peer answers; both are
  interpreted on \<open>send_command\<close> over the socket model.
\<close>

section \<open>Steps\<close>

record step =
  step_cmd :: string
  step_tolerant :: bool \<comment> \<open>a rejection is ignored\<close>
  step_check :: "string \<Rightarrow> ConfigError + unit"

definition plain :: "string \<Rightarrow> step" where
  "plain c = \<lparr>step_cmd = c, step_tolerant = False, step_check = (\<lambda>_. Inr ())\<rparr>"

definition tolerant :: "string \<Rightarrow> step" where
  "tolerant c = \<lparr>step_cmd = c, step_tolerant = True, step_check = (\<lambda>_. Inr ())\<rparr>"

definition verified :: "string \<Rightarrow> (string \<Rightarrow> ConfigError + unit) \<Rightarrow> step" where
  "verified c chk = \<lparr>step_cmd = c, step_tolerant = False, step_check = chk\<rparr>"

lemmas step_defs = plain_def tolerant_def verified_def

fun run_steps :: "(string \<Rightarrow> 'w \<Rightarrow> (exn, string) io \<times> 'w) \<Rightarrow> step list \<Rightarrow> 'w \<Rightarrow> (exn, unit) io \<times> 'w" where
  "run_steps send [] w = (Done (), w)"
| "run_steps send (s # ss) w =
     (case send (step_cmd s) w of
        (Done r, w1) \<Rightarrow>
          (case step_check s r of Inl e \<Rightarrow> (Throw (Config e), w1) | Inr _ \<Rightarrow> run_steps send ss w1)
      | (Throw (Config e), w1) \<Rightarrow> if step_tolerant s then run_steps send ss w1 else (Throw (Config e), w1)
      | (Throw (Tcp e), w1) \<Rightarrow> (Throw (Tcp e), w1)
      | (Blocked, w1) \<Rightarrow> (Blocked, w1))"

definition enable_command :: "int \<Rightarrow> SbfStream \<Rightarrow> string" where
  "enable_command ips s = (case build_sbf_output_command s ips of Inr c \<Rightarrow> c | Inl _ \<Rightarrow> [])"

text \<open>What \<open>apply\<close> does: check, clear the old streams, set up, verify, and only then enable the streams.\<close>

definition setup_plan :: "ReceiverSettings \<Rightarrow> step list" where
  "setup_plan st =
     verified ''getReceiverCapabilities'' (check_capabilities st) #
     map (tolerant \<circ> clear_stream_command) [1..<11] @
     [plain (''setIPServerSettings, IPS'' @ int_to_string (ips_id st) @ '', '' @
        nat_to_string (unat (ips_port st)) @ '', TCP''),
      plain (''setDataInOut, IPS'' @ int_to_string (ips_id st) @ '', , +SBF'')] @
     (if configure_all_tracking st
      then map plain [''setSatelliteTracking, all'', ''setSignalTracking, all'', ''setSignalUsage, all, all'',
        ''setCN0Mask, all, '' @ int_to_string (cn0_mask_dbhz st)]
      else []) @
     [plain (''setIMUStartupDataMode, '' @ imu_startup_data_mode st),
      plain (set_orientation_command st),
      verified ''getIMUOrientation'' (\<lambda>r. verify_imu_orientation_reply r st),
      plain (build_ins_ant_lever_arm_command (ant_lever_arm_m st)),
      verified ''getINSAntLeverArm'' (\<lambda>r. verify_ins_ant_lever_arm_reply r (ant_lever_arm_m st)),
      plain (''setGNSSAttitude, '' @ gnss_attitude_mode st),
      verified ''getGNSSAttitude'' (\<lambda>r. verify_gnss_attitude_reply r (gnss_attitude_mode st)),
      plain (''setAttitudeOffset, '' @ fmt_command_decimal (heading_deg (attitude_offset_deg st)) @
        '', '' @ fmt_command_decimal (pitch_deg (attitude_offset_deg st))),
      verified ''getAttitudeOffset'' (\<lambda>r. verify_attitude_offset_reply r (attitude_offset_deg st))]"

definition stream_plan :: "ReceiverSettings \<Rightarrow> step list" where
  "stream_plan st = map (plain \<circ> enable_command (ips_id st)) (streams st)"

definition plan :: "ReceiverSettings \<Rightarrow> step list" where
  "plan st = setup_plan st @ stream_plan st"

section \<open>The code follows the plan\<close>

lemma run_steps_append: "run_steps send (as @ bs) w = bind_io (run_steps send as w) (\<lambda>_. run_steps send bs)"
  by (induction as arbitrary: w) (auto simp: bind_io_def split: prod.splits io.splits exn.splits sum.splits)

lemma run_steps_Cons: "run_steps send (a # bs) w = bind_io (run_steps send [a] w) (\<lambda>_. run_steps send bs)"
  using run_steps_append [of send "[a]" bs w] by simp

lemma ignore_reply_step: "ignore_reply c t n = run_steps (\<lambda>c. send_command c t) [plain c] n"
  by (auto simp: ignore_reply_def plain_def bind_io_def split: prod.splits io.splits exn.splits)

lemma send_and_verify_step: "send_and_verify c chk t n = run_steps (\<lambda>c. send_command c t) [verified c chk] n"
  by (auto simp: send_and_verify_def verified_def bind_io_def lift_config_def
      split: prod.splits io.splits exn.splits sum.splits)

lemma clear_streams_steps:
  "clear_streams is t n = run_steps (\<lambda>c. send_command c t) (map (tolerant \<circ> clear_stream_command) is) n"
  by (induction "is" arbitrary: n) (auto simp: tolerant_def split: prod.splits io.splits exn.splits)

lemma reset_tracking_steps:
  "reset_tracking st t n = run_steps (\<lambda>c. send_command c t)
     (if configure_all_tracking st
      then map plain [''setSatelliteTracking, all'', ''setSignalTracking, all'', ''setSignalUsage, all, all'',
        ''setCN0Mask, all, '' @ int_to_string (cn0_mask_dbhz st)]
      else []) n"
  unfolding reset_tracking_def ignore_reply_step
  by (simp del: run_steps.simps(2) flip: run_steps_Cons)

lemma build_all_ok:
  "build_all ss ips = Inr () \<Longrightarrow> s \<in> set ss \<Longrightarrow> build_sbf_output_command s ips = Inr (enable_command ips s)"
  by (induction ss) (auto simp: bind_res_eq_Inr enable_command_def)

lemma build_blocks: "build_sbf_output_command s ips = Inr c \<Longrightarrow> blocks s \<noteq> []"
  by (auto simp: build_sbf_output_command_def split: if_splits)

lemma enable_streams_steps:
  assumes "\<forall>s \<in> set ss. build_sbf_output_command s ips = Inr (enable_command ips s)"
  shows "enable_streams ss ips t n = run_steps (\<lambda>c. send_command c t) (map (plain \<circ> enable_command ips) ss) n"
  using assms
proof (induction ss arbitrary: n)
  case (Cons s ss)
  then have b: "build_sbf_output_command s ips = Inr (enable_command ips s)" by simp
  then have "enable_streams (s # ss) ips t n =
      bind_io (run_steps (\<lambda>c. send_command c t) [plain (enable_command ips s)] n) (\<lambda>_ n. enable_streams ss ips t n)"
    using build_blocks [OF b] by (simp add: lift_config_def ignore_reply_step del: run_steps.simps(2))
  also have "\<dots> = bind_io (run_steps (\<lambda>c. send_command c t) [plain (enable_command ips s)] n)
      (\<lambda>_. run_steps (\<lambda>c. send_command c t) (map (plain \<circ> enable_command ips) ss))"
    using Cons by (simp add: comp_def del: run_steps.simps(2))
  also have "\<dots> = run_steps (\<lambda>c. send_command c t) (map (plain \<circ> enable_command ips) (s # ss)) n"
    by (simp del: run_steps.simps(2) flip: run_steps_Cons)
  finally show ?case .
qed simp

lemma validate_build:
  "validate_receiver_settings st = Inr () \<Longrightarrow> build_all (streams st) (ips_id st) = Inr ()"
  by (simp add: validate_receiver_settings_def split: if_splits)

lemma apply_plan:
  assumes "validate_receiver_settings st = Inr ()"
  shows "ReceiverConfigurator_apply st t n = run_steps (\<lambda>c. send_command c t) (plan st) n"
proof -
  have enable: "enable_streams (streams st) (ips_id st) t n =
      run_steps (\<lambda>c. send_command c t) (stream_plan st) n" for n
    unfolding stream_plan_def
    by (rule enable_streams_steps) (use build_all_ok [OF validate_build [OF assms]] in blast)
  show ?thesis
    unfolding ReceiverConfigurator_apply_def lift_config_def assms sum.case bind_io_simps enable
      ignore_reply_step send_and_verify_step clear_streams_steps reset_tracking_steps
    unfolding run_steps_append [symmetric] plan_def setup_plan_def
    by (simp only: append_Cons append_Nil append_assoc)
qed

section \<open>Ports\<close>

definition script_of :: "step list \<Rightarrow> byte list" where
  "script_of ss = concat (map (command_line \<circ> step_cmd) ss)"

lemma script_of_simps [simp]:
  "script_of [] = []" "script_of (s # ss) = command_line (step_cmd s) @ script_of ss"
  "script_of (ss @ rs) = script_of ss @ script_of rs"
  by (simp_all add: script_of_def)

text \<open>A port that logs what is sent: a command is logged whole when a reply was seen, partly otherwise.\<close>

locale command_port =
  fixes send :: "string \<Rightarrow> 'w \<Rightarrow> (exn, string) io \<times> 'w"
    and log :: "'w \<Rightarrow> byte list"
  assumes send_part: "send c w = (r, w') \<Longrightarrow> \<exists>k. log w' = log w @ take k (command_line c)"
    and send_whole: "send c w = (r, w') \<Longrightarrow> (\<exists>s. r = Done s) \<or> (\<exists>e. r = Throw (Config e)) \<Longrightarrow>
      log w' = log w @ command_line c"
begin

text \<open>Running steps sends the commands in order; a normal end has sent them all.\<close>

lemma run_steps_log:
  "run_steps send ss w = (r, w') \<Longrightarrow>
     (\<exists>k. log w' = log w @ take k (script_of ss)) \<and> (r = Done () \<longrightarrow> log w' = log w @ script_of ss)"
proof (induction ss arbitrary: w)
  case (Cons s ss)
  obtain q w1 where send: "send (step_cmd s) w = (q, w1)" by fastforce
  let ?l = "command_line (step_cmd s)"
  show ?case
  proof (cases "run_steps send (s # ss) w = run_steps send ss w1 \<and>
      ((\<exists>a. q = Done a) \<or> (\<exists>e. q = Throw (Config e)))")
    case True
    then have "log w1 = log w @ ?l" using send_whole [OF send] by blast
    moreover have "run_steps send ss w1 = (r, w')" using Cons.prems True by simp
    with Cons.IH obtain k where "log w' = log w1 @ take k (script_of ss)"
      "r = Done () \<longrightarrow> log w' = log w1 @ script_of ss"
      by blast
    ultimately show ?thesis by (intro conjI exI [of _ "length ?l + k"]) auto
  next
    case False
    then have "w' = w1" "r \<noteq> Done ()"
      using Cons.prems send by (auto split: io.splits exn.splits sum.splits if_splits)
    moreover obtain k where "log w1 = log w @ take k ?l" using send_part [OF send] by blast
    ultimately show ?thesis
      by (intro conjI exI [of _ "min k (length ?l)"]) (auto simp: min_def)
  qed
qed simp

end

text \<open>A port whose peer gives the replies \<open>rs\<close>, one per command, to commands that fit.\<close>

definition rejected :: "string \<Rightarrow> bool" where
  "rejected r \<longleftrightarrow> str_contains ''$R?'' r \<or> str_contains ''Invalid'' r"

definition accepts :: "step \<Rightarrow> string \<Rightarrow> bool" where
  "accepts s r \<longleftrightarrow> (if rejected r then step_tolerant s else step_check s r = Inr ())"

locale answering_port = command_port send log
  for send :: "string \<Rightarrow> 'w \<Rightarrow> (exn, string) io \<times> 'w" and log :: "'w \<Rightarrow> byte list" +
  fixes ready :: "string list \<Rightarrow> 'w \<Rightarrow> bool"
    and fits :: "string \<Rightarrow> bool"
  assumes answer: "ready (r # rs) w \<Longrightarrow> fits c \<Longrightarrow>
      \<exists>w'. ready rs w' \<and>
        (if rejected r then \<exists>e. send c w = (Throw (Config e), w') else send c w = (Done r, w'))"
begin

lemma run_steps_completes:
  assumes "ready (rs @ later) w" and "list_all2 accepts ss rs" and "\<forall>s \<in> set ss. fits (step_cmd s)"
  shows "\<exists>w'. run_steps send ss w = (Done (), w') \<and> ready later w' \<and> log w' = log w @ script_of ss"
proof -
  have "\<exists>w'. run_steps send ss w = (Done (), w') \<and> ready later w'"
    using assms
  proof (induction ss arbitrary: rs w)
    case (Cons s ss)
    then obtain r rs' where rs: "rs = r # rs'" "accepts s r" "list_all2 accepts ss rs'"
      by (auto simp: list_all2_Cons1)
    with answer [of r "rs' @ later" w "step_cmd s"] Cons.prems obtain w1 where w1: "ready (rs' @ later) w1"
      "if rejected r then \<exists>e. send (step_cmd s) w = (Throw (Config e), w1) else send (step_cmd s) w = (Done r, w1)"
      by auto
    with Cons.IH [OF w1(1) rs(3)] Cons.prems(3) rs(2) show ?case
      by (auto simp: accepts_def split: if_splits)
  qed simp
  with run_steps_log show ?thesis by blast
qed

end

section \<open>The control connection is such a port\<close>

lemma write_all_log: "write_all buf n = (r, n') \<Longrightarrow> \<exists>k. sent n' = sent n @ take k buf \<and> (r = Done () \<longrightarrow> length buf \<le> k)"
  using send_loop_sent [of buf n r n'] by (auto simp: write_all_def split: if_splits intro: exI [of _ 0])

lemma read_until_frame: "read_until pat t mx n = (r, n') \<Longrightarrow> rx_frame n' = rx_frame n"
proof -
  assume a: "read_until pat t mx n = (r, n')"
  obtain t0 n1 where c: "clock_now n = (t0, n1)" by fastforce
  have "read_until_loop pat mx (t0 + t * 1000000) [] n1 = (r, n')"
    using a c by (simp add: read_until_def)
  from read_until_loop_law [OF this] clock_now_law [OF c] show ?thesis by auto
qed

lemma read_until_log: "read_until pat t mx n = (r, n') \<Longrightarrow> sent n' = sent n"
  using read_until_frame [of pat t mx n r n'] rx_frame_fields [of n' n] by simp

lemma send_command_log:
  assumes "send_command c t n = (r, n')"
  shows "\<exists>k. sent n' = sent n @ take k (command_line c)"
    and "(\<exists>s. r = Done s) \<or> (\<exists>e. r = Throw (Config e)) \<Longrightarrow> sent n' = sent n @ command_line c"
proof -
  obtain w1 n1 where w: "write_all (command_line c) n = (w1, n1)" by fastforce
  obtain r2 n2 where rd: "read_until ''>'' t 65536 n1 = (r2, n2)" by fastforce
  note l = write_all_log [OF w] read_until_log [OF rd]
  have "n' = n1 \<or> n' = n2"
    using assms w rd by (cases w1; cases r2) (auto simp: send_command_def lift_tcp_def split: if_splits)
  with l show "\<exists>k. sent n' = sent n @ take k (command_line c)" by metis
  assume "(\<exists>s. r = Done s) \<or> (\<exists>e. r = Throw (Config e))"
  then show "sent n' = sent n @ command_line c"
    using assms l w rd by (cases w1; cases r2) (auto simp: send_command_def lift_tcp_def split: if_splits)
qed

interpretation ctrl: command_port "\<lambda>c. send_command c t" sent for t
  by unfold_locales (use send_command_log in blast)+

text \<open>
  A peer that answers: every reply arrives in pieces whose last one brings the first prompt character,
  the socket takes every command of up to \<open>l\<close> bytes at once, and no more time than \<open>t\<close> milliseconds
  passes in all.
\<close>

definition good_reply :: "byte list list \<Rightarrow> bool" where
  "good_reply cs \<longleftrightarrow>
     (\<forall>c \<in> set cs. c \<noteq> [] \<and> length c \<le> 512) \<and>
     (\<forall>k < length cs. \<not> str_contains ''>'' (string_of_bytes (concat (take k cs)))) \<and>
     str_contains ''>'' (string_of_bytes (concat cs)) \<and> length (concat cs) \<le> 65536"

definition ctrl_ready :: "int \<Rightarrow> nat \<Rightarrow> string list \<Rightarrow> net \<Rightarrow> bool" where
  "ctrl_ready t l rs n \<longleftrightarrow>
     0 \<le> fd n \<and>
     (\<exists>css. rs = map (string_of_bytes \<circ> concat) css \<and> (\<forall>cs \<in> set css. good_reply cs) \<and>
        polls n = replicate (length (concat css)) Poll_ready \<and> recvs n = map Received (concat css)) \<and>
     length rs \<le> length (sends n) \<and> (\<forall>r \<in> set (sends n). \<exists>k \<ge> l. r = Sent k) \<and>
     (\<forall>i j. clock n i < clock n j + t * 1000000)"

lemma write_all_at_once:
  assumes "0 \<le> fd n" and "p \<noteq> []" and "sends n = Sent k # ks" and "length p \<le> k"
  shows "write_all p n = (Done (), n\<lparr>sends := ks, sent := sent n @ p\<rparr>)"
  using assms by (simp add: write_all_def send_loop.simps [of p n])

lemma read_reply:
  assumes "good_reply cs" and "polls n = replicate (length cs) Poll_ready @ ps" and "recvs n = map Received cs @ rs"
    and "0 \<le> fd n" and "\<forall>i j. clock n i < clock n j + t * 1000000"
  shows "read_until ''>'' t 65536 n = (Done (string_of_bytes (concat cs)),
     n\<lparr>polls := ps, recvs := rs, clock_reads := Suc (clock_reads n) + length cs\<rparr>)"
proof -
  let ?d = "clock n (clock_reads n) + t * 1000000"
  let ?n2 = "n\<lparr>clock_reads := Suc (clock_reads n)\<rparr>"
  have "read_until_loop ''>'' 65536 ?d [] ?n2 = (Done ([] @ string_of_bytes (concat cs)),
      ?n2\<lparr>polls := ps, recvs := rs, clock_reads := clock_reads ?n2 + length cs\<rparr>)"
    using assms by (intro read_until_loop_delivers) (simp_all add: good_reply_def)
  then show ?thesis by (simp add: read_until_def clock_now_def)
qed

lemma ctrl_answer:
  assumes "ctrl_ready t l (r # rs) n" and "length (command_line c) \<le> l"
  shows "\<exists>n'. ctrl_ready t l rs n' \<and>
     (if rejected r then \<exists>e. send_command c t n = (Throw (Config e), n') else send_command c t n = (Done r, n'))"
proof -
  obtain cs css where css: "r = string_of_bytes (concat cs)" "rs = map (string_of_bytes \<circ> concat) css"
      "good_reply cs" "\<forall>cs \<in> set css. good_reply cs"
      "polls n = replicate (length cs) Poll_ready @ replicate (length (concat css)) Poll_ready"
      "recvs n = map Received cs @ map Received (concat css)"
    using assms(1) by (auto simp: ctrl_ready_def Cons_eq_map_conv replicate_add)
  obtain k ks where ks: "sends n = Sent k # ks" "length (command_line c) \<le> k"
    using assms by (cases "sends n") (auto simp: ctrl_ready_def)
  have len: "length rs \<le> length ks" "\<forall>r \<in> set ks. \<exists>k \<ge> l. r = Sent k" "0 \<le> fd n"
    "\<forall>i j. clock n i < clock n j + t * 1000000"
    using assms(1) ks(1) by (auto simp: ctrl_ready_def)
  let ?n1 = "n\<lparr>sends := ks, sent := sent n @ command_line c\<rparr>"
  have w: "write_all (command_line c) n = (Done (), ?n1)"
    using ks len(3) by (intro write_all_at_once) (simp_all add: command_line_def bytes_of_string_def)
  let ?n3 = "?n1\<lparr>polls := replicate (length (concat css)) Poll_ready, recvs := map Received (concat css),
     clock_reads := Suc (clock_reads n) + length cs\<rparr>"
  have rd: "read_until ''>'' t 65536 ?n1 = (Done r, ?n3)"
    using read_reply [OF css(3), of ?n1] css(1,5,6) len(3,4) by simp
  have "ctrl_ready t l rs ?n3"
    using css(2,4) len by (auto simp: ctrl_ready_def)
  then show ?thesis
    by (intro exI [of _ ?n3]) (simp add: send_command_def lift_tcp_def w rd rejected_def)
qed

interpretation ctrl_up: answering_port "\<lambda>c. send_command c t" sent "ctrl_ready t l"
  "\<lambda>c. length (command_line c) \<le> l" for t l
  by unfold_locales (use ctrl_answer in blast)

section \<open>Stopping\<close>

lemma stop_loop_never_throws: "stop_loop is n \<noteq> (Throw e, n')"
  by (induction "is" arbitrary: n) (auto split: prod.splits io.splits)

section \<open>A whole session\<close>

lemma ctrl_ready_mono: "ctrl_ready t l rs n \<Longrightarrow> t \<le> t' \<Longrightarrow> ctrl_ready t' l rs n"
proof -
  assume r: "ctrl_ready t l rs n" and t: "t \<le> t'"
  have "clock n i < clock n j + t' * 1000000" for i j
  proof -
    have "clock n i < clock n j + t * 1000000" using r by (simp add: ctrl_ready_def)
    with t show ?thesis by linarith
  qed
  with r show ?thesis by (simp add: ctrl_ready_def)
qed

lemma read_banner:
  assumes "ctrl_ready t l (b # rs) n"
  shows "\<exists>n'. read_until ''>'' t 65536 n = (Done b, n') \<and> ctrl_ready t l rs n'"
proof -
  obtain cs css where css: "b = string_of_bytes (concat cs)" "rs = map (string_of_bytes \<circ> concat) css"
      "good_reply cs" "\<forall>cs \<in> set css. good_reply cs"
      "polls n = replicate (length cs) Poll_ready @ replicate (length (concat css)) Poll_ready"
      "recvs n = map Received cs @ map Received (concat css)"
    using assms by (auto simp: ctrl_ready_def Cons_eq_map_conv replicate_add)
  let ?n = "n\<lparr>polls := replicate (length (concat css)) Poll_ready, recvs := map Received (concat css),
     clock_reads := Suc (clock_reads n) + length cs\<rparr>"
  have "read_until ''>'' t 65536 n = (Done b, ?n)"
    unfolding css(1) using assms css(3,5,6) by (intro read_reply) (simp_all add: ctrl_ready_def)
  moreover have "ctrl_ready t l rs ?n" using assms css(2,4) by (auto simp: ctrl_ready_def)
  ultimately show ?thesis by blast
qed

lemma login_completes:
  assumes "ctrl_ready t l (b # r # rs) n" and "\<not> rejected r"
    and "length (command_line (''login, '' @ usr @ '', '' @ pass)) \<le> l"
  shows "\<exists>n'. login usr pass t n = (Done (), n') \<and> ctrl_ready t l rs n'"
proof -
  obtain n1 where n1: "read_until ''>'' t 65536 n = (Done b, n1)" "ctrl_ready t l (r # rs) n1"
    using read_banner [OF assms(1)] by blast
  obtain n2 where n2: "send_command (''login, '' @ usr @ '', '' @ pass) t n1 = (Done r, n2)" "ctrl_ready t l rs n2"
    using ctrl_answer [OF n1(2) assms(3)] assms(2) by auto
  have "\<not> str_contains ''$R?'' r" using assms(2) by (simp add: rejected_def)
  with n1(1) n2 show ?thesis by (simp add: login_def lift_tcp_def)
qed

lemma stop_loop_completes:
  assumes "ctrl_ready 2000 l (rs @ later) n" and "length rs = length is"
    and "\<forall>i \<in> set is. length (command_line (clear_stream_command i)) \<le> l"
  shows "\<exists>n'. stop_loop is n = (Done (), n') \<and> ctrl_ready 2000 l later n'"
  using assms
proof (induction "is" arbitrary: rs n)
  case (Cons i "is")
  then obtain r rs' where rs: "rs = r # rs'" by (cases rs) auto
  with ctrl_answer [of 2000 l r "rs' @ later" n "clear_stream_command i"] Cons.prems obtain n1 where
    n1: "ctrl_ready 2000 l (rs' @ later) n1"
      "if rejected r then \<exists>e. send_command (clear_stream_command i) 2000 n = (Throw (Config e), n1)
       else send_command (clear_stream_command i) 2000 n = (Done r, n1)"
    by auto
  with Cons.IH [OF n1(1)] Cons.prems rs show ?case by (auto split: if_splits)
qed simp

section \<open>What a dialogue keeps\<close>

text \<open>A port of which a command changes only the traffic, and not the part \<open>keeps\<close> of the state.\<close>

locale keeping_port =
  fixes send :: "string \<Rightarrow> 'w \<Rightarrow> (exn, string) io \<times> 'w"
    and keeps :: "'w \<Rightarrow> 'k"
  assumes send_keeps: "send c w = (r, w') \<Longrightarrow> keeps w' = keeps w"
begin

lemma run_steps_keeps: "run_steps send ss w = (r, w') \<Longrightarrow> keeps w' = keeps w"
proof (induction ss arbitrary: w)
  case (Cons s ss)
  obtain q w1 where send: "send (step_cmd s) w = (q, w1)" by fastforce
  with Cons.prems have "w' = w1 \<or> run_steps send ss w1 = (r, w')"
    by (auto split: io.splits exn.splits sum.splits if_splits)
  with Cons.IH send_keeps [OF send] show ?case by metis
qed simp

end

definition connection :: "net \<Rightarrow> int \<times> int list \<times> (nat \<Rightarrow> int)" where
  "connection n = (fd n, open_fds n, clock n)"

lemma write_all_connection: "write_all buf n = (r, n') \<Longrightarrow> connection n' = connection n"
proof -
  assume "write_all buf n = (r, n')"
  then have "n'\<lparr>sends := [], sent := []\<rparr> = n\<lparr>sends := [], sent := []\<rparr>"
    using send_loop_sent [of buf n r n'] by (auto simp: write_all_def split: if_splits)
  then show ?thesis by (cases n; cases n') (simp add: connection_def)
qed

lemma read_until_connection: "read_until pat t mx n = (r, n') \<Longrightarrow> connection n' = connection n"
proof -
  assume "read_until pat t mx n = (r, n')"
  then have "rx_frame n' = rx_frame n" by (rule read_until_frame)
  then show ?thesis by (cases n; cases n') (simp add: connection_def rx_frame_def)
qed

lemma send_command_connection: "send_command c t n = (r, n') \<Longrightarrow> connection n' = connection n"
proof -
  assume a: "send_command c t n = (r, n')"
  obtain w1 n1 where w: "write_all (command_line c) n = (w1, n1)" by fastforce
  obtain r2 n2 where rd: "read_until ''>'' t 65536 n1 = (r2, n2)" by fastforce
  have "n' = n1 \<or> n' = n2"
    using a w rd by (cases w1; cases r2) (auto simp: send_command_def lift_tcp_def split: if_splits)
  with write_all_connection [OF w] read_until_connection [OF rd] show ?thesis by auto
qed

interpretation ctrl_keeps: keeping_port "\<lambda>c. send_command c t" connection for t
  by unfold_locales (rule send_command_connection)

lemma login_connection: "login usr pass t n = (r, n') \<Longrightarrow> connection n' = connection n"
proof -
  assume a: "login usr pass t n = (r, n')"
  obtain q n1 where b: "read_until ''>'' t 65536 n = (q, n1)" by fastforce
  obtain p n2 where c: "send_command (''login, '' @ usr @ '', '' @ pass) t n1 = (p, n2)" by fastforce
  have "n' = n1 \<or> n' = n2"
    using a b c by (cases q; cases p) (auto simp: login_def lift_tcp_def split: if_splits)
  with read_until_connection [OF b] send_command_connection [OF c] show ?thesis by auto
qed

lemma stop_loop_connection: "stop_loop is n = (r, n') \<Longrightarrow> connection n' = connection n"
proof (induction "is" arbitrary: n)
  case (Cons i "is")
  obtain q n1 where c: "send_command (clear_stream_command i) 2000 n = (q, n1)" by fastforce
  with Cons.prems have "n' = n1 \<or> stop_loop is n1 = (r, n')" by (auto split: io.splits)
  with Cons.IH send_command_connection [OF c] show ?case by metis
qed simp

lemma apply_connection: "ReceiverConfigurator_apply st t n = (r, n') \<Longrightarrow> connection n' = connection n"
proof (cases "validate_receiver_settings st = Inr ()")
  case True
  assume "ReceiverConfigurator_apply st t n = (r, n')"
  then show ?thesis using ctrl_keeps.run_steps_keeps apply_plan [OF True] by metis
next
  case False
  assume "ReceiverConfigurator_apply st t n = (r, n')"
  with False show ?thesis
    by (cases "validate_receiver_settings st") (simp_all add: ReceiverConfigurator_apply_def lift_config_def)
qed

lemma ctrl_ready_sooner:
  "ctrl_ready t l rs n' \<Longrightarrow> connection n' = connection n \<Longrightarrow> ctrl_ready u l rs0 n \<Longrightarrow> ctrl_ready u l rs n'"
  by (simp add: ctrl_ready_def connection_def)

end
