(* ===== verification/ReceiverConfigProps.thy ===== *)
theory ReceiverConfigProps
  imports ReceiverDialogue
begin

text \<open>
  Properties of the receiver configuration: text round trips of numbers and fields, what the
  verification of a reply accepts, and what the dialogue sends.
\<close>

section \<open>Fields\<close>

lemma takeWhile_sep: "sep \<notin> set f \<Longrightarrow> takeWhile (\<lambda>x. x \<noteq> sep) (f @ sep # r) = f"
  by (induction f) auto

lemma dropWhile_sep: "sep \<notin> set f \<Longrightarrow> dropWhile (\<lambda>x. x \<noteq> sep) (f @ sep # r) = sep # r"
  by (induction f) auto

lemma getlines_Nil [simp]: "getlines sep [] = []"
  by (simp add: getlines.simps)

lemma getlines_sep: "sep \<notin> set f \<Longrightarrow> getlines sep (f @ sep # r) = f # getlines sep r"
  by (subst getlines.simps) (simp add: takeWhile_sep dropWhile_sep)

lemma getlines_last: "sep \<notin> set f \<Longrightarrow> f \<noteq> [] \<Longrightarrow> getlines sep f = [f]"
proof -
  assume a: "sep \<notin> set f" "f \<noteq> []"
  then have "takeWhile (\<lambda>x. x \<noteq> sep) f = f" "dropWhile (\<lambda>x. x \<noteq> sep) f = []"
    by (auto simp: takeWhile_eq_all_conv dropWhile_eq_Nil_conv)
  with a(2) show ?thesis by (subst getlines.simps) (simp only: if_False drop_Nil getlines_Nil)
qed

text \<open>Texts without white space at their ends.\<close>

definition trimmed :: "string \<Rightarrow> bool" where
  "trimmed s \<longleftrightarrow> s \<noteq> [] \<and> \<not> is_space (hd s) \<and> \<not> is_space (last s)"

lemma trim_trimmed: "trimmed s \<Longrightarrow> trim s = s"
proof -
  assume t: "trimmed s"
  then have "dropWhile is_space s = s" by (cases s) (auto simp: trimmed_def)
  moreover have "dropWhile is_space (rev s) = rev s"
    using t by (cases "rev s") (auto simp: trimmed_def last_rev hd_rev dest: arg_cong [where f = rev])
  ultimately show ?thesis by (simp add: trim_def)
qed

lemma trim_space: "is_space c \<Longrightarrow> trim (c # s) = trim s"
  by (simp add: trim_def)

lemma trim_space_end:
  assumes "is_space c"
  shows "trim (s @ [c]) = trim s"
proof (cases "\<forall>x \<in> set s. is_space x")
  case True
  then have "dropWhile is_space (s @ [c]) = []" "dropWhile is_space s = []"
    using assms by (simp_all only: dropWhile_eq_Nil_conv set_append) auto
  then show ?thesis by (simp only: trim_def)
next
  case False
  then have "dropWhile is_space (s @ [c]) = dropWhile is_space s @ [c]" by (auto simp: dropWhile_append)
  then show ?thesis using assms by (simp add: trim_def)
qed

fun csv :: "string list \<Rightarrow> string" where
  "csv [] = []"
| "csv [f] = f"
| "csv (f # g # fs) = f @ '', '' @ csv (g # fs)"

lemma csv_nonempty: "fs \<noteq> [] \<Longrightarrow> \<forall>f \<in> set fs. trimmed f \<Longrightarrow> csv fs \<noteq> []"
  by (induction fs rule: csv.induct) (auto simp: trimmed_def)

lemma split_space: "s \<noteq> [] \<Longrightarrow> split (CHR '' '' # s) (CHR '','') = split s (CHR '','')"
  by (simp add: split_def getlines.simps [of _ "CHR '' '' # s"] getlines.simps [of _ s] trim_space is_space_def)

lemma split_csv:
  assumes "\<forall>f \<in> set fs. trimmed f \<and> CHR '','' \<notin> set f"
  shows "split (csv fs) (CHR '','') = fs"
  using assms
proof (induction fs rule: csv.induct)
  case 1
  then show ?case by (simp add: split_def)
next
  case (2 f)
  then show ?case by (simp add: split_def getlines_last trimmed_def) (simp add: trim_trimmed trimmed_def)
next
  case (3 f g fs)
  have "split (csv (f # g # fs)) (CHR '','') = trim f # split (CHR '' '' # csv (g # fs)) (CHR '','')"
    using 3(2) getlines_sep [of "CHR '',''" f "CHR '' '' # csv (g # fs)"] by (simp add: split_def)
  also have "split (CHR '' '' # csv (g # fs)) (CHR '','') = split (csv (g # fs)) (CHR '','')"
    using csv_nonempty [of "g # fs"] 3(2) by (intro split_space) auto
  also have "\<dots> = g # fs" using 3 by simp
  finally show ?case using 3(2) by (simp add: trim_trimmed)
qed

text \<open>A reply in which a line \<open>key, payload\<close> follows lines that do not start with the key.\<close>

definition reply_with :: "string list \<Rightarrow> string \<Rightarrow> string \<Rightarrow> string \<Rightarrow> string" where
  "reply_with ls key payload rest =
     concat (map (\<lambda>l. l @ [CHR 0x0A]) ls) @ key @ '', '' @ payload @ [CHR 0x0D, CHR 0x0A] @ rest"

definition before_key :: "string list \<Rightarrow> string \<Rightarrow> bool" where
  "before_key ls key \<longleftrightarrow> (\<forall>l \<in> set ls. CHR 0x0A \<notin> set l \<and> \<not> starts_with_ci (trim l) (key @ '',''))"

lemma find_reply_with:
  assumes "before_key ls key" and "trimmed key" and "trimmed payload"
    and "CHR 0x0A \<notin> set key" and "CHR 0x0A \<notin> set payload"
  shows "find_config_line_payload (reply_with ls key payload rest) key = Inr payload"
proof -
  let ?line = "key @ '', '' @ payload"
  have lines: "getlines (CHR 0x0A) (concat (map (\<lambda>l. l @ [CHR 0x0A]) ls) @ r) = ls @ getlines (CHR 0x0A) r" for r
    using assms(1) by (induction ls) (simp_all add: before_key_def getlines_sep)
  have "trimmed ?line" using assms(2,3) by (auto simp: trimmed_def)
  moreover have "is_space (CHR 0x0D)" by (simp add: is_space_def)
  ultimately have tl: "trim (?line @ [CHR 0x0D]) = ?line"
    by (simp only: trim_space_end trim_trimmed)
  have "find_line (key @ '','') (ls @ (?line @ [CHR 0x0D]) # r) = Some payload" for r
  proof -
    have "find_line (key @ '','') (ls @ q) = find_line (key @ '','') q" for q
      using assms(1) by (induction ls) (simp_all add: before_key_def)
    moreover have "starts_with_ci ?line (key @ '','')" by (simp add: starts_with_ci_def)
    moreover have "trim (CHR '' '' # payload) = payload"
      using assms(3) by (simp add: trim_space is_space_def trim_trimmed)
    ultimately show ?thesis by (simp only: find_line.simps tl) simp
  qed
  moreover have "CHR 0x0A \<notin> set (?line @ [CHR 0x0D])" using assms(4,5) by simp
  then have "getlines (CHR 0x0A) ((?line @ [CHR 0x0D]) @ CHR 0x0A # rest) =
      (?line @ [CHR 0x0D]) # getlines (CHR 0x0A) rest"
    by (rule getlines_sep)
  ultimately show ?thesis
    unfolding find_config_line_payload_def reply_with_def using lines by simp
qed

section \<open>Numbers\<close>

lemma fmt_zero_limit: "\<exists>z. round_double (5 / 10000) = Fin z \<and> \<bar>z - 5 / 10000\<bar> \<le> 1 / 10 ^ 7"
  by (rule round_double_near) simp

lemma close_limit: "\<exists>z. round_double (1 / 1000) = Fin z \<and> \<bar>z - 1 / 1000\<bar> \<le> 1 / 10 ^ 7"
  by (rule round_double_near) simp

text \<open>A value as it is sent and read back is near the configured one.\<close>

lemma fmt_parse:
  assumes "\<bar>v\<bar> \<le> 10 ^ 6"
  shows "\<exists>v'. parse_double (fmt_command_decimal (Fin v)) = Some (Fin v') \<and> \<bar>v' - v\<bar> \<le> 6 / 10000"
proof -
  obtain z where z: "round_double (5 / 10000) = Fin z" "\<bar>z - 5 / 10000\<bar> \<le> 1 / 10 ^ 7"
    using fmt_zero_limit by blast
  show ?thesis
  proof (cases "\<bar>v\<bar> < z")
    case True
    have "z \<le> 5 / 10000 + 1 / 10 ^ 7" using z(2) by linarith
    also have "\<dots> \<le> 6 / 10000" by simp
    finally have "\<bar>0 - v\<bar> \<le> 6 / 10000" using True by simp
    moreover have "round_half_even 0 = 0" using round_half_even_int [of 0] by (simp only: of_int_0)
    then have "parse_double (print_fixed 3 (Fin 0)) = Some (Fin 0)"
      using parse_fixed_decimal [of 3 False 0] by (simp add: round_double_def round_rat_def Let_def)
    ultimately show ?thesis using True z(1) by (auto simp: fmt_command_decimal_def)
  next
    case False
    then show ?thesis using parse_print_fixed [OF assms] z(1) by (simp add: fmt_command_decimal_def)
  qed
qed

lemma close_enough_near:
  assumes "\<bar>a - b\<bar> \<le> 6 / 10000"
  shows "close_enough (Fin a) (Fin b)"
proof -
  have p7: "(10::rat) ^ 7 = 10000000" by simp
  then have "\<bar>a - b\<bar> \<le> 10 ^ 7" using assms by linarith
  from round_double_near [OF this] obtain d where
    d: "round_double (a - b) = Fin d" "\<bar>d - (a - b)\<bar> \<le> 1 / 10 ^ 7" by blast
  obtain z where z: "round_double (1 / 1000) = Fin z" "\<bar>z - 1 / 1000\<bar> \<le> 1 / 10 ^ 7" using close_limit by blast
  have "\<bar>d\<bar> \<le> z" using d(2) z(2) assms unfolding p7 by linarith
  with d z show ?thesis by (simp add: close_enough_def)
qed

lemma close_enough_sound:
  assumes "close_enough a b"
  shows "\<exists>x y. a = Fin x \<and> b = Fin y \<and> \<bar>x - y\<bar> \<le> 11 / 10000"
proof -
  obtain z where z: "round_double (1 / 1000) = Fin z" "\<bar>z - 1 / 1000\<bar> \<le> 1 / 10 ^ 7" using close_limit by blast
  have le: "d_le (d_abs (d_sub a b)) (Fin z)" using assms z(1) by (simp add: close_enough_def)
  then obtain x y where fin: "a = Fin x" "b = Fin y" by (cases a; cases b) auto
  let ?d = "round_rat (x - y)"
  have "\<bar>?d\<bar> \<le> z" using le by (auto simp: fin round_double_def Let_def split: if_splits)
  moreover have "\<bar>?d - (x - y)\<bar> \<le> \<bar>x - y\<bar> * (1 / 10 ^ 15) + 1 / 10 ^ 15"
    using round_rat_error [of "x - y"] rounding_bounds mult_left_mono [OF rounding_bounds(1), of "\<bar>x - y\<bar>"]
    by linarith
  moreover have "\<bar>x - y\<bar> \<le> \<bar>?d\<bar> + \<bar>?d - (x - y)\<bar>" by linarith
  moreover have "z \<le> 1 / 1000 + 1 / 10 ^ 7" using z(2) by linarith
  ultimately have "\<bar>x - y\<bar> \<le> 1 / 1000 + 1 / 10 ^ 7 + (\<bar>x - y\<bar> * (1 / 10 ^ 15) + 1 / 10 ^ 15)"
    by linarith
  then have "\<bar>x - y\<bar> \<le> 11 / 10000" by simp
  with fin show ?thesis by blast
qed

text \<open>A word: no white space and no comma, so that it survives as a field of a line.\<close>

definition wordy :: "string \<Rightarrow> bool" where
  "wordy s \<longleftrightarrow> s \<noteq> [] \<and> (\<forall>c \<in> set s. \<not> is_space c \<and> c \<noteq> CHR '','')"

lemma wordy_field:
  assumes "wordy s"
  shows "trimmed s" and "CHR '','' \<notin> set s" and "CHR 0x0A \<notin> set s"
proof -
  have "is_space (CHR 0x0A)" by (simp add: is_space_def)
  with assms show "trimmed s" "CHR '','' \<notin> set s" "CHR 0x0A \<notin> set s"
    by (auto simp: wordy_def trimmed_def)
qed

lemma digit_wordy: "is_digit_char c \<Longrightarrow> \<not> is_space c \<and> c \<noteq> CHR '',''"
  by (auto simp: is_digit_char_def is_space_def Let_def)

lemma fixed_decimal_wordy: "wordy (fixed_decimal 3 n)"
proof -
  have "\<forall>c \<in> set (pad_left 3 (nat_to_string (n mod 10 ^ 3))). is_digit_char c"
    by (rule pad_left_digits(3)) simp_all
  then show ?thesis
    using nat_to_string_digits digit_wordy
    by (auto simp: wordy_def fixed_decimal_def is_space_def simp del: power_numeral)
qed

lemma fmt_wordy: "wordy (fmt_command_decimal v)"
proof -
  have minus: "wordy s \<Longrightarrow> wordy (''-'' @ s)" for s by (simp add: wordy_def is_space_def)
  have "wordy (print_fixed 3 v)" for v
  proof (cases v)
    case (Fin x)
    then show ?thesis using fixed_decimal_wordy minus by (cases "x < 0") simp_all
  qed (simp_all add: wordy_def is_space_def)
  then show ?thesis by (simp add: fmt_command_decimal_def)
qed

text \<open>A text equal to a word up to case is a word.\<close>

lemma to_lower_special: "is_space c \<or> c = CHR '','' \<Longrightarrow> to_lower c = c"
  by (auto simp: is_space_def to_lower_def Let_def)

lemma equals_ci_wordy:
  assumes "equals_ci a b" and "wordy (lower_copy b)"
  shows "wordy a"
proof -
  have eq: "map to_lower a = lower_copy b" using assms(1) by (simp add: equals_ci_def lower_copy_def)
  have "\<not> is_space c \<and> c \<noteq> CHR '',''" if "c \<in> set a" for c
  proof (rule ccontr)
    assume "\<not> ?thesis"
    then have "to_lower c = c" "is_space c \<or> c = CHR '',''" using to_lower_special by blast+
    moreover have "to_lower c \<in> set (lower_copy b)" using that by (simp flip: eq)
    ultimately show False using assms(2) by (auto simp: wordy_def)
  qed
  moreover have "lower_copy b \<noteq> []" using assms(2) by (simp add: wordy_def)
  then have "a \<noteq> []" using arg_cong [OF eq, of length] by (cases a) simp_all
  ultimately show ?thesis by (simp add: wordy_def)
qed

lemma csv_no_newline: "\<forall>f \<in> set fs. wordy f \<Longrightarrow> CHR 0x0A \<notin> set (csv fs)"
  by (induction fs rule: csv.induct) (auto dest: wordy_field(3))

lemma csv_ends: "fs \<noteq> [] \<Longrightarrow> \<forall>f \<in> set fs. wordy f \<Longrightarrow> trimmed (csv fs)"
proof (induction fs rule: csv.induct)
  case (3 f g fs)
  then have "trimmed (csv (g # fs))" "trimmed f" by (auto dest: wordy_field(1))
  then show ?case by (auto simp: trimmed_def)
qed (auto dest: wordy_field(1))

text \<open>The fields of a line are what was put there.\<close>

lemma reply_fields:
  assumes "before_key ls key" and "wordy key" and "fs \<noteq> []" and "\<forall>f \<in> set fs. wordy f"
  shows "find_config_line_payload (reply_with ls key (csv fs) rest) key = Inr (csv fs)"
    and "split (csv fs) (CHR '','') = fs"
proof -
  show "find_config_line_payload (reply_with ls key (csv fs) rest) key = Inr (csv fs)"
    using find_reply_with [OF assms(1) wordy_field(1) [OF assms(2)] csv_ends [OF assms(3,4)]
        wordy_field(3) [OF assms(2)] csv_no_newline [OF assms(4)]] .
  show "split (csv fs) (CHR '','') = fs"
    using assms(4) wordy_field by (intro split_csv) auto
qed

lemma parse_fmt_prefix:
  assumes "\<bar>v\<bar> \<le> 10 ^ 6"
  shows "\<exists>v'. parse_double_prefix (fmt_command_decimal (Fin v)) fld = Inr v' \<and> close_enough v' (Fin v)"
proof -
  obtain v' where "parse_double (fmt_command_decimal (Fin v)) = Some (Fin v')" "\<bar>v' - v\<bar> \<le> 6 / 10000"
    using fmt_parse [OF assms] by blast
  moreover have "trim (fmt_command_decimal (Fin v)) = fmt_command_decimal (Fin v)"
    by (rule trim_trimmed [OF wordy_field(1) [OF fmt_wordy]])
  ultimately show ?thesis using close_enough_near by (simp add: parse_double_prefix_def)
qed

section \<open>Properties: verification of the set-up\<close>

definition moderate :: "double \<Rightarrow> bool" where
  "moderate v \<longleftrightarrow> (\<exists>x. v = Fin x \<and> \<bar>x\<bar> \<le> 10 ^ 6)"

lemma moderate_Fin [simp]: "moderate (Fin x) \<longleftrightarrow> \<bar>x\<bar> \<le> 10 ^ 6"
  by (simp add: moderate_def)

lemma moderate_prefix:
  "moderate v \<Longrightarrow> \<exists>v'. parse_double_prefix (fmt_command_decimal v) fld = Inr v' \<and> close_enough v' v"
  using parse_fmt_prefix by (auto simp: moderate_def)

lemma validate_orientation:
  assumes "validate_receiver_settings st = Inr ()" and "\<not> equals_ci (imu_orientation_mode st) ''SensorDefault''"
  shows "wordy (imu_orientation_mode st)"
proof -
  have "equals_ci (imu_orientation_mode st) ''manual'' \<or> equals_ci (imu_orientation_mode st) ''fixed''"
    using assms by (auto simp: validate_receiver_settings_def split: if_splits)
  moreover have "wordy (lower_copy ''manual'')" "wordy (lower_copy ''fixed'')"
    by (simp_all add: wordy_def lower_copy_def to_lower_def is_space_def)
  ultimately show ?thesis using equals_ci_wordy by blast
qed

text \<open>
  C20: the orientation round trip. For validated settings with a manual orientation and angles of moderate
  size, the command carries the mode and the three angles with three decimals, and a receiver that
  reports back exactly these texts passes the verification, whatever else it says: the
  rounding to three decimals never exceeds the tolerance of the comparison.
\<close>

theorem imu_orientation_echo_verified:
  assumes "validate_receiver_settings st = Inr ()"
    and "\<not> equals_ci (imu_orientation_mode st) ''SensorDefault''"
    and "moderate (theta_x_deg st)" and "moderate (theta_y_deg st)" and "moderate (theta_z_deg st)"
    and "before_key ls ''IMUOrientation''"
    and "echo = csv [imu_orientation_mode st, fmt_command_decimal (theta_x_deg st),
           fmt_command_decimal (theta_y_deg st), fmt_command_decimal (theta_z_deg st)]"
  shows "set_orientation_command st = ''setIMUOrientation, '' @ echo \<and>
     verify_imu_orientation_reply (reply_with ls ''IMUOrientation'' echo rest) st = Inr ()"
proof
  let ?fs = "[imu_orientation_mode st, fmt_command_decimal (theta_x_deg st),
     fmt_command_decimal (theta_y_deg st), fmt_command_decimal (theta_z_deg st)]"
  show "set_orientation_command st = ''setIMUOrientation, '' @ echo"
    using assms(2,7) by (simp add: set_orientation_command_def)
  have "wordy ''IMUOrientation''" by (simp add: wordy_def is_space_def)
  moreover have "\<forall>f \<in> set ?fs. wordy f" using validate_orientation [OF assms(1,2)] fmt_wordy by simp
  ultimately have "find_config_line_payload (reply_with ls ''IMUOrientation'' echo rest) ''IMUOrientation'' = Inr echo"
    and "split echo (CHR '','') = ?fs"
    unfolding assms(7) by (intro reply_fields [OF assms(6)]; simp)+
  moreover obtain x y z where
    "parse_double_prefix (fmt_command_decimal (theta_x_deg st)) ''ThetaX'' = Inr x" "close_enough x (theta_x_deg st)"
    "parse_double_prefix (fmt_command_decimal (theta_y_deg st)) ''ThetaY'' = Inr y" "close_enough y (theta_y_deg st)"
    "parse_double_prefix (fmt_command_decimal (theta_z_deg st)) ''ThetaZ'' = Inr z" "close_enough z (theta_z_deg st)"
    using moderate_prefix assms(3-5) by metis
  ultimately show "verify_imu_orientation_reply (reply_with ls ''IMUOrientation'' echo rest) st = Inr ()"
    using assms(2) by (simp add: verify_imu_orientation_reply_def equals_ci_def)
qed

definition ex_settings :: ReceiverSettings where
  "ex_settings = ReceiverSettings_default
     \<lparr>imu_orientation_mode := ''Manual'', theta_x_deg := Fin (181 / 2), theta_y_deg := Fin 0, theta_z_deg := Fin (-7 / 16),
      ant_lever_arm_m := \<lparr>vec_x = Fin (1 / 8), vec_y = Fin (-1 / 4), vec_z = Fin 1\<rparr>, ant_lever_arm_configured := True,
      streams := [\<lparr>stream_id = 1, blocks = [''ExtSensorMeas'', ''MeasEpoch''], interval = ''OnChange''\<rparr>]\<rparr>"

lemma ex_settings_valid: "validate_receiver_settings ex_settings = Inr ()"
  by code_simp

lemma ex_settings_fields:
  "imu_orientation_mode ex_settings = ''Manual''" "theta_x_deg ex_settings = Fin (181 / 2)"
  "theta_y_deg ex_settings = Fin 0" "theta_z_deg ex_settings = Fin (-7 / 16)"
  "ant_lever_arm_m ex_settings = \<lparr>vec_x = Fin (1 / 8), vec_y = Fin (-1 / 4), vec_z = Fin 1\<rparr>"
  by (simp_all add: ex_settings_def ReceiverSettings_default_def)

theorem imu_orientation_echo_verified_witness:
  "set_orientation_command ex_settings = ''setIMUOrientation, '' @
       csv [''Manual'', fmt_command_decimal (Fin (181 / 2)), fmt_command_decimal (Fin 0), fmt_command_decimal (Fin (-7 / 16))] \<and>
     verify_imu_orientation_reply (reply_with [''$R: getIMUOrientation''] ''IMUOrientation''
       (csv [''Manual'', fmt_command_decimal (Fin (181 / 2)), fmt_command_decimal (Fin 0), fmt_command_decimal (Fin (-7 / 16))])
       ''IPS1>'') ex_settings = Inr ()"
  by (rule imu_orientation_echo_verified [OF ex_settings_valid])
    (simp_all add: ex_settings_fields before_key_def equals_ci_def lower_copy_def to_lower_def
      starts_with_ci_def trim_def is_space_def)

lemma lever_arm_echo:
  assumes "moderate x" and "moderate y" and "moderate z" and "before_key ls ''INSAntLeverArm''"
  shows "verify_ins_ant_lever_arm_reply
     (reply_with ls ''INSAntLeverArm'' (csv [fmt_command_decimal x, fmt_command_decimal y, fmt_command_decimal z]) rest)
     \<lparr>vec_x = x, vec_y = y, vec_z = z\<rparr> = Inr ()"
proof -
  let ?fs = "[fmt_command_decimal x, fmt_command_decimal y, fmt_command_decimal z]"
  have "wordy ''INSAntLeverArm''" by (simp add: wordy_def is_space_def)
  then have "find_config_line_payload (reply_with ls ''INSAntLeverArm'' (csv ?fs) rest) ''INSAntLeverArm'' = Inr (csv ?fs)"
    and "split (csv ?fs) (CHR '','') = ?fs"
    using fmt_wordy by (intro reply_fields [OF assms(4)]; simp)+
  moreover obtain x' y' z' where
    "parse_double_prefix (fmt_command_decimal x) ''INSAntLeverArm.X'' = Inr x'" "close_enough x' x"
    "parse_double_prefix (fmt_command_decimal y) ''INSAntLeverArm.Y'' = Inr y'" "close_enough y' y"
    "parse_double_prefix (fmt_command_decimal z) ''INSAntLeverArm.Z'' = Inr z'" "close_enough z' z"
    using moderate_prefix assms(1-3) by metis
  ultimately show ?thesis by (simp add: verify_ins_ant_lever_arm_reply_def)
qed

lemma attitude_offset_echo:
  assumes "moderate h" and "moderate p" and "before_key ls ''AttitudeOffset''"
  shows "verify_attitude_offset_reply
     (reply_with ls ''AttitudeOffset'' (csv [fmt_command_decimal h, fmt_command_decimal p]) rest)
     \<lparr>heading_deg = h, pitch_deg = p\<rparr> = Inr ()"
proof -
  let ?fs = "[fmt_command_decimal h, fmt_command_decimal p]"
  have "wordy ''AttitudeOffset''" by (simp add: wordy_def is_space_def)
  then have "find_config_line_payload (reply_with ls ''AttitudeOffset'' (csv ?fs) rest) ''AttitudeOffset'' = Inr (csv ?fs)"
    and "split (csv ?fs) (CHR '','') = ?fs"
    using fmt_wordy by (intro reply_fields [OF assms(3)]; simp)+
  moreover obtain h' p' where
    "parse_double_prefix (fmt_command_decimal h) ''AttitudeOffset.Heading'' = Inr h'" "close_enough h' h"
    "parse_double_prefix (fmt_command_decimal p) ''AttitudeOffset.Pitch'' = Inr p'" "close_enough p' p"
    using moderate_prefix assms(1,2) by metis
  ultimately show ?thesis by (simp add: verify_attitude_offset_reply_def)
qed

text \<open>
  C21: the lever arm is verified soundly. When \<open>verify_ins_ant_lever_arm_reply\<close> accepts, the reply has a line
  with three numbers, the configured values are finite, and each reported number is within 0.0011
  metres of the configured one; an infinite or undefined configured value is never accepted.
\<close>

theorem lever_arm_verified_sound:
  assumes "verify_ins_ant_lever_arm_reply reply expected = Inr ()"
  shows "\<exists>payload x y z ex ey ez. find_config_line_payload reply ''INSAntLeverArm'' = Inr payload \<and>
     3 \<le> length (split payload (CHR '','')) \<and>
     parse_double (trim (split payload (CHR '','') ! 0)) = Some (Fin x) \<and>
     parse_double (trim (split payload (CHR '','') ! 1)) = Some (Fin y) \<and>
     parse_double (trim (split payload (CHR '','') ! 2)) = Some (Fin z) \<and>
     expected = \<lparr>vec_x = Fin ex, vec_y = Fin ey, vec_z = Fin ez\<rparr> \<and>
     \<bar>x - ex\<bar> \<le> 11 / 10000 \<and> \<bar>y - ey\<bar> \<le> 11 / 10000 \<and> \<bar>z - ez\<bar> \<le> 11 / 10000"
proof -
  obtain payload a b c where *: "find_config_line_payload reply ''INSAntLeverArm'' = Inr payload"
      "3 \<le> length (split payload (CHR '',''))"
      "parse_double (trim (split payload (CHR '','') ! 0)) = Some a" "close_enough a (vec_x expected)"
      "parse_double (trim (split payload (CHR '','') ! 1)) = Some b" "close_enough b (vec_y expected)"
      "parse_double (trim (split payload (CHR '','') ! 2)) = Some c" "close_enough c (vec_z expected)"
    using assms
    by (auto simp: verify_ins_ant_lever_arm_reply_def bind_res_eq_Inr Let_def parse_double_prefix_def not_less
        split: if_splits option.splits)
  from close_enough_sound [OF *(4)] close_enough_sound [OF *(6)] close_enough_sound [OF *(8)]
  obtain x y z ex ey ez where "a = Fin x" "b = Fin y" "c = Fin z"
      "vec_x expected = Fin ex" "vec_y expected = Fin ey" "vec_z expected = Fin ez"
      "\<bar>x - ex\<bar> \<le> 11 / 10000" "\<bar>y - ey\<bar> \<le> 11 / 10000" "\<bar>z - ez\<bar> \<le> 11 / 10000"
    by blast
  moreover from this have "expected = \<lparr>vec_x = Fin ex, vec_y = Fin ey, vec_z = Fin ez\<rparr>" by (cases expected) simp
  ultimately show ?thesis using * by blast
qed

definition ex_arm :: string where
  "ex_arm = reply_with [''$R: getINSAntLeverArm''] ''INSAntLeverArm''
     (csv [fmt_command_decimal (Fin (1 / 8)), fmt_command_decimal (Fin (-1 / 4)), fmt_command_decimal (Fin 1)]) ''IPS1>''"

lemma ex_arm_verified: "verify_ins_ant_lever_arm_reply ex_arm (ant_lever_arm_m ex_settings) = Inr ()"
  unfolding ex_arm_def ex_settings_fields
  by (rule lever_arm_echo)
    (simp_all add: before_key_def starts_with_ci_def trim_def is_space_def lower_copy_def to_lower_def)

theorem lever_arm_verified_sound_witness:
  "\<exists>payload x y z ex ey ez. find_config_line_payload ex_arm ''INSAntLeverArm'' = Inr payload \<and>
     3 \<le> length (split payload (CHR '','')) \<and>
     parse_double (trim (split payload (CHR '','') ! 0)) = Some (Fin x) \<and>
     parse_double (trim (split payload (CHR '','') ! 1)) = Some (Fin y) \<and>
     parse_double (trim (split payload (CHR '','') ! 2)) = Some (Fin z) \<and>
     ant_lever_arm_m ex_settings = \<lparr>vec_x = Fin ex, vec_y = Fin ey, vec_z = Fin ez\<rparr> \<and>
     \<bar>x - ex\<bar> \<le> 11 / 10000 \<and> \<bar>y - ey\<bar> \<le> 11 / 10000 \<and> \<bar>z - ez\<bar> \<le> 11 / 10000"
  by (rule lever_arm_verified_sound [OF ex_arm_verified])

section \<open>Properties: commands\<close>

lemma length_le_2000: "enforce_command_length c = Inr () \<longleftrightarrow> length c \<le> 2000"
  by (simp add: enforce_command_length_def)

text \<open>
  \<open>build_sbf_output_command\<close> returns a command exactly when the stream number is in 1..10, the port in
  1..5, there is a block, the interval is one of the receiver's tokens up to case and the text has
  at most 2000 characters; the command is then the documented one.
\<close>

theorem build_sbf_output_command_spec:
  "build_sbf_output_command s ips = Inr c \<longleftrightarrow>
     stream_id s \<in> {1..10} \<and> ips \<in> {1..5} \<and> blocks s \<noteq> [] \<and>
     lower_copy (interval s) \<in> set allowed_intervals \<and> length c \<le> 2000 \<and>
     c = ''setSBFOutput, Stream'' @ int_to_string (stream_id s) @ '', IPS'' @ int_to_string ips @
       '', '' @ join (blocks s) (CHR ''+'') @ '', '' @ interval s"
  by (auto simp: build_sbf_output_command_def is_valid_sbf_interval_def bind_res_eq_Inr length_le_2000 Let_def
      split: if_splits)

text \<open>The literal \<open>0.0005\<close> as a double, which is a little more than 0.0005.\<close>

lemma fmt_limit_value: "round_double (1 / 2000) = Fin (4611686018427388 / 2 ^ 63)"
proof -
  have "exponent_of (1 / 2000) = -11" by (rule exponent_of_unique) (simp_all add: pow2_def)
  then have u: "ulp_of \<bar>1 / 2000\<bar> = 1 / 2 ^ 63" by (simp add: ulp_of_def pow2_def)
  have r: "round_half_even (1 / 2000 / (1 / 2 ^ 63)) = 4611686018427388"
  proof -
    have "\<lfloor>(2 ^ 63 / 2000 :: rat)\<rfloor> = 4611686018427387" by (rule floor_unique) simp_all
    then show ?thesis by (simp add: round_half_even_def Let_def)
  qed
  have "round_rat (1 / 2000) = 4611686018427388 / 2 ^ 63"
    unfolding round_rat_def u Let_def r by simp
  then show ?thesis by (simp add: round_double_def Let_def)
qed

lemma fixed_decimal_zero: "fixed_decimal 3 n = ''0.000'' \<Longrightarrow> n = 0"
proof -
  assume eq: "fixed_decimal 3 n = ''0.000''"
  have len: "length (pad_left 3 (nat_to_string (n mod 10 ^ 3))) = 3" by (rule pad_left_digits(1)) simp_all
  have "nat_to_string (n div 10 ^ 3) @ ''.'' @ pad_left 3 (nat_to_string (n mod 10 ^ 3)) = ''0'' @ ''.'' @ ''000''"
    using eq by (simp add: fixed_decimal_def)
  then have "nat_to_string (n div 10 ^ 3) = ''0'' \<and> ''.'' @ pad_left 3 (nat_to_string (n mod 10 ^ 3)) = ''.'' @ ''000''"
    by (subst (asm) append_eq_append_conv) (simp_all add: len del: power_numeral)
  then have a: "nat_to_string (n div 10 ^ 3) = ''0''" and b: "pad_left 3 (nat_to_string (n mod 10 ^ 3)) = ''000''"
    by simp_all
  have "nat_of_digits ''0'' = 0" "nat_of_digits ''000'' = 0" by (simp_all add: nat_of_digits_def digit_val_def)
  then have "n div 10 ^ 3 = 0" "n mod 10 ^ 3 = 0"
    using arg_cong [OF a, of nat_of_digits] arg_cong [OF b, of nat_of_digits]
      pad_left_digits(2) [of "n mod 10 ^ 3" 3] by simp_all
  then show "n = 0" by (metis div_mult_mod_eq mult_zero_left add_0)
qed

lemma print_fixed_negative:
  assumes "print_fixed 3 v = ''-0.000''"
  shows "\<exists>x. v = Fin x \<and> x < 0 \<and> fixed_decimal 3 (nat (round_half_even (\<bar>x\<bar> * 10 ^ 3))) = ''0.000''"
proof (cases v)
  case (Fin x)
  let ?n = "nat (round_half_even (\<bar>x\<bar> * 10 ^ 3))"
  have "nat_to_string (?n div 10 ^ 3) \<noteq> []" by simp
  then have "hd (fixed_decimal 3 ?n) \<in> set (nat_to_string (?n div 10 ^ 3))"
    unfolding fixed_decimal_def by (metis hd_append2 list.set_sel(1))
  then have "hd (fixed_decimal 3 ?n) \<noteq> CHR ''-''" using nat_to_string_digits digit_not(2) by metis
  then have "x < 0" using assms Fin by (cases "x < 0") auto
  with assms Fin show ?thesis by simp
qed (use assms in simp_all)

lemma round_half_even_ge: "1 / 2 < y \<Longrightarrow> 1 \<le> round_half_even y"
proof -
  assume "1 / 2 < y"
  then have "(0 :: rat) < of_int (round_half_even y)" using round_half_even_error [of y] by linarith
  then show ?thesis by linarith
qed

text \<open>
  \<open>fmt_command_decimal\<close> never prints a negative zero: no value is sent as \<open>-0.000\<close>.
\<close>

theorem fmt_never_negative_zero: "fmt_command_decimal v \<noteq> ''-0.000''"
proof
  assume neg: "fmt_command_decimal v = ''-0.000''"
  show False
  proof (cases "d_less (d_abs v) (round_double (5 / 10000))")
    case True
    then show False using neg print_fixed_negative [of "Fin 0"] by (simp add: fmt_command_decimal_def)
  next
    case False
    then have "print_fixed 3 v = ''-0.000''" using neg by (simp add: fmt_command_decimal_def)
    then obtain x where x: "v = Fin x" "x < 0" "fixed_decimal 3 (nat (round_half_even (\<bar>x\<bar> * 10 ^ 3))) = ''0.000''"
      using print_fixed_negative by blast
    with False have "1 / 2000 < \<bar>x\<bar>" by (simp add: fmt_limit_value)
    then have "1 \<le> round_half_even (\<bar>x\<bar> * 10 ^ 3)" by (intro round_half_even_ge) simp
    moreover have "nat (round_half_even (\<bar>x\<bar> * 10 ^ 3)) = 0" using x(3) fixed_decimal_zero by blast
    ultimately show False by linarith
  qed
qed

section \<open>Properties: the dialogue\<close>

text \<open>
  C12: \<open>apply\<close> refines the plan: invalid settings are refused before a byte is sent; otherwise the code
  does what the list of steps says, command by command, reply by reply and failure by failure,
  against every behaviour of the socket and of the receiver.
\<close>

theorem apply_refines_plan:
  "ReceiverConfigurator_apply st t n =
     (case validate_receiver_settings st of
        Inl e \<Rightarrow> (Throw (Config e), n)
      | Inr _ \<Rightarrow> run_steps (\<lambda>c. send_command c t) (plan st) n)"
proof (cases "validate_receiver_settings st")
  case (Inl e)
  then show ?thesis by (simp add: ReceiverConfigurator_apply_def lift_config_def)
next
  case (Inr u)
  then show ?thesis using apply_plan [of st t n] by simp
qed

lemma run_steps_append_cases:
  "run_steps send (as @ bs) w = (r, w') \<Longrightarrow>
     (\<exists>w1. run_steps send as w = (Done (), w1) \<and> run_steps send bs w1 = (r, w')) \<or>
     run_steps send as w = (r, w') \<and> r \<noteq> Done ()"
  unfolding run_steps_append by (cases "run_steps send as w"; cases "fst (run_steps send as w)") auto

text \<open>
  C13: what is sent, and in which order. However \<open>apply\<close> ends, the bytes sent are a prefix of the commands
  of the plan; when it ends normally, all of them. A byte of a command that enables a stream is
  only sent after every set-up command was accepted and every verification passed.
\<close>

theorem apply_sends_in_order:
  assumes "validate_receiver_settings st = Inr ()" and "ReceiverConfigurator_apply st t n = (r, n')"
  shows "(\<exists>k. sent n' = sent n @ take k (script_of (plan st))) \<and>
     (r = Done () \<longrightarrow> sent n' = sent n @ script_of (plan st)) \<and>
     (length (sent n @ script_of (setup_plan st)) < length (sent n') \<longrightarrow>
        (\<exists>n1. run_steps (\<lambda>c. send_command c t) (setup_plan st) n = (Done (), n1)))"
proof -
  have run: "run_steps (\<lambda>c. send_command c t) (plan st) n = (r, n')"
    using apply_plan [OF assms(1)] assms(2) by simp
  have "\<exists>n1. run_steps (\<lambda>c. send_command c t) (setup_plan st) n = (Done (), n1)"
    if "length (sent n @ script_of (setup_plan st)) < length (sent n')"
    using run_steps_append_cases [OF run [unfolded plan_def]]
  proof
    assume "run_steps (\<lambda>c. send_command c t) (setup_plan st) n = (r, n') \<and> r \<noteq> Done ()"
    then obtain k where "sent n' = sent n @ take k (script_of (setup_plan st))"
      using ctrl.run_steps_log by blast
    with that show ?thesis by simp
  qed blast
  with ctrl.run_steps_log [OF run] show ?thesis by blast
qed

text \<open>
  \<open>apply\<close> succeeds. On a control connection whose peer answers every command in time with a reply
  that the step accepts, and that takes every command, the call returns normally, and exactly the
  commands of the plan were sent.
\<close>

theorem apply_completes:
  assumes "validate_receiver_settings st = Inr ()" and "ctrl_ready t l rs n"
    and "list_all2 accepts (plan st) rs" and "\<forall>s \<in> set (plan st). length (command_line (step_cmd s)) \<le> l"
  shows "\<exists>n'. ReceiverConfigurator_apply st t n = (Done (), n') \<and> sent n' = sent n @ script_of (plan st)"
  using ctrl_up.run_steps_completes [of t l rs "[]" n "plan st"] assms apply_plan [OF assms(1)] by auto

text \<open>A receiver that accepts a small configuration, as a script of replies.\<close>

definition ex_quick :: ReceiverSettings where
  "ex_quick = ReceiverSettings_default
     \<lparr>ant_lever_arm_configured := True,
      streams := [\<lparr>stream_id = 1, blocks = [''ExtSensorMeas'', ''MeasEpoch''], interval = ''OnChange''\<rparr>]\<rparr>"

definition ex_replies :: "string list" where
  "ex_replies =
     [''$R; getReceiverCapabilities ReceiverCapabilities, Main+Aux1, a, b, c, 10, 20, 5 IPS1>''] @
     replicate 10 ''$R? Stream not configured IPS1>'' @ replicate 8 ''IPS1>'' @
     [reply_with [] ''IMUOrientation'' ''SensorDefault'' ''IPS1>'', ''IPS1>'',
      reply_with [] ''INSAntLeverArm'' ''0.000, 0.000, 0.000'' ''IPS1>'', ''IPS1>'',
      reply_with [] ''GNSSAttitude'' ''MultiAntenna'' ''IPS1>'', ''IPS1>'',
      reply_with [] ''AttitudeOffset'' ''0.000, 0.000'' ''IPS1>'', ''IPS1>'']"

definition ex_ctrl :: net where
  "ex_ctrl = ex_net\<lparr>clock := (\<lambda>i. 0), sends := replicate 27 (Sent 200),
     polls := replicate 27 Poll_ready, recvs := map (Received \<circ> bytes_of_string) ex_replies\<rparr>"

lemma ex_quick_valid: "validate_receiver_settings ex_quick = Inr ()"
  by code_simp

lemma fmt_zero: "fmt_command_decimal (Fin 0) = ''0.000''"
proof -
  have "round_half_even 0 = 0" using round_half_even_int [of 0] by (simp only: of_int_0)
  moreover have "fixed_decimal 3 0 = ''0.000''" by code_simp
  ultimately show ?thesis by (simp add: fmt_command_decimal_def)
qed

definition prompt_last :: "string \<Rightarrow> bool" where
  "prompt_last r \<longleftrightarrow> length r \<le> 512 \<and> str_contains ''>'' r"

lemma ex_replies_prompt: "list_all prompt_last ex_replies"
  by code_simp

lemma one_piece: "prompt_last r \<Longrightarrow> good_reply [bytes_of_string r]"
  by (cases r) (simp_all add: good_reply_def prompt_last_def, simp_all add: bytes_of_string_def str_contains_def)

lemma ex_ctrl_ready: "ctrl_ready 3000 200 ex_replies ex_ctrl"
proof -
  let ?css = "map (\<lambda>r. [bytes_of_string r]) ex_replies"
  have len: "length ex_replies = 27" by (simp add: ex_replies_def)
  have "ex_replies = map (string_of_bytes \<circ> concat) ?css" by (simp add: comp_def)
  moreover have "\<forall>cs \<in> set ?css. good_reply cs"
    using ex_replies_prompt one_piece by (auto simp: list_all_iff)
  moreover have "concat ?css = map bytes_of_string ex_replies" by (induction ex_replies) simp_all
  ultimately show ?thesis
    unfolding ctrl_ready_def
    by (intro conjI exI [of _ ?css]) (auto simp: ex_ctrl_def ex_net_def len)
qed

lemma accepts_simps:
  "accepts (plain c) r \<longleftrightarrow> \<not> rejected r"
  "accepts (tolerant c) r"
  "accepts (verified c chk) r \<longleftrightarrow> \<not> rejected r \<and> chk r = Inr ()"
  by (simp_all add: accepts_def step_defs)

lemma clear_stream_command_length:
  "\<forall>i \<in> set [1..<11]. length (command_line (clear_stream_command i)) \<le> 64"
  by (simp add: upt_conv_Cons command_line_def bytes_of_string_def clear_stream_command_def nat_to_string.simps)

lemma ex_quick_fields:
  "ips_id ex_quick = 1" "ips_port ex_quick = 28785" "configure_all_tracking ex_quick" "cn0_mask_dbhz ex_quick = 0"
  "imu_startup_data_mode ex_quick = ''Boot''" "imu_orientation_mode ex_quick = ''SensorDefault''"
  "ant_lever_arm_m ex_quick = \<lparr>vec_x = Fin 0, vec_y = Fin 0, vec_z = Fin 0\<rparr>"
  "gnss_attitude_mode ex_quick = ''MultiAntenna''"
  "attitude_offset_deg ex_quick = \<lparr>heading_deg = Fin 0, pitch_deg = Fin 0\<rparr>"
  "streams ex_quick = [\<lparr>stream_id = 1, blocks = [''ExtSensorMeas'', ''MeasEpoch''], interval = ''OnChange''\<rparr>]"
  by (simp_all add: ex_quick_def ReceiverSettings_default_def)

lemma length_command_line: "length (command_line c) = length c + 2"
  by (simp add: command_line_def bytes_of_string_def)

lemma ex_plan_fits: "\<forall>s \<in> set (plan ex_quick). length (command_line (step_cmd s)) \<le> 200"
proof -
  have "length (enable_command 1 \<lparr>stream_id = 1, blocks = [''ExtSensorMeas'', ''MeasEpoch''], interval = ''OnChange''\<rparr>) \<le> 198"
    by code_simp
  moreover have "length (clear_stream_command i) \<le> 198" if "i \<in> set [1..<11]" for i
    using bspec [OF clear_stream_command_length that] by (simp add: length_command_line)
  moreover have "length (nat_to_string 28785) \<le> 20" by (rule length_nat_to_string) simp_all
  moreover have "length (int_to_string 1) \<le> 20" "length (int_to_string 0) \<le> 20"
    by (simp_all add: int_to_string_def nat_to_string.simps)
  ultimately show ?thesis
    unfolding plan_def setup_plan_def stream_plan_def ex_quick_fields
    by (auto simp: step_defs length_command_line set_orientation_command_def build_ins_ant_lever_arm_command_def
        set_vec3_command_def fmt_zero ex_quick_fields equals_ci_def)
qed

lemma ex_verified:
  "verify_ins_ant_lever_arm_reply (reply_with [] ''INSAntLeverArm'' ''0.000, 0.000, 0.000'' ''IPS1>'')
     \<lparr>vec_x = Fin 0, vec_y = Fin 0, vec_z = Fin 0\<rparr> = Inr ()"
  "verify_attitude_offset_reply (reply_with [] ''AttitudeOffset'' ''0.000, 0.000'' ''IPS1>'')
     \<lparr>heading_deg = Fin 0, pitch_deg = Fin 0\<rparr> = Inr ()"
  "check_capabilities ex_quick ''$R; getReceiverCapabilities ReceiverCapabilities, Main+Aux1, a, b, c, 10, 20, 5 IPS1>'' = Inr ()"
  "verify_gnss_attitude_reply (reply_with [] ''GNSSAttitude'' ''MultiAntenna'' ''IPS1>'') ''MultiAntenna'' = Inr ()"
  "verify_imu_orientation_reply (reply_with [] ''IMUOrientation'' ''SensorDefault'' ''IPS1>'') ex_quick = Inr ()"
proof -
  show "verify_ins_ant_lever_arm_reply (reply_with [] ''INSAntLeverArm'' ''0.000, 0.000, 0.000'' ''IPS1>'')
     \<lparr>vec_x = Fin 0, vec_y = Fin 0, vec_z = Fin 0\<rparr> = Inr ()"
    using lever_arm_echo [of "Fin 0" "Fin 0" "Fin 0" "[]" "''IPS1>''"] by (simp add: fmt_zero before_key_def)
  show "verify_attitude_offset_reply (reply_with [] ''AttitudeOffset'' ''0.000, 0.000'' ''IPS1>'')
     \<lparr>heading_deg = Fin 0, pitch_deg = Fin 0\<rparr> = Inr ()"
    using attitude_offset_echo [of "Fin 0" "Fin 0" "[]" "''IPS1>''"] by (simp add: fmt_zero before_key_def)
qed (code_simp+)

lemma ex_not_rejected: "list_all (\<lambda>r. \<not> rejected r) (ex_replies ! 0 # drop 11 ex_replies)"
  by code_simp

lemma ex_plan_accepted: "list_all2 accepts (plan ex_quick) ex_replies"
  using ex_not_rejected
  unfolding plan_def setup_plan_def stream_plan_def ex_quick_fields ex_replies_def
  by (simp add: accepts_simps ex_quick_fields ex_verified upt_conv_Cons numeral_eq_Suc)

theorem apply_completes_witness:
  "\<exists>n'. ReceiverConfigurator_apply ex_quick 3000 ex_ctrl = (Done (), n') \<and>
     sent n' = sent ex_ctrl @ script_of (plan ex_quick)"
  by (rule apply_completes [OF ex_quick_valid ex_ctrl_ready ex_plan_accepted ex_plan_fits])

theorem apply_sends_in_order_witness:
  "\<exists>n'. ReceiverConfigurator_apply ex_quick 3000 ex_ctrl = (Done (), n') \<and>
     (\<exists>k. sent n' = sent ex_ctrl @ take k (script_of (plan ex_quick))) \<and>
     sent n' = sent ex_ctrl @ script_of (plan ex_quick)"
proof -
  obtain n' where "ReceiverConfigurator_apply ex_quick 3000 ex_ctrl = (Done (), n')"
    using ctrl_up.run_steps_completes [of 3000 200 ex_replies "[]" ex_ctrl "plan ex_quick"]
      ex_ctrl_ready ex_plan_accepted ex_plan_fits apply_plan [OF ex_quick_valid, of 3000 ex_ctrl] by auto
  with apply_sends_in_order [OF ex_quick_valid this] show ?thesis by blast
qed

lemma send_command_sends:
  assumes "0 \<le> fd n" and "sends n = Sent k # ks" and "length (command_line c) \<le> k"
    and "send_command c t n = (r, n')"
  shows "sent n' = sent n @ command_line c" and "sends n' = ks" and "fd n' = fd n"
proof -
  let ?n1 = "n\<lparr>sends := ks, sent := sent n @ command_line c\<rparr>"
  have w: "write_all (command_line c) n = (Done (), ?n1)"
    using assms(1-3) by (intro write_all_at_once) (simp_all add: command_line_def bytes_of_string_def)
  obtain r2 n2 where rd: "read_until ''>'' t 65536 ?n1 = (r2, n2)" by fastforce
  have "n' = n2"
    using assms(4) w rd by (cases r2) (auto simp: send_command_def lift_tcp_def split: if_splits)
  with read_until_frame [OF rd] show "sent n' = sent n @ command_line c" "sends n' = ks" "fd n' = fd n"
    by (auto dest!: rx_frame_fields)
qed

lemma stop_loop_sends:
  assumes "0 \<le> fd n" and "\<forall>i \<in> set is. length (command_line (clear_stream_command i)) \<le> l"
    and "\<forall>r \<in> set (sends n). \<exists>k \<ge> l. r = Sent k" and "length is \<le> length (sends n)"
    and "stop_loop is n = (Done (), n')"
  shows "sent n' = sent n @ concat (map (command_line \<circ> clear_stream_command) is)"
  using assms
proof (induction "is" arbitrary: n)
  case (Cons i "is")
  obtain k ks where ks: "sends n = Sent k # ks" "l \<le> k" using Cons.prems(3,4) by (cases "sends n") auto
  obtain r n1 where s: "send_command (clear_stream_command i) 2000 n = (r, n1)" by fastforce
  have "length (command_line (clear_stream_command i)) \<le> k" using Cons.prems(2) ks(2) by auto
  from send_command_sends [OF Cons.prems(1) ks(1) this s] Cons.prems(5) s
  have n1: "sent n1 = sent n @ command_line (clear_stream_command i)" "sends n1 = ks" "fd n1 = fd n"
    "stop_loop is n1 = (Done (), n')"
    by (auto split: io.splits)
  have "sent n' = sent n1 @ concat (map (command_line \<circ> clear_stream_command) is)"
    by (rule Cons.IH) (use Cons.prems ks(1) n1 in auto)
  with n1(1) show ?case by (simp add: comp_def)
qed simp

text \<open>
  C22: \<open>stop_streams\<close> never throws, whatever happens on the socket. On an open socket that takes every
  command it ends normally or still waits for the receiver, and when it ends, the ten commands that
  switch the streams off were sent, whatever the receiver answered to each.
\<close>

theorem stop_streams_best_effort:
  assumes "0 \<le> fd n" and "list_all (\<lambda>r. \<exists>k \<ge> 64. r = Sent k) (sends n)" and "10 \<le> length (sends n)"
  shows "(\<forall>m e m'. stop_streams st m \<noteq> (Throw e, m')) \<and>
     ((\<exists>n'. stop_streams st n = (Blocked, n')) \<or>
      (\<exists>n'. stop_streams st n = (Done (), n') \<and>
         sent n' = sent n @ concat (map (command_line \<circ> clear_stream_command) [1..<11])))"
proof
  show throws: "\<forall>m e m'. stop_streams st m \<noteq> (Throw e, m')" by (simp add: stop_streams_def stop_loop_never_throws)
  obtain r n' where run: "stop_streams st n = (r, n')" by fastforce
  have "sent n' = sent n @ concat (map (command_line \<circ> clear_stream_command) [1..<11])" if "r = Done ()"
    using stop_loop_sends [OF assms(1) clear_stream_command_length, of n'] assms(2,3) run that
    by (simp add: stop_streams_def list_all_iff)
  with run throws show "(\<exists>n'. stop_streams st n = (Blocked, n')) \<or>
      (\<exists>n'. stop_streams st n = (Done (), n') \<and>
         sent n' = sent n @ concat (map (command_line \<circ> clear_stream_command) [1..<11]))"
    by (cases r) auto
qed

theorem stop_streams_best_effort_witness:
  "(\<forall>m e m'. stop_streams ex_quick m \<noteq> (Throw e, m')) \<and>
     ((\<exists>n'. stop_streams ex_quick ex_ctrl = (Blocked, n')) \<or>
      (\<exists>n'. stop_streams ex_quick ex_ctrl = (Done (), n') \<and>
         sent n' = sent ex_ctrl @ concat (map (command_line \<circ> clear_stream_command) [1..<11])))"
  by (rule stop_streams_best_effort) (simp_all add: ex_ctrl_def ex_net_def list_all_iff)

lemma send_command_rejection:
  "send_command c t n = (Throw (Config e), n') \<Longrightarrow>
     \<exists>n1 reply. write_all (command_line c) n = (Done (), n1) \<and> read_until ''>'' t 65536 n1 = (Done reply, n') \<and>
       rejected reply \<and> e = ConfigError (''receiver rejected '' @ quoted (redact_cmd c) @ '': '' @ reply)"
  by (auto simp: send_command_def lift_tcp_def bind_io_def rejected_def split: prod.splits io.splits if_splits)

lemma send_command_reply: "send_command c t n = (Done r, n') \<Longrightarrow> \<not> rejected r"
  by (auto simp: send_command_def lift_tcp_def bind_io_def rejected_def split: prod.splits io.splits if_splits)

text \<open>
  C23: \<open>login\<close> keeps the credentials out of its refusals. When it throws a configuration error, it has read the banner
  and sent the command with the credentials, and the receiver's reply to it, which \<open>read_until\<close> returned, is one that
  marks an error; the message is a fixed text with the redacted command, followed by exactly that reply. So the
  credentials are in the message only as far as the receiver itself repeats them. The branch that would report refused
  credentials separately is never reached.
\<close>

theorem login_refusal_redacted:
  assumes "login usr pass t n = (Throw (Config e), n')"
  shows "\<exists>banner n1 n2 reply. read_until ''>'' t 65536 n = (Done banner, n1) \<and>
     write_all (command_line (''login, '' @ usr @ '', '' @ pass)) n1 = (Done (), n2) \<and>
     read_until ''>'' t 65536 n2 = (Done reply, n') \<and> (str_contains ''$R?'' reply \<or> str_contains ''Invalid'' reply) \<and>
     e = ConfigError (''receiver rejected '' @ quoted ''login, <REDACTED>, <REDACTED>'' @ '': '' @ reply)"
proof -
  let ?cmd = "''login, '' @ usr @ '', '' @ pass"
  obtain r1 n1 where b: "read_until ''>'' t 65536 n = (r1, n1)" by fastforce
  obtain r2 n2 where s: "send_command ?cmd t n1 = (r2, n2)" by fastforce
  have "(\<exists>banner. r1 = Done banner) \<and> r2 = Throw (Config e) \<and> n2 = n'"
    using assms b s send_command_reply [of ?cmd t n1 _ n2]
    by (cases r1; cases r2) (auto simp: login_def lift_tcp_def rejected_def split: if_splits)
  then obtain banner where b': "r1 = Done banner" and s': "send_command ?cmd t n1 = (Throw (Config e), n')"
    using s by blast
  obtain n3 reply where r: "write_all (command_line ?cmd) n1 = (Done (), n3)" "read_until ''>'' t 65536 n3 = (Done reply, n')"
      "rejected reply" "e = ConfigError (''receiver rejected '' @ quoted (redact_cmd ?cmd) @ '': '' @ reply)"
    using send_command_rejection [OF s'] by blast
  have "redact_cmd ?cmd = ''login, <REDACTED>, <REDACTED>''" by (simp add: redact_cmd_def starts_with_def)
  with r b b' show ?thesis
    by (intro exI [of _ banner] exI [of _ n1] exI [of _ n3] exI [of _ reply]) (simp add: rejected_def)
qed

definition ex_refuse :: net where
  "ex_refuse = ex_net\<lparr>clock := (\<lambda>i. 0), sends := [Sent 200], polls := [Poll_ready, Poll_ready],
     recvs := map (Received \<circ> bytes_of_string) [''Welcome USER>'', ''$R? bad USER>'']\<rparr>"

lemma ex_refused: "\<exists>e n'. login ''admin'' ''secret'' 5000 ex_refuse = (Throw (Config e), n')"
proof -
  let ?r = "''$R? bad USER>''"
  let ?n = "ex_refuse\<lparr>polls := [Poll_ready], recvs := [Received (bytes_of_string ?r)],
     clock_reads := Suc (clock_reads ex_refuse) + 1\<rparr>"
  have good: "good_reply [bytes_of_string ''Welcome USER>'']" "good_reply [bytes_of_string ?r]"
    by (rule one_piece, simp add: prompt_last_def str_contains_def)+
  have banner: "read_until ''>'' 5000 65536 ex_refuse = (Done ''Welcome USER>'', ?n)"
    using read_reply [OF good(1), of ex_refuse "[Poll_ready]" "[Received (bytes_of_string ?r)]" 5000]
    by (simp add: ex_refuse_def ex_net_def)
  have "ctrl_ready 5000 200 [?r] ?n"
    using good(2) by (auto simp: ctrl_ready_def ex_refuse_def ex_net_def intro!: exI [of _ "[[bytes_of_string ?r]]"])
  then obtain e n' where "send_command ''login, admin, secret'' 5000 ?n = (Throw (Config e), n')"
    using ctrl_answer [of 5000 200 ?r "[]" ?n "''login, admin, secret''"]
    by (auto simp: rejected_def str_contains_def length_command_line)
  with banner show ?thesis by (auto simp: login_def lift_tcp_def)
qed

theorem login_refusal_redacted_witness:
  "\<exists>e n' banner n1 n2 reply. login ''admin'' ''secret'' 5000 ex_refuse = (Throw (Config e), n') \<and>
     read_until ''>'' 5000 65536 ex_refuse = (Done banner, n1) \<and>
     write_all (command_line (''login, '' @ ''admin'' @ '', '' @ ''secret'')) n1 = (Done (), n2) \<and>
     read_until ''>'' 5000 65536 n2 = (Done reply, n') \<and> (str_contains ''$R?'' reply \<or> str_contains ''Invalid'' reply) \<and>
     e = ConfigError (''receiver rejected '' @ quoted ''login, <REDACTED>, <REDACTED>'' @ '': '' @ reply)"
proof -
  obtain e n' where l: "login ''admin'' ''secret'' 5000 ex_refuse = (Throw (Config e), n')" using ex_refused by blast
  from login_refusal_redacted [OF this] l show ?thesis by blast
qed

end
