(* ===== verification/AppConfig.thy ===== *)
theory AppConfig
  imports ReceiverConfigProps
begin

text \<open>
  The configuration file, src/src/app_config.hpp and app_config.cpp. The YAML library is a parameter:
  a record of the operations of \<open>YAML::Node\<close> that the code calls, over an abstract type of nodes. Each
  operation that can throw returns the text of its exception; nothing else is assumed of it.
\<close>

section \<open>The code: data\<close>

record 'n yaml =
  y_load :: "string \<Rightarrow> string + 'n" \<comment> \<open>\<open>YAML::LoadFile\<close>\<close>
  y_get :: "'n \<Rightarrow> string \<Rightarrow> string + 'n" \<comment> \<open>\<open>node[key]\<close>\<close>
  y_defined :: "'n \<Rightarrow> bool" \<comment> \<open>\<open>operator bool\<close>\<close>
  y_is_seq :: "'n \<Rightarrow> bool"
  y_is_map :: "'n \<Rightarrow> bool"
  y_items :: "'n \<Rightarrow> 'n list" \<comment> \<open>iteration; \<open>size\<close> and \<open>node[i]\<close> on a sequence\<close>
  y_int :: "'n \<Rightarrow> string + int" \<comment> \<open>\<open>as<int>\<close>\<close>
  y_u64 :: "'n \<Rightarrow> string + u64"
  y_bool :: "'n \<Rightarrow> string + bool"
  y_double :: "'n \<Rightarrow> string + double"
  y_string :: "'n \<Rightarrow> string + string"

record AppConfig =
  host :: string
  ctrl_port :: u16
  app_user :: string
  app_password :: string
  output_dir :: string
  app_prefix :: string
  rotate_bytes :: u64
  rotate_interval_seconds :: int
  log_dir :: string
  log_level :: string
  log_max_size :: u64
  log_max_files :: int
  receiver :: ReceiverSettings

definition AppConfig_default :: AppConfig where
  "AppConfig_default =
     \<lparr>host = ''192.168.3.1'', ctrl_port = 28784, app_user = ''admin'', app_password = ''admin'',
      output_dir = ''./recordings'', app_prefix = ''asterx'', rotate_bytes = 2 ^ 30, rotate_interval_seconds = 3600,
      log_dir = ''./logs'', log_level = ''info'', log_max_size = 100 * 1024 * 1024, log_max_files = 5,
      receiver = ReceiverSettings_default\<rparr>"

text \<open>The exceptions inside \<open>load_app_config\<close>: its own, the validation's, and the library's.\<close>

datatype load_exn = Load string | Invalid string | Yaml string

datatype ConfigLoadError = ConfigLoadError string

section \<open>The code: reading nodes\<close>

definition yaml_err :: "string + 'a \<Rightarrow> load_exn + 'a" where
  "yaml_err x = (case x of Inl m \<Rightarrow> Inl (Yaml m) | Inr a \<Rightarrow> Inr a)"

definition get :: "'n yaml \<Rightarrow> 'n \<Rightarrow> string \<Rightarrow> load_exn + 'n" where
  "get Y n key = yaml_err (y_get Y n key)"

text \<open>\<open>if (n[key]) field = n[key].as<T>()\<close>.\<close>

definition opt :: "'n yaml \<Rightarrow> 'n \<Rightarrow> string \<Rightarrow> ('n \<Rightarrow> load_exn + 'a) \<Rightarrow> ('a \<Rightarrow> 's \<Rightarrow> 's) \<Rightarrow> 's \<Rightarrow> load_exn + 's" where
  "opt Y n key conv upd s =
     bind_res (get Y n key) (\<lambda>v.
     if y_defined Y v then bind_res (conv v) (\<lambda>a. Inr (upd a s)) else Inr s)"

text \<open>\<open>if (auto m = n[key]) { ... }\<close>.\<close>

definition section_of :: "'n yaml \<Rightarrow> 'n \<Rightarrow> string \<Rightarrow> ('n \<Rightarrow> 's \<Rightarrow> load_exn + 's) \<Rightarrow> 's \<Rightarrow> load_exn + 's" where
  "section_of Y n key body s =
     bind_res (get Y n key) (\<lambda>m. if y_defined Y m then body m s else Inr s)"

definition as_int :: "'n yaml \<Rightarrow> 'n \<Rightarrow> load_exn + int" where
  "as_int Y v = yaml_err (y_int Y v)"

definition as_u64 :: "'n yaml \<Rightarrow> 'n \<Rightarrow> load_exn + u64" where
  "as_u64 Y v = yaml_err (y_u64 Y v)"

definition as_bool :: "'n yaml \<Rightarrow> 'n \<Rightarrow> load_exn + bool" where
  "as_bool Y v = yaml_err (y_bool Y v)"

definition as_double :: "'n yaml \<Rightarrow> 'n \<Rightarrow> load_exn + double" where
  "as_double Y v = yaml_err (y_double Y v)"

definition as_string :: "'n yaml \<Rightarrow> 'n \<Rightarrow> load_exn + string" where
  "as_string Y v = yaml_err (y_string Y v)"

definition read_port :: "'n yaml \<Rightarrow> string \<Rightarrow> 'n \<Rightarrow> load_exn + u16" where
  "read_port Y key v =
     bind_res (as_int Y v) (\<lambda>value.
     if value < 1 \<or> 65535 < value then Inl (Load (key @ '' must be in range 1..65535''))
     else Inr (word_of_int value))"

definition read_vec3 :: "'n yaml \<Rightarrow> string \<Rightarrow> 'n \<Rightarrow> load_exn + Vec3" where
  "read_vec3 Y path n =
     (if \<not> y_defined Y n then Inl (Load (path @ '' is required''))
      else if y_is_seq Y n then
        case y_items Y n of
          [a, b, c] \<Rightarrow>
            bind_res (as_double Y a) (\<lambda>x. bind_res (as_double Y b) (\<lambda>y. bind_res (as_double Y c) (\<lambda>z.
            Inr \<lparr>vec_x = x, vec_y = y, vec_z = z\<rparr>)))
        | _ \<Rightarrow> Inl (Load (path @ '' sequence must contain exactly three values''))
      else if \<not> y_is_map Y n then Inl (Load (path @ '' must contain x, y, and z''))
      else
        bind_res (get Y n ''x'') (\<lambda>a.
        if \<not> y_defined Y a then Inl (Load (path @ '' must contain x, y, and z'')) else
        bind_res (get Y n ''y'') (\<lambda>b.
        if \<not> y_defined Y b then Inl (Load (path @ '' must contain x, y, and z'')) else
        bind_res (get Y n ''z'') (\<lambda>c.
        if \<not> y_defined Y c then Inl (Load (path @ '' must contain x, y, and z'')) else
        bind_res (as_double Y a) (\<lambda>x. bind_res (as_double Y b) (\<lambda>y. bind_res (as_double Y c) (\<lambda>z.
        Inr \<lparr>vec_x = x, vec_y = y, vec_z = z\<rparr>)))))))"

definition read_attitude_offset :: "'n yaml \<Rightarrow> 'n \<Rightarrow> load_exn + AttitudeOffset" where
  "read_attitude_offset Y n =
     (if \<not> y_defined Y n then Inr \<lparr>heading_deg = Fin 0, pitch_deg = Fin 0\<rparr>
      else if \<not> y_is_map Y n
      then Inl (Load ''receiver.gnss_attitude.attitude_offset_deg must contain heading and pitch'')
      else
        bind_res (get Y n ''heading'') (\<lambda>h.
        if \<not> y_defined Y h
        then Inl (Load ''receiver.gnss_attitude.attitude_offset_deg must contain heading and pitch'') else
        bind_res (get Y n ''pitch'') (\<lambda>p.
        if \<not> y_defined Y p
        then Inl (Load ''receiver.gnss_attitude.attitude_offset_deg must contain heading and pitch'') else
        bind_res (as_double Y h) (\<lambda>heading. bind_res (as_double Y p) (\<lambda>pitch.
        Inr \<lparr>heading_deg = heading, pitch_deg = pitch\<rparr>)))))"

section \<open>The code: sections\<close>

definition parse_imu :: "'n yaml \<Rightarrow> 'n \<Rightarrow> ReceiverSettings \<Rightarrow> load_exn + ReceiverSettings" where
  "parse_imu Y im r =
     bind_res (opt Y im ''startup_data_mode'' (as_string Y) (\<lambda>a r. r\<lparr>imu_startup_data_mode := a\<rparr>) r) (\<lambda>r.
     bind_res (get Y im ''orientation_mode'') (\<lambda>om.
     bind_res
       (if y_defined Y om then bind_res (as_string Y om) (\<lambda>a. Inr (r\<lparr>imu_orientation_mode := a\<rparr>))
        else opt Y im ''use_sensor_default'' (as_bool Y)
          (\<lambda>b r. r\<lparr>use_sensor_default := b, imu_orientation_mode := (if b then ''SensorDefault'' else ''manual'')\<rparr>) r) (\<lambda>r.
     bind_res (opt Y im ''theta_x_deg'' (as_double Y) (\<lambda>a r. r\<lparr>theta_x_deg := a\<rparr>) r) (\<lambda>r.
     bind_res (opt Y im ''theta_y_deg'' (as_double Y) (\<lambda>a r. r\<lparr>theta_y_deg := a\<rparr>) r) (\<lambda>r.
     bind_res (opt Y im ''theta_z_deg'' (as_double Y) (\<lambda>a r. r\<lparr>theta_z_deg := a\<rparr>) r) (\<lambda>r.
     opt Y im ''ant_lever_arm_m'' (read_vec3 Y ''receiver.imu.ant_lever_arm_m'')
       (\<lambda>v r. r\<lparr>ant_lever_arm_m := v, ant_lever_arm_configured := True\<rparr>) r))))))"

definition parse_attitude :: "'n yaml \<Rightarrow> 'n \<Rightarrow> ReceiverSettings \<Rightarrow> load_exn + ReceiverSettings" where
  "parse_attitude Y att r =
     bind_res (opt Y att ''mode'' (as_string Y) (\<lambda>a r. r\<lparr>gnss_attitude_mode := a\<rparr>) r) (\<lambda>r.
     opt Y att ''attitude_offset_deg'' (read_attitude_offset Y) (\<lambda>a r. r\<lparr>attitude_offset_deg := a\<rparr>) r)"

definition parse_tracking :: "'n yaml \<Rightarrow> 'n \<Rightarrow> ReceiverSettings \<Rightarrow> load_exn + ReceiverSettings" where
  "parse_tracking Y tr r =
     bind_res (opt Y tr ''enable_all'' (as_bool Y) (\<lambda>a r. r\<lparr>configure_all_tracking := a\<rparr>) r) (\<lambda>r.
     opt Y tr ''cn0_mask_dbhz'' (as_int Y) (\<lambda>a r. r\<lparr>cn0_mask_dbhz := a\<rparr>) r)"

fun read_blocks :: "'n yaml \<Rightarrow> 'n list \<Rightarrow> load_exn + string list" where
  "read_blocks Y [] = Inr []"
| "read_blocks Y (b # bs) = bind_res (as_string Y b) (\<lambda>s. bind_res (read_blocks Y bs) (\<lambda>ss. Inr (s # ss)))"

fun read_streams :: "'n yaml \<Rightarrow> 'n list \<Rightarrow> load_exn + SbfStream list" where
  "read_streams Y [] = Inr []"
| "read_streams Y (s # ss) =
     bind_res (get Y s ''id'') (\<lambda>i. bind_res (as_int Y i) (\<lambda>sid.
     bind_res (get Y s ''interval'') (\<lambda>v. bind_res (as_string Y v) (\<lambda>iv.
     bind_res (get Y s ''blocks'') (\<lambda>b. bind_res (read_blocks Y (y_items Y b)) (\<lambda>bs.
     bind_res (read_streams Y ss) (\<lambda>rest.
     Inr (\<lparr>stream_id = sid, blocks = bs, interval = iv\<rparr> # rest))))))))"

definition parse_receiver :: "'n yaml \<Rightarrow> 'n \<Rightarrow> ReceiverSettings \<Rightarrow> load_exn + ReceiverSettings" where
  "parse_receiver Y n r =
     bind_res (opt Y n ''ips_id'' (as_int Y) (\<lambda>a r. r\<lparr>ips_id := a\<rparr>) r) (\<lambda>r.
     bind_res (opt Y n ''ips_port'' (read_port Y ''ips_port'') (\<lambda>a r. r\<lparr>ips_port := a\<rparr>) r) (\<lambda>r.
     bind_res (opt Y n ''require_aux1'' (as_bool Y) (\<lambda>a r. r\<lparr>require_aux1 := a\<rparr>) r) (\<lambda>r.
     bind_res (section_of Y n ''imu'' (parse_imu Y) r) (\<lambda>r.
     bind_res (section_of Y n ''gnss_attitude'' (parse_attitude Y) r) (\<lambda>r.
     bind_res (section_of Y n ''tracking'' (parse_tracking Y) r) (\<lambda>r.
     bind_res (get Y n ''streams'') (\<lambda>ss.
     bind_res
       (if y_defined Y ss \<and> y_is_seq Y ss
        then bind_res (read_streams Y (y_items Y ss)) (\<lambda>l. Inr (r\<lparr>streams := l\<rparr>)) else Inr r) (\<lambda>r.
     Inr (r\<lparr>use_sensor_default := (lower_copy (imu_orientation_mode r) = ''sensordefault'')\<rparr>)))))))))"

definition parse_connection :: "'n yaml \<Rightarrow> 'n \<Rightarrow> AppConfig \<Rightarrow> load_exn + AppConfig" where
  "parse_connection Y n c =
     bind_res (opt Y n ''host'' (as_string Y) (\<lambda>a c. c\<lparr>host := a\<rparr>) c) (\<lambda>c.
     bind_res (opt Y n ''port'' (read_port Y ''port'') (\<lambda>a c. c\<lparr>ctrl_port := a\<rparr>) c) (\<lambda>c.
     bind_res (opt Y n ''user'' (as_string Y) (\<lambda>a c. c\<lparr>app_user := a\<rparr>) c) (\<lambda>c.
     opt Y n ''password'' (as_string Y) (\<lambda>a c. c\<lparr>app_password := a\<rparr>) c)))"

definition parse_output :: "'n yaml \<Rightarrow> 'n \<Rightarrow> AppConfig \<Rightarrow> load_exn + AppConfig" where
  "parse_output Y n c =
     bind_res (opt Y n ''dir'' (as_string Y) (\<lambda>a c. c\<lparr>output_dir := a\<rparr>) c) (\<lambda>c.
     bind_res (opt Y n ''file_prefix'' (as_string Y) (\<lambda>a c. c\<lparr>app_prefix := a\<rparr>) c) (\<lambda>c.
     bind_res (opt Y n ''rotate_bytes'' (as_u64 Y) (\<lambda>a c. c\<lparr>rotate_bytes := a\<rparr>) c) (\<lambda>c.
     opt Y n ''rotate_interval_s'' (as_int Y) (\<lambda>a c. c\<lparr>rotate_interval_seconds := a\<rparr>) c)))"

definition parse_log :: "'n yaml \<Rightarrow> 'n \<Rightarrow> AppConfig \<Rightarrow> load_exn + AppConfig" where
  "parse_log Y n c =
     bind_res (opt Y n ''dir'' (as_string Y) (\<lambda>a c. c\<lparr>log_dir := a\<rparr>) c) (\<lambda>c.
     bind_res (opt Y n ''level'' (as_string Y) (\<lambda>a c. c\<lparr>log_level := a\<rparr>) c) (\<lambda>c.
     bind_res (opt Y n ''max_size'' (as_u64 Y) (\<lambda>a c. c\<lparr>log_max_size := a\<rparr>) c) (\<lambda>c.
     opt Y n ''max_files'' (as_int Y) (\<lambda>a c. c\<lparr>log_max_files := a\<rparr>) c)))"

definition validated :: "AppConfig \<Rightarrow> load_exn + AppConfig" where
  "validated c =
     (case validate_receiver_settings (receiver c) of
        Inl (ConfigError m) \<Rightarrow> Inl (Invalid m)
      | Inr _ \<Rightarrow> Inr c)"

definition read_config :: "'n yaml \<Rightarrow> 'n \<Rightarrow> load_exn + AppConfig" where
  "read_config Y doc =
     bind_res (section_of Y doc ''connection'' (parse_connection Y) AppConfig_default) (\<lambda>c.
     bind_res (section_of Y doc ''output'' (parse_output Y) c) (\<lambda>c.
     bind_res (section_of Y doc ''log'' (parse_log Y) c) (\<lambda>c.
     bind_res (section_of Y doc ''receiver''
       (\<lambda>n c. bind_res (parse_receiver Y n (receiver c)) (\<lambda>r. Inr (c\<lparr>receiver := r\<rparr>))) c) (\<lambda>c.
     validated (c\<lparr>receiver := (receiver c)\<lparr>user := app_user c, password := app_password c\<rparr>\<rparr>)))))"

definition load_app_config :: "'n yaml \<Rightarrow> string \<Rightarrow> ConfigLoadError + AppConfig" where
  "load_app_config Y path =
     (case y_load Y path of
        Inl m \<Rightarrow> Inl (ConfigLoadError (''failed to load config '' @ quoted path @ '': '' @ m))
      | Inr doc \<Rightarrow>
          (case read_config Y doc of
             Inr c \<Rightarrow> Inr c
           | Inl (Load m) \<Rightarrow> Inl (ConfigLoadError m)
           | Inl (Invalid m) \<Rightarrow> Inl (ConfigLoadError m)
           | Inl (Yaml m) \<Rightarrow> Inl (ConfigLoadError (''invalid config '' @ quoted path @ '': '' @ m))))"

section \<open>What a successful load guarantees\<close>

text \<open>\<open>post P x\<close>: if \<open>x\<close> is a success, its value satisfies \<open>P\<close>. The rules follow the code's combinators.\<close>

definition post :: "('a \<Rightarrow> bool) \<Rightarrow> 'e + 'a \<Rightarrow> bool" where
  "post P x \<longleftrightarrow> (case x of Inl _ \<Rightarrow> True | Inr a \<Rightarrow> P a)"

lemma post_Inr [simp]: "post P (Inr a) = P a" and post_Inl [simp]: "post P (Inl e)"
  by (simp_all add: post_def)

lemma post_keep: "post P x \<Longrightarrow> (\<And>a. P a \<Longrightarrow> post P (k a)) \<Longrightarrow> post P (bind_res x k)"
  by (cases x) simp_all

lemma post_any: "(\<And>a. x = Inr a \<Longrightarrow> post Q (k a)) \<Longrightarrow> post Q (bind_res x k)"
  by (cases x) simp_all

lemma post_via: "post P x \<Longrightarrow> (\<And>a. P a \<Longrightarrow> post Q (k a)) \<Longrightarrow> post Q (bind_res x k)"
  by (cases x) simp_all

lemma post_if: "(c \<Longrightarrow> post P x) \<Longrightarrow> (\<not> c \<Longrightarrow> post P y) \<Longrightarrow> post P (if c then x else y)"
  by simp

lemma post_opt:
  "P s \<Longrightarrow> (\<And>v a. conv v = Inr a \<Longrightarrow> P (upd a s)) \<Longrightarrow> post P (opt Y n key conv upd s)"
  unfolding opt_def by (rule post_any) (auto intro: post_any)

lemma post_section:
  "P s \<Longrightarrow> (\<And>m. post P (body m s)) \<Longrightarrow> post P (section_of Y n key body s)"
  unfolding section_of_def by (rule post_any) auto

lemma post_read_port: "read_port Y key v = Inr p \<Longrightarrow> p \<noteq> 0"
proof -
  assume "read_port Y key v = Inr p"
  then obtain i where i: "\<not> i < 1" "\<not> 65535 < i" "p = word_of_int i"
    by (auto simp: read_port_def bind_res_eq_Inr split: if_splits)
  then have "uint p = i" by (simp add: uint_word_of_int_eq take_bit_int_eq_self)
  with i show ?thesis by auto
qed

definition sensor_flag_ok :: "ReceiverSettings \<Rightarrow> bool" where
  "sensor_flag_ok r \<longleftrightarrow> use_sensor_default r = equals_ci (imu_orientation_mode r) ''SensorDefault''"

abbreviation port_set :: "ReceiverSettings \<Rightarrow> bool" where
  "port_set r \<equiv> ips_port r \<noteq> 0"

lemmas post_rules = post_keep post_opt post_section post_if post_any

lemma post_parse_imu: "port_set r \<Longrightarrow> post port_set (parse_imu Y m r)"
  unfolding parse_imu_def by (rule post_rules | simp)+

lemma post_parse_attitude: "port_set r \<Longrightarrow> post port_set (parse_attitude Y m r)"
  unfolding parse_attitude_def by (rule post_rules | simp)+

lemma post_parse_tracking: "port_set r \<Longrightarrow> post port_set (parse_tracking Y m r)"
  unfolding parse_tracking_def by (rule post_rules | simp)+

lemma post_parse_receiver: "port_set r \<Longrightarrow> post port_set (parse_receiver Y n r)"
  unfolding parse_receiver_def
  by (rule post_rules | simp add: post_parse_imu post_parse_attitude post_parse_tracking post_read_port)+

lemma post_parse_receiver_flag: "post sensor_flag_ok (parse_receiver Y n r)"
proof -
  have lc: "lower_copy ''SensorDefault'' = ''sensordefault''" by code_simp
  show ?thesis
    unfolding parse_receiver_def by (rule post_any)+ (simp add: sensor_flag_ok_def equals_ci_def lc)
qed

abbreviation config_ok :: "AppConfig \<Rightarrow> bool" where
  "config_ok c \<equiv> ctrl_port c \<noteq> 0 \<and> port_set (receiver c) \<and> sensor_flag_ok (receiver c)"

lemma config_default: "config_ok AppConfig_default"
  by (simp add: AppConfig_default_def ReceiverSettings_default_def sensor_flag_ok_def equals_ci_def)

lemma post_sections:
  "config_ok c \<Longrightarrow> post config_ok (parse_connection Y n c)"
  "config_ok c \<Longrightarrow> post config_ok (parse_output Y n c)"
  "config_ok c \<Longrightarrow> post config_ok (parse_log Y n c)"
  unfolding parse_connection_def parse_output_def parse_log_def
  by (rule post_rules | simp add: post_read_port)+

lemma post_read_config:
  "post (\<lambda>c. config_ok c \<and> validate_receiver_settings (receiver c) = Inr () \<and>
     user (receiver c) = app_user c \<and> password (receiver c) = app_password c) (read_config Y doc)"
proof -
  let ?recv = "\<lambda>n c. bind_res (parse_receiver Y n (receiver c)) (\<lambda>r. Inr (c\<lparr>receiver := r\<rparr>))"
  have recv: "post config_ok (?recv n c)" if "config_ok c" for n c
    using post_parse_receiver [of "receiver c" Y n] post_parse_receiver_flag [of Y n "receiver c"] that
    by (cases "parse_receiver Y n (receiver c)") auto
  have val: "post (\<lambda>c. config_ok c \<and> validate_receiver_settings (receiver c) = Inr () \<and>
      user (receiver c) = app_user c \<and> password (receiver c) = app_password c)
      (validated (c\<lparr>receiver := (receiver c)\<lparr>user := app_user c, password := app_password c\<rparr>\<rparr>))"
    if "config_ok c" for c
    using that by (auto simp: validated_def sensor_flag_ok_def split: sum.splits ConfigError.splits)
  show ?thesis
    unfolding read_config_def
    by (rule post_via [where P = config_ok] post_section config_default post_sections recv val | assumption)+
qed

section \<open>Properties\<close>

lemma load_valid: "load_app_config Y path = Inr c \<Longrightarrow> validate_receiver_settings (receiver c) = Inr ()"
proof -
  assume "load_app_config Y path = Inr c"
  then obtain doc where "read_config Y doc = Inr c"
    by (auto simp: load_app_config_def split: sum.splits load_exn.splits)
  with post_read_config [of Y doc] show ?thesis by simp
qed

text \<open>
  C27: a configuration that loads can be applied. Whatever the file and the YAML library say, settings that
  \<open>load_app_config\<close> returns pass the validation, so that \<open>apply\<close> never refuses them but runs its
  plan; they carry the connection's credentials; both ports are in 1..65535; and the legacy flag
  \<open>use_sensor_default\<close> agrees with the orientation mode.
\<close>

theorem loaded_config_is_applicable:
  assumes "load_app_config Y path = Inr c"
  shows "ReceiverConfigurator_apply (receiver c) t n = run_steps (\<lambda>s. send_command s t) (plan (receiver c)) n \<and>
     user (receiver c) = app_user c \<and> password (receiver c) = app_password c \<and>
     0 < ctrl_port c \<and> 0 < ips_port (receiver c) \<and>
     use_sensor_default (receiver c) = equals_ci (imu_orientation_mode (receiver c)) ''SensorDefault''"
proof -
  obtain doc where "read_config Y doc = Inr c"
    using assms by (auto simp: load_app_config_def split: sum.splits load_exn.splits)
  with post_read_config [of Y doc] have "validate_receiver_settings (receiver c) = Inr ()" "config_ok c"
      "user (receiver c) = app_user c" "password (receiver c) = app_password c"
    by simp_all
  then show ?thesis using apply_plan by (auto simp: sensor_flag_ok_def word_gt_0)
qed

text \<open>A small YAML library for examples: a document is already parsed, scalars are texts.\<close>

datatype ynode = YNone | YScalar string | YSeq "ynode list" | YMap "(string \<times> ynode) list"

fun ynode_get :: "ynode \<Rightarrow> string \<Rightarrow> string + ynode" where
  "ynode_get (YMap kvs) key = Inr (case map_of kvs key of Some v \<Rightarrow> v | None \<Rightarrow> YNone)"
| "ynode_get (YScalar _) key = Inl ''operator[] call on a scalar''"
| "ynode_get _ key = Inr YNone"

fun ynode_text :: "(string \<Rightarrow> 'a option) \<Rightarrow> ynode \<Rightarrow> string + 'a" where
  "ynode_text conv (YScalar s) = (case conv s of Some a \<Rightarrow> Inr a | None \<Rightarrow> Inl ''bad conversion'')"
| "ynode_text conv _ = Inl ''bad conversion''"

definition ex_yaml :: "ynode \<Rightarrow> ynode yaml" where
  "ex_yaml d =
     \<lparr>y_load = (\<lambda>path. Inr d), y_get = ynode_get, y_defined = (\<lambda>n. n \<noteq> YNone),
      y_is_seq = (\<lambda>n. case n of YSeq _ \<Rightarrow> True | _ \<Rightarrow> False), y_is_map = (\<lambda>n. case n of YMap _ \<Rightarrow> True | _ \<Rightarrow> False),
      y_items = (\<lambda>n. case n of YSeq ns \<Rightarrow> ns | _ \<Rightarrow> []),
      y_int = ynode_text parse_int32, y_u64 = ynode_text (\<lambda>s. map_option word_of_int (parse_int32 s)),
      y_bool = ynode_text (\<lambda>s. Some (s = ''true'')), y_double = ynode_text parse_double,
      y_string = ynode_text Some\<rparr>"

definition ex_doc :: ynode where
  "ex_doc = YMap
     [(''connection'', YMap [(''port'', YScalar ''81''), (''user'', YScalar ''op'')]),
      (''receiver'', YMap
        [(''imu'', YMap
           [(''use_sensor_default'', YScalar ''false''),
            (''ant_lever_arm_m'', YSeq [YScalar ''0'', YScalar ''0'', YScalar ''0''])]),
         (''streams'', YSeq [YMap [(''id'', YScalar ''2''), (''interval'', YScalar ''msec100''),
            (''blocks'', YSeq [YScalar ''MeasEpoch''])]])])]"

lemma parse_double_zero: "parse_double ''0'' = Some (Fin 0)"
proof -
  have d: "is_digit_char (CHR ''0'')" "\<not> is_space (CHR ''0'')" by (simp_all add: is_digit_char_def is_space_def)
  have "nat_of_digits ''0'' = 0" by (simp add: nat_of_digits_def digit_val_def)
  with d show ?thesis
    by (simp add: parse_double_def take_sign_def take_point_def take_exponent_def round_double_def round_rat_def Let_def)
qed

definition ex_loaded :: AppConfig where
  "ex_loaded = AppConfig_default
     \<lparr>ctrl_port := 81, app_user := ''op'',
      receiver := ReceiverSettings_default
        \<lparr>user := ''op'', imu_orientation_mode := ''manual'', use_sensor_default := False,
         ant_lever_arm_m := \<lparr>vec_x = Fin 0, vec_y = Fin 0, vec_z = Fin 0\<rparr>, ant_lever_arm_configured := True,
         streams := [\<lparr>stream_id = 2, blocks = [''MeasEpoch''], interval = ''msec100''\<rparr>]\<rparr>\<rparr>"

lemma ex_loaded_valid: "validate_receiver_settings (receiver ex_loaded) = Inr ()"
  by code_simp

lemma parse_int_ex: "parse_int32 ''81'' = Some 81" "parse_int32 ''2'' = Some 2"
  by code_simp+

lemma load_ex_doc: "load_app_config (ex_yaml ex_doc) ''config.yaml'' = Inr ex_loaded"
proof -
  have lc: "lower_copy ''manual'' \<noteq> ''sensordefault''" by code_simp
  have "read_config (ex_yaml ex_doc) ex_doc = validated ex_loaded"
    using lc
    by (simp add: read_config_def section_of_def get_def yaml_err_def ex_doc_def ex_yaml_def parse_connection_def
        opt_def read_port_def as_int_def as_string_def as_bool_def as_double_def parse_receiver_def parse_imu_def
        read_vec3_def parse_double_zero parse_int_ex AppConfig_default_def ReceiverSettings_default_def ex_loaded_def)
  then show ?thesis
    using ex_loaded_valid by (simp add: load_app_config_def validated_def) (simp add: ex_yaml_def)
qed

theorem loaded_config_is_applicable_witness:
  "ReceiverConfigurator_apply (receiver ex_loaded) 3000 ex_ctrl =
       run_steps (\<lambda>s. send_command s 3000) (plan (receiver ex_loaded)) ex_ctrl \<and>
     user (receiver ex_loaded) = app_user ex_loaded \<and> password (receiver ex_loaded) = app_password ex_loaded \<and>
     0 < ctrl_port ex_loaded \<and> 0 < ips_port (receiver ex_loaded) \<and>
     use_sensor_default (receiver ex_loaded) = equals_ci (imu_orientation_mode (receiver ex_loaded)) ''SensorDefault''"
  by (rule loaded_config_is_applicable [OF load_ex_doc])

end
