(* ===== verification/ByteView.thy ===== *)
theory ByteView
  imports TcpClient
begin

text \<open>
  The spans of src/include/asterx/byte_view.hpp: a pointer and a length over memory that belongs to somebody else.
  Memory is a partial map from addresses to bytes; an access outside of what is allocated is \<open>None\<close>. The other
  theories take byte lists where the code takes spans; the lemmas here say why: through a span over a buffer into
  which bytes were put, exactly these bytes are seen, by index and by iterators.
\<close>

section \<open>The code\<close>

type_synonym mem = "nat \<Rightarrow> byte option"

record MutByteSpan =
  mut_data :: nat
  mut_size :: nat

record ConstByteSpan =
  const_data :: nat
  const_size :: nat

abbreviation (input) nullptr :: nat where "nullptr \<equiv> 0"

definition MutByteSpan_default :: MutByteSpan where
  "MutByteSpan_default = \<lparr>mut_data = nullptr, mut_size = 0\<rparr>"

definition MutByteSpan_end :: "MutByteSpan \<Rightarrow> nat" where
  "MutByteSpan_end s = mut_data s + mut_size s"

definition MutByteSpan_store :: "MutByteSpan \<Rightarrow> nat \<Rightarrow> byte \<Rightarrow> mem \<Rightarrow> mem option" where
  "MutByteSpan_store s i b m = (if m (mut_data s + i) = None then None else Some (m(mut_data s + i \<mapsto> b)))"

definition ConstByteSpan_default :: ConstByteSpan where
  "ConstByteSpan_default = \<lparr>const_data = nullptr, const_size = 0\<rparr>"

definition ConstByteSpan_of :: "MutByteSpan \<Rightarrow> ConstByteSpan" where
  "ConstByteSpan_of s = \<lparr>const_data = mut_data s, const_size = mut_size s\<rparr>"

definition ConstByteSpan_empty :: "ConstByteSpan \<Rightarrow> bool" where
  "ConstByteSpan_empty s \<longleftrightarrow> const_size s = 0"

definition ConstByteSpan_end :: "ConstByteSpan \<Rightarrow> nat" where
  "ConstByteSpan_end s = const_data s + const_size s"

definition ConstByteSpan_at :: "ConstByteSpan \<Rightarrow> nat \<Rightarrow> mem \<Rightarrow> byte option" where
  "ConstByteSpan_at s i m = m (const_data s + i)"

section \<open>What is seen through a span\<close>

text \<open>Reading a range of iterators, as \<open>insert (end, begin, end)\<close> and \<open>assign\<close> do.\<close>

function read_range :: "nat \<Rightarrow> nat \<Rightarrow> mem \<Rightarrow> byte list option" where
  "read_range p q m =
     (if p < q then case (m p, read_range (p + 1) q m) of (Some b, Some bs) \<Rightarrow> Some (b # bs) | _ \<Rightarrow> None else Some [])"
  by pat_completeness auto
termination
  by (relation "measure (\<lambda>(p, q, m). q - p)") auto

declare read_range.simps [simp del]

definition view :: "ConstByteSpan \<Rightarrow> mem \<Rightarrow> byte list option" where
  "view s m = read_range (const_data s) (ConstByteSpan_end s) m"

text \<open>Storing bytes one by one from the start of a span, as \<open>recv\<close> does.\<close>

fun store_all :: "MutByteSpan \<Rightarrow> nat \<Rightarrow> byte list \<Rightarrow> mem \<Rightarrow> mem option" where
  "store_all s i [] m = Some m"
| "store_all s i (b # bs) m = (case MutByteSpan_store s i b m of Some m1 \<Rightarrow> store_all s (Suc i) bs m1 | None \<Rightarrow> None)"

definition allocated :: "nat \<Rightarrow> nat \<Rightarrow> mem \<Rightarrow> bool" where
  "allocated p n m \<longleftrightarrow> (\<forall>i < n. m (p + i) \<noteq> None)"

lemma read_range_Some:
  "read_range p (p + length bs) m = Some bs \<longleftrightarrow> (\<forall>i < length bs. m (p + i) = Some (bs ! i))"
proof (induction bs arbitrary: p)
  case Nil
  then show ?case by (simp add: read_range.simps)
next
  case (Cons b bs)
  have "read_range p (p + length (b # bs)) m = Some (b # bs) \<longleftrightarrow>
      m p = Some b \<and> read_range (p + 1) (p + 1 + length bs) m = Some bs"
    by (subst read_range.simps) (auto split: option.splits)
  also have "\<dots> \<longleftrightarrow> (\<forall>i < length (b # bs). m (p + i) = Some ((b # bs) ! i))"
    unfolding Cons.IH [of "p + 1"] by (simp add: All_less_Suc2)
  finally show ?case .
qed

lemma store_all_effect:
  assumes "allocated (mut_data s) n m" and "i + length bs \<le> n"
  shows "\<exists>m'. store_all s i bs m = Some m' \<and> allocated (mut_data s) n m' \<and>
     (\<forall>a. m' a = (if mut_data s + i \<le> a \<and> a < mut_data s + i + length bs then Some (bs ! (a - (mut_data s + i))) else m a))"
  using assms
proof (induction bs arbitrary: i m)
  case (Cons b bs)
  let ?m = "m(mut_data s + i \<mapsto> b)"
  have st: "MutByteSpan_store s i b m = Some ?m"
    using Cons.prems by (simp add: MutByteSpan_store_def allocated_def)
  have al: "allocated (mut_data s) n ?m" using Cons.prems(1) by (simp add: allocated_def)
  have "Suc i + length bs \<le> n" using Cons.prems(2) by simp
  from Cons.IH [OF al this] obtain m' where m': "store_all s (Suc i) bs ?m = Some m'" "allocated (mut_data s) n m'"
      "\<forall>a. m' a = (if mut_data s + Suc i \<le> a \<and> a < mut_data s + Suc i + length bs then Some (bs ! (a - (mut_data s + Suc i))) else ?m a)"
    by blast
  have "m' a = (if mut_data s + i \<le> a \<and> a < mut_data s + i + length (b # bs) then Some ((b # bs) ! (a - (mut_data s + i))) else m a)" for a
  proof (cases "mut_data s + Suc i \<le> a")
    case True
    then have "a - (mut_data s + i) = Suc (a - (mut_data s + Suc i))" by simp
    with True m'(3) show ?thesis by auto
  next
    case False
    with m'(3) show ?thesis by auto
  qed
  with st m'(1,2) show ?case by auto
qed auto

text \<open>By index and by iterators the same bytes are seen.\<close>

lemma view_at: "view s m = Some bs \<Longrightarrow> i < length bs \<Longrightarrow> const_size s = length bs \<Longrightarrow> ConstByteSpan_at s i m = Some (bs ! i)"
  using read_range_Some [of "const_data s" bs m] by (simp add: view_def ConstByteSpan_end_def ConstByteSpan_at_def)

text \<open>
  The buffer of the recording loop. What \<open>read_some\<close> returns fits the span that it was given; after it was stored
  there, a constant span over the start of the buffer, of the length returned, shows exactly the bytes received, and
  no byte outside the span was written.
\<close>

theorem span_shows_what_was_read:
  assumes "read_some (mut_size s) t n = (Done bs, n')" and "allocated (mut_data s) (mut_size s) m"
  shows "\<exists>m'. store_all s 0 bs m = Some m' \<and> view \<lparr>const_data = mut_data s, const_size = length bs\<rparr> m' = Some bs \<and>
     (\<forall>a. m' a \<noteq> m a \<longrightarrow> mut_data s \<le> a \<and> a < MutByteSpan_end s)"
proof -
  have len: "length bs \<le> mut_size s" using read_some_law [OF assms(1)] by simp
  obtain m' where "store_all s 0 bs m = Some m'"
    "\<forall>a. m' a = (if mut_data s \<le> a \<and> a < mut_data s + length bs then Some (bs ! (a - mut_data s)) else m a)"
    using store_all_effect [OF assms(2), of 0 bs] len by auto
  moreover from this(2) have "view \<lparr>const_data = mut_data s, const_size = length bs\<rparr> m' = Some bs"
    using read_range_Some [of "mut_data s" bs m'] by (simp add: view_def ConstByteSpan_end_def)
  ultimately show ?thesis using len by (intro exI [of _ m']) (auto simp: MutByteSpan_end_def)
qed

end
