(* ===== verification/Driver.thy ===== *)
theory Driver
  imports AppConfig RecorderProps
begin

text \<open>
  The program, src/src/main.cpp: the arguments, the exit codes and the composition of configuration,
  control connection, data connection and recorder. The world has the two sockets, the disk and the
  output file that is open. The stop flag that the signal handlers set is a stream of observations,
  one per round of the loop. The logging library is a parameter: whether the constructor of the rotating file sink
  throws for a path, a maximal size and a number of files. \<open>setup_logging\<close> is called outside the \<open>try\<close> block,
  so this exception ends the process.
\<close>

section \<open>The code: arguments\<close>

datatype args_result =
    Usage int \<comment> \<open>usage was printed; the exit code\<close>
  | Run string string \<comment> \<open>configuration path and log level\<close>

function parse_args :: "string list \<Rightarrow> string \<Rightarrow> string \<Rightarrow> args_result" where
  "parse_args argv config_path log_level_override =
     (case argv of
        [] \<Rightarrow> if config_path = [] then Usage 3 else Run config_path log_level_override
      | a # more_args \<Rightarrow>
          if a = ''--help'' \<or> a = ''-h'' then Usage 0
          else if a = ''--config'' \<and> more_args \<noteq> []
          then parse_args (tl more_args) (hd more_args) log_level_override
          else if a = ''--log-level'' \<and> more_args \<noteq> []
          then parse_args (tl more_args) config_path (hd more_args)
          else Usage 3)"
  by pat_completeness auto
termination
  by (relation "measure (\<lambda>(argv, _, _). length argv)") auto

declare parse_args.simps [simp del]

section \<open>The code: logging\<close>

record logger =
  lg_file :: string
  lg_max_size :: u64
  lg_max_files :: u64
  lg_level :: string

text \<open>The error of creating the directory is ignored; the number of files is cast to \<open>size_t\<close>.\<close>

definition setup_logging :: "(string \<Rightarrow> u64 \<Rightarrow> u64 \<Rightarrow> bool) \<Rightarrow> AppConfig \<Rightarrow> logger option" where
  "setup_logging sink_throws cfg =
     (let file = join_path (log_dir cfg) ''asterx.log''; files = word_of_int (log_max_files cfg) in
      if sink_throws file (log_max_size cfg) files then None
      else Some \<lparr>lg_file = file, lg_max_size = log_max_size cfg, lg_max_files = files, lg_level = log_level cfg\<rparr>)"

section \<open>The code: the recording loop\<close>

record driver_world =
  dw_ctrl :: net
  dw_data :: net
  dw_disk :: disk_world
  dw_file :: "string option" \<comment> \<open>the output file that is open\<close>

datatype exit_status =
    Exit int
  | Terminated \<comment> \<open>\<open>std::terminate\<close>\<close>
  | Waits \<comment> \<open>a call has not returned yet\<close>

datatype loop_end =
    Loop_left \<comment> \<open>the loop was left: stop flag, peer closed, or a read error\<close>
  | Loop_threw rec_error \<comment> \<open>the recorder threw\<close>
  | Loop_waits

function record_loop :: "(nat \<Rightarrow> bool) \<Rightarrow> nat \<Rightarrow> net \<Rightarrow> rec_state \<Rightarrow> loop_end \<times> net \<times> rec_state" where
  "record_loop stop i data st =
     (if stop i then (Loop_left, data, st)
      else case read_some 65536 10000 data of
        (Done bytes, data1) \<Rightarrow>
          if bytes = [] then (Loop_left, data1, st)
          else (case SbfRecorder_feed bytes st of
                  Inl (e, st1) \<Rightarrow> (Loop_threw e, data1, st1)
                | Inr st1 \<Rightarrow> record_loop stop (Suc i) data1 st1)
      | (Throw _, data1) \<Rightarrow> (Loop_left, data1, st)
      | (Blocked, data1) \<Rightarrow> (Loop_waits, data1, st))"
  by pat_completeness auto
termination
proof (relation "measure (\<lambda>(stop, i, data, st). length (polls data))")
  fix stop :: "nat \<Rightarrow> bool" and i and data :: net and st x y x1 b
  assume "(x, y) = read_some 65536 10000 data" and "x = Done x1"
  then show "((stop, Suc i, y, b), stop, i, data, st) \<in> measure (\<lambda>(stop, i, data, st). length (polls data))"
    using read_some_polls [of 65536 10000 data x1 y] by simp
qed simp

declare record_loop.simps [simp del]

section \<open>The code: the program\<close>

definition recorder_config :: "AppConfig \<Rightarrow> RecorderConfig" where
  "recorder_config cfg =
     \<lparr>cfg_output_dir = output_dir cfg, cfg_file_prefix = app_prefix cfg, cfg_rotate_bytes = rotate_bytes cfg,
      cfg_rotate_interval = rotate_interval_seconds cfg\<rparr>"

text \<open>The control connection up to the end of \<open>apply\<close>.\<close>

definition configure :: "AppConfig \<Rightarrow> (exn, unit) act" where
  "configure cfg n =
     bind_io (lift_tcp (TcpClient_connect (host cfg) (ctrl_port cfg) n)) (\<lambda>_ n1.
     bind_io (login (app_user cfg) (app_password cfg) 5000 n1) (\<lambda>_ n2.
     ReceiverConfigurator_apply (receiver cfg) 3000 n2))"

text \<open>The loop, then \<open>close\<close>; the destructor closes the file too when an exception leaves the block.\<close>

definition run_recorder :: "(nat \<Rightarrow> bool) \<Rightarrow> AppConfig \<Rightarrow> driver_world \<Rightarrow> exit_status \<times> driver_world" where
  "run_recorder stop cfg w =
     (case SbfRecorder_ctor (recorder_config cfg) (dw_disk w) of
        Inl _ \<Rightarrow> (Exit 1, w)
      | Inr st \<Rightarrow>
          (case record_loop stop 0 (dw_data w) st of
             (Loop_waits, d, (r, k)) \<Rightarrow> (Waits, w\<lparr>dw_data := d, dw_disk := k, dw_file := rec_fp r\<rparr>)
           | (Loop_threw _, d, st1) \<Rightarrow>
               (let (r, k) = SbfRecorder_close st1
                in (Exit 1, w\<lparr>dw_data := d, dw_disk := k, dw_file := rec_fp r\<rparr>))
           | (Loop_left, d, st1) \<Rightarrow>
               (let (r, k) = SbfRecorder_close st1;
                    (res, c) = stop_streams (receiver cfg) (dw_ctrl w)
                in (case res of Done _ \<Rightarrow> Exit 0 | Throw _ \<Rightarrow> Exit 1 | Blocked \<Rightarrow> Waits,
                    w\<lparr>dw_ctrl := c, dw_data := d, dw_disk := k, dw_file := rec_fp r\<rparr>))))"

text \<open>The \<open>try\<close> block.\<close>

definition run_driver :: "(nat \<Rightarrow> bool) \<Rightarrow> AppConfig \<Rightarrow> driver_world \<Rightarrow> exit_status \<times> driver_world" where
  "run_driver stop cfg w =
     (case configure cfg (dw_ctrl w) of
        (Blocked, c) \<Rightarrow> (Waits, w\<lparr>dw_ctrl := c\<rparr>)
      | (Throw _, c) \<Rightarrow> (Exit 1, w\<lparr>dw_ctrl := c\<rparr>)
      | (Done _, c) \<Rightarrow>
          (case TcpClient_connect (host cfg) (ips_port (receiver cfg)) (dw_data w) of
             (Blocked, d) \<Rightarrow> (Waits, w\<lparr>dw_ctrl := c, dw_data := d\<rparr>)
           | (Throw _, d) \<Rightarrow> (Exit 1, w\<lparr>dw_ctrl := c, dw_data := d\<rparr>)
           | (Done _, d) \<Rightarrow> run_recorder stop cfg (w\<lparr>dw_ctrl := c, dw_data := d\<rparr>)))"

text \<open>The destructors of the two sockets run when \<open>main\<close> returns.\<close>

definition leave_main :: "exit_status \<times> driver_world \<Rightarrow> exit_status \<times> driver_world" where
  "leave_main x =
     (case x of
        (Exit code, w) \<Rightarrow> (Exit code, w\<lparr>dw_ctrl := TcpClient_close (dw_ctrl w), dw_data := TcpClient_close (dw_data w)\<rparr>)
      | _ \<Rightarrow> x)"

definition main :: "'n yaml \<Rightarrow> (string \<Rightarrow> u64 \<Rightarrow> u64 \<Rightarrow> bool) \<Rightarrow> (nat \<Rightarrow> bool) \<Rightarrow> string list \<Rightarrow> driver_world \<Rightarrow> exit_status \<times> driver_world" where
  "main Y sink_throws stop argv w =
     (case parse_args argv [] [] of
        Usage code \<Rightarrow> (Exit code, w)
      | Run path level \<Rightarrow>
          (case load_app_config Y path of
             Inl _ \<Rightarrow> (Exit 2, w)
           | Inr cfg0 \<Rightarrow>
               (let cfg = (if level \<noteq> [] then cfg0\<lparr>log_level := level\<rparr> else cfg0)
                in if setup_logging sink_throws cfg = None then (Terminated, w)
                   else leave_main (run_driver stop cfg w))))"

section \<open>The recording loop\<close>

text \<open>The loop records the chunks that it reads, and nothing else.\<close>

lemma record_loop_chunks:
  "record_loop stop i d st = (e, d', st') \<Longrightarrow>
     \<exists>cs. rx d = concat cs @ rx d' \<and>
       (case e of Loop_threw x \<Rightarrow> record_chunks cs st = Inl (x, st') | _ \<Rightarrow> record_chunks cs st = Inr st')"
proof (induction "length (polls d)" arbitrary: i d st rule: less_induct)
  case less
  obtain q d1 where rd: "read_some 65536 10000 d = (q, d1)" by fastforce
  note law = read_some_law [OF rd]
  show ?case
  proof (cases "stop i \<or> (\<forall>bs. q = Done bs \<longrightarrow> bs = [])")
    case True
    with less.prems rd law(1) show ?thesis
      by (intro exI [of _ "[]"]) (cases q; auto simp: record_loop.simps [of stop i d st] split: if_splits)
  next
    case False
    then obtain bs where bs: "q = Done bs" "bs \<noteq> []" "\<not> stop i" by blast
    show ?thesis
    proof (cases "SbfRecorder_feed bs st")
      case (Inl a)
      with less.prems rd bs law(1) show ?thesis
        by (intro exI [of _ "[bs]"]) (auto simp: record_loop.simps [of stop i d st] split: prod.splits)
    next
      case (Inr st1)
      have "length (polls d1) < length (polls d)" using read_some_polls rd bs(1) by blast
      moreover have "record_loop stop (Suc i) d1 st1 = (e, d', st')"
        using less.prems rd bs Inr by (simp add: record_loop.simps [of stop i d st])
      ultimately obtain cs where "rx d1 = concat cs @ rx d'"
        "case e of Loop_threw x \<Rightarrow> record_chunks cs st1 = Inl (x, st') | _ \<Rightarrow> record_chunks cs st1 = Inr st'"
        using less.hyps by blast
      with Inr law(1) bs(1) show ?thesis by (intro exI [of _ "bs # cs"]) (auto split: loop_end.splits)
    qed
  qed
qed

text \<open>A peer that sends chunks and then closes, with no stop signal before.\<close>

lemma record_loop_delivers:
  assumes "0 \<le> fd d" and "polls d = replicate (length cs) Poll_ready @ [Poll_ready]"
    and "recvs d = map Received cs @ [Received []]" and "\<forall>c \<in> set cs. c \<noteq> [] \<and> length c \<le> 65536"
    and "\<forall>j. \<not> stop j" and "record_chunks cs st = Inr st'"
  shows "\<exists>d'. record_loop stop i d st = (Loop_left, d', st')"
  using assms
proof (induction cs arbitrary: i d st)
  case Nil
  then have "\<not> stop i" by blast
  with Nil(1-3,6) show ?case
    unfolding record_loop.simps [of stop i d st] by (simp add: read_some_def recv_os_def)
next
  case (Cons c cs)
  let ?d = "d\<lparr>polls := replicate (length cs) Poll_ready @ [Poll_ready], recvs := map Received cs @ [Received []]\<rparr>"
  have rd: "read_some 65536 10000 d = (Done c, ?d)"
    using Cons.prems(1-4) by (simp add: read_some_def recv_os_def)
  obtain st1 where st1: "SbfRecorder_feed c st = Inr st1" "record_chunks cs st1 = Inr st'"
    using Cons.prems(6) by (auto simp: bind_res_eq_Inr)
  have "\<exists>d'. record_loop stop (Suc i) ?d st1 = (Loop_left, d', st')"
    using Cons.prems st1(2) by (intro Cons.IH) auto
  moreover have "record_loop stop i d st = record_loop stop (Suc i) ?d st1"
    using rd st1(1) Cons.prems(4,5) by (subst record_loop.simps) simp
  ultimately show ?case by simp
qed

section \<open>Logging\<close>

lemma setup_logging_returns [simp]: "\<exists>l. setup_logging (\<lambda>_ _ _. False) cfg = Some l"
  by (simp add: setup_logging_def)

text \<open>A negative number of log files in the configuration is not refused but becomes a huge one.\<close>

lemma negative_log_files_wrap:
  "log_max_files cfg = -1 \<Longrightarrow> setup_logging (\<lambda>_ _ _. False) cfg =
     Some \<lparr>lg_file = join_path (log_dir cfg) ''asterx.log'', lg_max_size = log_max_size cfg, lg_max_files = 2 ^ 64 - 1,
       lg_level = log_level cfg\<rparr>"
  by (simp add: setup_logging_def)

section \<open>Arguments\<close>

text \<open>A pair of an option and its value, as the command line has them.\<close>

fun option_words :: "bool \<times> string \<Rightarrow> string list" where
  "option_words (True, v) = [''--config'', v]"
| "option_words (False, v) = [''--log-level'', v]"

definition last_of :: "bool \<Rightarrow> (bool \<times> string) list \<Rightarrow> string \<Rightarrow> string" where
  "last_of b os d = foldl (\<lambda>acc (c, v). if c = b then v else acc) d os"

lemma parse_args_options:
  "parse_args (concat (map option_words os)) p l =
     (if last_of True os p = [] then Usage 3 else Run (last_of True os p) (last_of False os l))"
proof (induction os arbitrary: p l)
  case Nil
  then show ?case by (simp add: parse_args.simps last_of_def)
next
  case (Cons x os)
  obtain c v where x: "x = (c, v)" by fastforce
  show ?case
    using Cons.IH [of v l] Cons.IH [of p v] by (cases c) (simp_all add: x last_of_def parse_args.simps [of "_ # _"])
qed

end
