(* ===== verification/DriverProps.thy ===== *)
theory DriverProps
  imports Driver
begin

text \<open>
  The program as a whole: what is on disk however a run goes, that a run on a cooperating receiver
  ends with everything recorded, what every exit leaves open, and the meaning of the exit codes.
\<close>

section \<open>Connecting\<close>

lemma connect_loop_frame:
  "connect_loop h p e as n = (r, n') \<Longrightarrow> n'\<lparr>fd := 0, open_fds := []\<rparr> = n\<lparr>fd := 0, open_fds := []\<rparr>"
proof (induction as arbitrary: e n)
  case (Cons a as)
  have adopt: "adopt s a m = (r, n') \<Longrightarrow> n'\<lparr>fd := 0, open_fds := []\<rparr> = m\<lparr>fd := 0, open_fds := []\<rparr>" for s m
    by (auto simp: adopt_def split: option.splits)
  have frame: "(close_fd s (n\<lparr>open_fds := x\<rparr>))\<lparr>fd := 0, open_fds := []\<rparr> = n\<lparr>fd := 0, open_fds := []\<rparr>" for s x
    by (simp add: close_fd_def)
  from Cons.prems show ?case
    by (auto simp: Let_def frame dest!: Cons.IH adopt split: sum.splits option.splits if_splits poll_res.splits)
qed simp

lemma connect_loop_fields:
  assumes "connect_loop h p e as n = (r, n')"
  shows "recvs n' = recvs n \<and> polls n' = polls n \<and> sends n' = sends n \<and> sent n' = sent n"
  using connect_loop_frame [OF assms] by (cases n; cases n') simp

lemma connect_rx: "TcpClient_connect h p n = (r, n') \<Longrightarrow> rx n' = rx n"
  by (auto simp: TcpClient_connect_def dest!: connect_loop_fields split: if_splits sum.splits)

section \<open>Properties\<close>

lemma record_loop_disk:
  assumes "SbfRecorder_ctor cfg k = Inr st" and "w_opened k = []" and "closes_ok k"
    and "record_loop stop i d st = (e, d', (r', k'))"
  shows "closes_ok k' \<and> (\<exists>bs. rx d = bs @ rx d' \<and> prefix (recorded k') (content (scan_frames bs)) \<and>
     (case e of Loop_threw x \<Rightarrow> io_error x | _ \<Rightarrow> recorded k' = content (scan_frames bs)))"
proof -
  obtain cs where cs: "rx d = concat cs @ rx d'"
    "case e of Loop_threw x \<Rightarrow> record_chunks cs st = Inl (x, (r', k')) | _ \<Rightarrow> record_chunks cs st = Inr (r', k')"
    using record_loop_chunks [OF assms(4)] by blast
  with failed_recording_is_prefix [OF assms(1-3), of cs] show ?thesis
    by (intro conjI exI [of _ "concat cs"]) (auto split: loop_end.splits)
qed

text \<open>What a run keeps of the stream: consumed bytes, of which the disk has the frames.\<close>

definition kept :: "driver_world \<Rightarrow> driver_world \<Rightarrow> bool \<Rightarrow> bool" where
  "kept w w' whole \<longleftrightarrow>
     (\<exists>bs. rx (dw_data w) = bs @ rx (dw_data w') \<and> prefix (recorded (dw_disk w')) (content (scan_frames bs)) \<and>
        (whole \<longrightarrow> recorded (dw_disk w') = content (scan_frames bs)))"

lemma recorded_nothing: "w_opened k = [] \<Longrightarrow> recorded k = []"
  by (simp add: recorded_def)

lemma kept_idle: "w_opened (dw_disk w) = [] \<Longrightarrow> dw_disk w' = dw_disk w \<Longrightarrow> rx (dw_data w') = rx (dw_data w) \<Longrightarrow> kept w w' b"
  unfolding kept_def by (rule exI [of _ "[]"]) (simp add: recorded_nothing scan.simps)

lemma run_recorder_kept:
  assumes "w_opened (dw_disk w) = []" and "closes_ok (dw_disk w)" and "run_recorder stop cfg w = (e, w')"
  shows "kept w w' (e = Exit 0)"
proof (cases "SbfRecorder_ctor (recorder_config cfg) (dw_disk w)")
  case (Inl x)
  with assms show ?thesis by (auto simp: run_recorder_def intro: kept_idle)
next
  case (Inr st)
  obtain l d r k where loop: "record_loop stop 0 (dw_data w) st = (l, d, (r, k))" by (metis prod_cases3 surj_pair)
  obtain bs where bs: "closes_ok k" "rx (dw_data w) = bs @ rx d" "prefix (recorded k) (content (scan_frames bs))"
    "case l of Loop_threw x \<Rightarrow> io_error x | _ \<Rightarrow> recorded k = content (scan_frames bs)"
    using record_loop_disk [OF Inr assms(1,2) loop] by blast
  obtain q c where q: "stop_streams (receiver cfg) (dw_ctrl w) = (q, c)" by fastforce
  obtain r1 k1 where close: "SbfRecorder_close (r, k) = (r1, k1)" by fastforce
  have "recorded k1 = recorded k" using recorded_close [OF bs(1), of r] close by simp
  moreover let ?run = "run_recorder stop cfg w"
  have "dw_data (snd ?run) = d \<and> (dw_disk (snd ?run) = k \<or> dw_disk (snd ?run) = k1) \<and> (fst ?run = Exit 0 \<longrightarrow> l = Loop_left)"
    by (cases l; cases q) (simp_all add: run_recorder_def Inr loop q close)
  ultimately show ?thesis using bs(2-4) assms(3) unfolding kept_def by (intro exI [of _ bs]) auto
qed

lemma run_driver_kept:
  assumes "w_opened (dw_disk w) = []" and "closes_ok (dw_disk w)" and "run_driver stop cfg w = (e, w')"
  shows "kept w w' (e = Exit 0)"
proof -
  obtain q c where c: "configure cfg (dw_ctrl w) = (q, c)" by fastforce
  obtain p d where d: "TcpClient_connect (host cfg) (ips_port (receiver cfg)) (dw_data w) = (p, d)" by fastforce
  let ?w = "w\<lparr>dw_ctrl := c, dw_data := d\<rparr>"
  show ?thesis
  proof (cases "(\<exists>a. q = Done a) \<and> (\<exists>a. p = Done a)")
    case True
    with c d assms(3) have "run_recorder stop cfg ?w = (e, w')" by (auto simp: run_driver_def)
    from run_recorder_kept [OF _ _ this] assms(1,2) connect_rx [OF d] show ?thesis by (simp add: kept_def)
  next
    case False
    then have "dw_disk w' = dw_disk w \<and> (dw_data w' = dw_data w \<or> dw_data w' = d)"
      using c d assms(3) by (cases q; cases p) (auto simp: run_driver_def)
    then show ?thesis using connect_rx [OF d] by (intro kept_idle [OF assms(1)]) auto
  qed
qed

lemma close_rx [simp]: "rx (TcpClient_close n) = rx n"
  by (simp add: TcpClient_close_def)

lemma leave_main_kept: "kept w w' b \<Longrightarrow> kept w (snd (leave_main (e, w'))) b"
  by (auto simp: kept_def leave_main_def split: exit_status.splits)

lemma leave_main_exit [simp]: "fst (leave_main x) = fst x"
  by (auto simp: leave_main_def split: prod.splits exit_status.splits)

lemma main_ran:
  assumes "main Y sink_throws stop argv w = (e, w')" and "w' \<noteq> w"
  shows "\<exists>cfg w1. run_driver stop cfg w = (e, w1) \<and> leave_main (e, w1) = (e, w')"
proof -
  from assms obtain cfg where run: "leave_main (run_driver stop cfg w) = (e, w')"
    by (auto simp: main_def Let_def split: args_result.splits sum.splits if_splits)
  moreover obtain w1 where "run_driver stop cfg w = (e, w1)"
    using arg_cong [OF run, of fst] by (cases "run_driver stop cfg w") simp
  ultimately show ?thesis by auto
qed

text \<open>
  C5: whatever the command line, the configuration, the receiver and the network do, whatever the disk refuses to open
  or to write as long as closing a file loses nothing, and whenever the stop signal comes: the bytes taken from the data connection are a piece \<open>bs\<close> of what
  the peer sends, the files written so far hold a prefix of the frames in \<open>bs\<close>, in order and
  unaltered, and when the program exits with code 0 they hold all of them.
\<close>

theorem main_records_frames:
  assumes "w_opened (dw_disk w) = []" and "closes_ok (dw_disk w)" and "main Y sink_throws stop argv w = (e, w')"
  shows "\<exists>bs. rx (dw_data w) = bs @ rx (dw_data w') \<and>
     prefix (recorded (dw_disk w')) (content (scan_frames bs)) \<and>
     (e = Exit 0 \<longrightarrow> recorded (dw_disk w') = content (scan_frames bs))"
proof -
  have "kept w w' (e = Exit 0)"
  proof (cases "w' = w")
    case True
    then show ?thesis using assms(1) by (auto intro: kept_idle)
  next
    case False
    then obtain cfg w1 where run: "run_driver stop cfg w = (e, w1)" "leave_main (e, w1) = (e, w')"
      using main_ran [OF assms(3)] by blast
    from leave_main_kept [OF run_driver_kept [OF assms(1,2) run(1)], of e] run(2) show ?thesis by simp
  qed
  then show ?thesis by (simp add: kept_def)
qed

section \<open>A cooperating receiver\<close>

definition reachable :: "string \<Rightarrow> u16 \<Rightarrow> net \<Rightarrow> bool" where
  "reachable h p n \<longleftrightarrow> fd n < 0 \<and>
     (\<exists>as. resolve n h p = Inr as \<and> (\<forall>a \<in> set as. fcntl_works a) \<and> (\<exists>a \<in> set as. usable a))"

lemma connect_reachable:
  assumes "reachable h p n"
  shows "\<exists>s. TcpClient_connect h p n = (Done (), n\<lparr>open_fds := int s # open_fds n, fd := int s\<rparr>)"
proof -
  obtain as where as: "resolve n h p = Inr as" "\<forall>a \<in> set as. fcntl_works a" "find usable as \<noteq> None" "fd n < 0"
    using assms by (auto simp: reachable_def find_None_iff)
  with connect_loop_first_usable [OF as(2), of h p 0 n] show ?thesis
    by (auto simp: TcpClient_connect_def)
qed

text \<open>
  The control peer greets, accepts the login, gives replies that the plan accepts, and answers the ten
  commands that stop the streams; the socket takes commands of up to \<open>l\<close> bytes, and all
  replies come within two seconds.
\<close>

definition cooperates :: "AppConfig \<Rightarrow> net \<Rightarrow> bool" where
  "cooperates cfg n \<longleftrightarrow>
     (\<exists>l banner granted replies stopped.
        ctrl_ready 2000 l (banner # granted # replies @ stopped) (n\<lparr>fd := 0\<rparr>) \<and>
        \<not> rejected granted \<and> list_all2 accepts (plan (receiver cfg)) replies \<and> length stopped = 10 \<and> 64 \<le> l \<and>
        length (command_line (''login, '' @ app_user cfg @ '', '' @ app_password cfg)) \<le> l \<and>
        (\<forall>s \<in> set (plan (receiver cfg)). length (command_line (step_cmd s)) \<le> l))"

lemma ctrl_ready_connected: "ctrl_ready t l rs (n\<lparr>fd := 0\<rparr>) \<Longrightarrow> ctrl_ready t l rs (n\<lparr>open_fds := x, fd := int s\<rparr>)"
  by (simp add: ctrl_ready_def)

lemma configure_completes:
  assumes "validate_receiver_settings (receiver cfg) = Inr ()" and "reachable (host cfg) (ctrl_port cfg) n"
    and "cooperates cfg n"
  shows "\<exists>n' n''. configure cfg n = (Done (), n') \<and> stop_streams (receiver cfg) n' = (Done (), n'')"
proof -
  obtain l b g rs ss where s: "ctrl_ready 2000 l (b # g # rs @ ss) (n\<lparr>fd := 0\<rparr>)" "\<not> rejected g"
      "list_all2 accepts (plan (receiver cfg)) rs" "length ss = 10" "64 \<le> l"
      "length (command_line (''login, '' @ app_user cfg @ '', '' @ app_password cfg)) \<le> l"
      "\<forall>s \<in> set (plan (receiver cfg)). length (command_line (step_cmd s)) \<le> l"
    using assms(3) unfolding cooperates_def by blast
  obtain fd1 where c: "TcpClient_connect (host cfg) (ctrl_port cfg) n =
      (Done (), n\<lparr>open_fds := int fd1 # open_fds n, fd := int fd1\<rparr>)" (is "_ = (_, ?n)")
    using connect_reachable [OF assms(2)] by blast
  have r0: "ctrl_ready 2000 l (b # g # rs @ ss) ?n" using s(1) by (rule ctrl_ready_connected)
  obtain n1 where n1: "login (app_user cfg) (app_password cfg) 5000 ?n = (Done (), n1)" "ctrl_ready 5000 l (rs @ ss) n1"
    using login_completes [OF ctrl_ready_mono [OF r0] s(2,6), of 5000] by auto
  have r1: "ctrl_ready 2000 l (rs @ ss) n1" by (rule ctrl_ready_sooner [OF n1(2) login_connection [OF n1(1)] r0])
  obtain n2 where n2: "ReceiverConfigurator_apply (receiver cfg) 3000 n1 = (Done (), n2)" "ctrl_ready 3000 l ss n2"
    using ctrl_up.run_steps_completes [OF ctrl_ready_mono [OF r1] s(3,7), of 3000] apply_plan [OF assms(1)] by auto
  have r2: "ctrl_ready 2000 l ss n2" by (rule ctrl_ready_sooner [OF n2(2) apply_connection [OF n2(1)] r1])
  have "\<forall>i \<in> set [1..<11]. length (command_line (clear_stream_command i)) \<le> l"
    using clear_stream_command_length s(5) by (meson order_trans)
  with stop_loop_completes [of l ss "[]" n2 "[1..<11]"] r2 s(4) obtain n3 where "stop_loop [1..<11] n2 = (Done (), n3)"
    by auto
  then show ?thesis using c n1(1) n2(1) by (auto simp: configure_def lift_tcp_def stop_streams_def)
qed

text \<open>The data peer sends chunks of at most the buffer's size, then closes.\<close>

definition sends_chunks :: "byte list list \<Rightarrow> net \<Rightarrow> bool" where
  "sends_chunks cs n \<longleftrightarrow>
     polls n = replicate (length cs) Poll_ready @ [Poll_ready] \<and> recvs n = map Received cs @ [Received []] \<and>
     (\<forall>c \<in> set cs. c \<noteq> [] \<and> length c \<le> 65536)"

lemma main_run:
  assumes "load_app_config Y path = Inr cfg" and "path \<noteq> []" and "setup_logging sink_throws cfg \<noteq> None" and "\<forall>j. \<not> stop j"
    and "reachable (host cfg) (ctrl_port cfg) (dw_ctrl w)" and "cooperates cfg (dw_ctrl w)"
    and "reachable (host cfg) (ips_port (receiver cfg)) (dw_data w)" and "sends_chunks cs (dw_data w)" and "cs \<noteq> []"
    and "w_mkdir_ok (dw_disk w)" and "w_opened (dw_disk w) = []" and "device_ok (dw_disk w)"
    and "unat (rotate_bytes cfg) + 8188 < 2 ^ 64"
  shows "\<exists>w' parts. main Y sink_throws stop [''--config'', path] w = (Exit 0, w') \<and>
     map (w_disk (dw_disk w')) (w_opened (dw_disk w')) = map (\<lambda>fs. Some (content fs)) parts \<and>
     distinct (w_opened (dw_disk w')) \<and> concat parts = scan_frames (concat cs) \<and> dw_file w' = None"
proof -
  have valid: "validate_receiver_settings (receiver cfg) = Inr ()" using load_valid [OF assms(1)] .
  obtain c c1 where c: "configure cfg (dw_ctrl w) = (Done (), c)" "stop_streams (receiver cfg) c = (Done (), c1)"
    using configure_completes [OF valid assms(5,6)] by blast
  obtain s where d: "TcpClient_connect (host cfg) (ips_port (receiver cfg)) (dw_data w) =
      (Done (), (dw_data w)\<lparr>open_fds := int s # open_fds (dw_data w), fd := int s\<rparr>)" (is "_ = (_, ?d)")
    using connect_reachable [OF assms(7)] by blast
  obtain st where st: "SbfRecorder_ctor (recorder_config cfg) (dw_disk w) = Inr st"
    using assms(10) by (simp add: SbfRecorder_ctor_def)
  obtain r k parts where k: "record_chunks cs st = Inr (r, k)" "recording (w_steadys (dw_disk w)) (r, k) parts" "concat parts = scan_frames (concat cs)"
      "closes_ok k"
    using record_from_start [OF st assms(11,12) _ assms(9)] assms(13) env_same_device device_closes assms(12)
    by (fastforce simp: recorder_config_def)
  obtain d' where loop: "record_loop stop 0 ?d st = (Loop_left, d', (r, k))"
    using record_loop_delivers [of ?d cs stop st "(r, k)" 0] assms(4,8) k(1) by (auto simp: sends_chunks_def)
  have args: "parse_args [''--config'', path] [] [] = Run path []"
    using parse_args_options [of "[(True, path)]"] assms(2) by (simp add: last_of_def)
  let ?w = "w\<lparr>dw_ctrl := TcpClient_close c1, dw_data := TcpClient_close d', dw_disk := k\<lparr>w_closes := Suc (w_closes k)\<rparr>, dw_file := None\<rparr>"
  have "rec_fp r \<noteq> None" by (rule writtenD(2) [OF recordingD [OF k(2)]])
  then have close: "\<exists>r1. SbfRecorder_close (r, k) = (r1, k\<lparr>w_closes := Suc (w_closes k)\<rparr>) \<and> rec_fp r1 = None"
    using fclose_lossless k(4) by (auto simp: SbfRecorder_close_def)
  have "main Y sink_throws stop [''--config'', path] w = (Exit 0, ?w)"
    using assms(1,3) c d st loop close
    by (auto simp: main_def args run_driver_def run_recorder_def leave_main_def)
  moreover have "rec_rel (r, k) parts" by (rule writtenD(1) [OF recordingD [OF k(2)]])
  ultimately show ?thesis using k(3) by (intro exI [of _ ?w] exI [of _ parts]) (simp add: rec_rel_def)
qed

text \<open>
  C6: the program does its work. With a configuration that loads, a control peer that cooperates, a
  data peer that sends chunks and closes, a disk that takes what is written and no signal, \<open>main\<close> exits with
  code 0, and the files it opened, which are distinct, hold exactly the frames of the stream; the output
  file is closed.
\<close>

theorem main_completes:
  assumes "load_app_config Y path = Inr cfg" and "path \<noteq> []" and "setup_logging sink_throws cfg \<noteq> None" and "\<forall>j. \<not> stop j"
    and "reachable (host cfg) (ctrl_port cfg) (dw_ctrl w)" and "cooperates cfg (dw_ctrl w)"
    and "reachable (host cfg) (ips_port (receiver cfg)) (dw_data w)" and "sends_chunks cs (dw_data w)" and "cs \<noteq> []"
    and "w_mkdir_ok (dw_disk w)" and "w_opened (dw_disk w) = []" and "device_ok (dw_disk w)"
    and "unat (rotate_bytes cfg) + 8188 < 2 ^ 64"
  shows "\<exists>w' parts. main Y sink_throws stop [''--config'', path] w = (Exit 0, w') \<and>
     map (w_disk (dw_disk w')) (w_opened (dw_disk w')) = map (\<lambda>fs. Some (content fs)) parts \<and>
     distinct (w_opened (dw_disk w')) \<and> concat parts = scan_frames (concat cs) \<and> dw_file w' = None"
  using assms by (rule main_run [where cfg = cfg])

section \<open>An example run\<close>

text \<open>A small configuration, a receiver that accepts it, and a data peer that sends three frames.\<close>

definition ex_run_doc :: ynode where
  "ex_run_doc = YMap
     [(''receiver'', YMap
        [(''imu'', YMap [(''ant_lever_arm_m'', YSeq [YScalar ''0'', YScalar ''0'', YScalar ''0''])]),
         (''streams'', YSeq [YMap [(''id'', YScalar ''1''), (''interval'', YScalar ''OnChange''),
            (''blocks'', YSeq [YScalar ''ExtSensorMeas'', YScalar ''MeasEpoch''])]])])]"

definition ex_run_cfg :: AppConfig where
  "ex_run_cfg = AppConfig_default\<lparr>receiver := ex_quick\<rparr>"

lemma load_ex_run: "load_app_config (ex_yaml ex_run_doc) ''c.yaml'' = Inr ex_run_cfg"
proof -
  have lc: "lower_copy ''SensorDefault'' = ''sensordefault''" by code_simp
  have "parse_int32 ''1'' = Some 1" by code_simp
  then have "read_config (ex_yaml ex_run_doc) ex_run_doc = validated ex_run_cfg"
    using lc
    by (simp add: read_config_def section_of_def get_def yaml_err_def ex_run_doc_def ex_yaml_def parse_connection_def
        opt_def read_port_def as_int_def as_string_def as_bool_def as_double_def parse_receiver_def parse_imu_def
        read_vec3_def parse_double_zero AppConfig_default_def ReceiverSettings_default_def ex_run_cfg_def ex_quick_def)
  moreover have "validate_receiver_settings (receiver ex_run_cfg) = Inr ()"
    using ex_quick_valid by (simp add: ex_run_cfg_def)
  ultimately show ?thesis by (simp add: load_app_config_def validated_def) (simp add: ex_yaml_def)
qed

definition ex_session :: "string list" where
  "ex_session = [''AsteRx IPS1>'', ''$R; login IPS1>''] @ ex_replies @ replicate 10 ''IPS1>''"

definition ex_run :: driver_world where
  "ex_run =
     \<lparr>dw_ctrl = (ex_closed [ex_attempt])\<lparr>clock := (\<lambda>i. 0), sends := replicate 39 (Sent 200),
        polls := replicate 39 Poll_ready, recvs := map (Received \<circ> bytes_of_string) ex_session\<rparr>,
      dw_data = (ex_closed [ex_attempt\<lparr>at_poll := Poll_timeout\<rparr>, ex_attempt])\<lparr>
        polls := [Poll_ready, Poll_ready, Poll_ready], recvs := map Received ex_stream @ [Received []]\<rparr>,
      dw_disk = ex_world, dw_file = None\<rparr>"

lemma ex_session_ready: "ctrl_ready 2000 200 ex_session ((dw_ctrl ex_run)\<lparr>fd := 0\<rparr>)"
proof -
  let ?css = "map (\<lambda>r. [bytes_of_string r]) ex_session"
  have len: "length ex_session = 39" by (simp add: ex_session_def ex_replies_def)
  have "ex_session = map (string_of_bytes \<circ> concat) ?css" by (simp add: comp_def)
  moreover have "list_all prompt_last ex_session"
    using ex_replies_prompt by (auto simp: ex_session_def list_all_iff prompt_last_def str_contains_def)
  then have "\<forall>cs \<in> set ?css. good_reply cs" using one_piece by (auto simp: list_all_iff)
  moreover have "concat ?css = map bytes_of_string ex_session" by (induction ex_session) simp_all
  ultimately show ?thesis
    unfolding ctrl_ready_def by (intro conjI exI [of _ ?css]) (auto simp: ex_run_def ex_closed_def ex_net_def len)
qed

lemma ex_cooperates: "cooperates ex_run_cfg (dw_ctrl ex_run)"
  unfolding cooperates_def
proof (intro exI conjI)
  show "ctrl_ready 2000 200 (''AsteRx IPS1>'' # ''$R; login IPS1>'' # ex_replies @ replicate 10 ''IPS1>'')
      ((dw_ctrl ex_run)\<lparr>fd := 0\<rparr>)"
    using ex_session_ready by (simp add: ex_session_def)
  show "\<not> rejected ''$R; login IPS1>''" by (simp add: rejected_def str_contains_def)
  show "list_all2 accepts (plan (receiver ex_run_cfg)) ex_replies"
    using ex_plan_accepted by (simp add: ex_run_cfg_def)
  show "\<forall>s \<in> set (plan (receiver ex_run_cfg)). length (command_line (step_cmd s)) \<le> 200"
    using ex_plan_fits by (simp add: ex_run_cfg_def)
qed (simp_all add: length_command_line ex_run_cfg_def AppConfig_default_def)

lemma ex_run_data: "sends_chunks ex_stream (dw_data ex_run)"
  by (simp add: sends_chunks_def ex_run_def ex_stream_def ex_frame_def wire_def)

lemma ex_run_reachable: "reachable h p (dw_ctrl ex_run)" "reachable h p (dw_data ex_run)"
  by (simp_all add: reachable_def ex_run_def ex_closed_def ex_attempt_def fcntl_works_def usable_def)

lemma ex_run_disk: "w_mkdir_ok (dw_disk ex_run)" "w_opened (dw_disk ex_run) = []" "device_ok (dw_disk ex_run)"
  by (simp_all add: ex_run_def ex_world_def device_ok_def closes_ok_def)

theorem main_completes_witness:
  "\<exists>w' parts. main (ex_yaml ex_run_doc) (\<lambda>_ _ _. False) (\<lambda>_. False) [''--config'', ''c.yaml''] ex_run = (Exit 0, w') \<and>
     map (w_disk (dw_disk w')) (w_opened (dw_disk w')) = map (\<lambda>fs. Some (content fs)) parts \<and>
     distinct (w_opened (dw_disk w')) \<and> concat parts = scan_frames (concat ex_stream) \<and> dw_file w' = None"
  by (rule main_completes [OF load_ex_run _ _ _ ex_run_reachable(1) ex_cooperates ex_run_reachable(2) ex_run_data
        _ ex_run_disk]) (simp_all add: ex_stream_def ex_run_cfg_def AppConfig_default_def)

lemma ex_main_exit:
  "\<exists>w'. main (ex_yaml ex_run_doc) (\<lambda>_ _ _. False) (\<lambda>_. False) [''--config'', ''c.yaml''] ex_run = (Exit 0, w')"
  using main_run [OF load_ex_run _ _ _ ex_run_reachable(1) ex_cooperates ex_run_reachable(2) ex_run_data _ ex_run_disk,
      of "\<lambda>_ _ _. False" "\<lambda>_. False"]
  by (auto simp: ex_stream_def ex_run_cfg_def AppConfig_default_def)

theorem main_records_frames_witness:
  "\<exists>w' bs. main (ex_yaml ex_run_doc) (\<lambda>_ _ _. False) (\<lambda>_. False) [''--config'', ''c.yaml''] ex_run = (Exit 0, w') \<and>
     rx (dw_data ex_run) = bs @ rx (dw_data w') \<and> recorded (dw_disk w') = content (scan_frames bs)"
  using ex_main_exit main_records_frames [OF ex_run_disk(2) device_closes [OF ex_run_disk(3)]] by blast

section \<open>Leaving the program\<close>

text \<open>The process holds the descriptor of the object, and no other.\<close>

definition sock_ok :: "net \<Rightarrow> bool" where
  "sock_ok n \<longleftrightarrow> open_fds n = (if fd n < 0 then [] else [fd n])"

definition no_fcntl_failure :: "net \<Rightarrow> bool" where
  "no_fcntl_failure n \<longleftrightarrow> (\<forall>h p as. resolve n h p = Inr as \<longrightarrow> (\<forall>a \<in> set as. fcntl_works a))"

lemma sock_ok_connection: "connection n' = connection n \<Longrightarrow> sock_ok n \<Longrightarrow> sock_ok n'"
  by (simp add: connection_def sock_ok_def)

lemma sock_ok_closed: "sock_ok n \<Longrightarrow> open_fds (TcpClient_close n) = []"
  by (simp add: sock_ok_def TcpClient_close_def split: if_splits)

lemma connect_sock_ok:
  assumes "no_fcntl_failure n" and "sock_ok n" and "TcpClient_connect h p n = (r, n')"
  shows "sock_ok n'"
proof (cases "0 \<le> fd n \<or> (\<exists>e. resolve n h p = Inl e)")
  case True
  then show ?thesis using assms(2,3) by (auto simp: TcpClient_connect_def split: if_splits)
next
  case False
  then obtain as where as: "resolve n h p = Inr as" "fd n < 0" by (cases "resolve n h p") auto
  with assms(1) have "\<forall>a \<in> set as. fcntl_works a" by (auto simp: no_fcntl_failure_def)
  from connect_loop_first_usable [OF this, of h p 0 n] as assms(2,3) show ?thesis
    by (auto simp: TcpClient_connect_def sock_ok_def split: option.splits)
qed

lemma record_loop_connection: "record_loop stop i d st = (e, d', st') \<Longrightarrow> connection d' = connection d"
proof (induction "length (polls d)" arbitrary: i d st rule: less_induct)
  case less
  obtain q d1 where rd: "read_some 65536 10000 d = (q, d1)" by fastforce
  have d1: "connection d1 = connection d"
    using read_some_law(3) [OF rd] by (cases d; cases d1) (simp add: rx_frame_def connection_def)
  show ?case
  proof (cases "d' = d \<or> d' = d1")
    case True
    with d1 show ?thesis by auto
  next
    case False
    then obtain bs st1 where "q = Done bs" "record_loop stop (Suc i) d1 st1 = (e, d', st')"
      using less.prems rd by (auto simp: record_loop.simps [of stop i d st] split: if_splits io.splits sum.splits)
    with less.hyps [of d1 "Suc i" st1] read_some_polls rd d1 show ?thesis by simp
  qed
qed

lemma configure_sock_ok:
  assumes "no_fcntl_failure n" and "sock_ok n" and "configure cfg n = (r, n')"
  shows "sock_ok n'"
proof -
  obtain q n1 where c: "TcpClient_connect (host cfg) (ctrl_port cfg) n = (q, n1)" by fastforce
  obtain p n2 where l: "login (app_user cfg) (app_password cfg) 5000 n1 = (p, n2)" by fastforce
  obtain u n3 where a: "ReceiverConfigurator_apply (receiver cfg) 3000 n2 = (u, n3)" by fastforce
  have ok: "sock_ok n1" "sock_ok n2" "sock_ok n3"
    using connect_sock_ok [OF assms(1,2) c] login_connection [OF l] apply_connection [OF a] sock_ok_connection by blast+
  have "n' = n1 \<or> n' = n2 \<or> n' = n3"
    using assms(3) c l a by (cases q; cases p) (auto simp: configure_def lift_tcp_def)
  with ok show ?thesis by auto
qed

lemma run_recorder_left:
  assumes "sock_ok (dw_ctrl w)" and "sock_ok (dw_data w)" and "dw_file w = None" and "run_recorder stop cfg w = (Exit code, w')"
  shows "sock_ok (dw_ctrl w') \<and> sock_ok (dw_data w') \<and> dw_file w' = None"
proof (cases "SbfRecorder_ctor (recorder_config cfg) (dw_disk w)")
  case (Inl x)
  with assms show ?thesis by (auto simp: run_recorder_def)
next
  case (Inr st)
  obtain l d r k where loop: "record_loop stop 0 (dw_data w) st = (l, d, (r, k))" by (metis prod_cases3 surj_pair)
  obtain q c where q: "stop_streams (receiver cfg) (dw_ctrl w) = (q, c)" by fastforce
  have ok: "sock_ok d" "sock_ok c"
    using assms(1,2) record_loop_connection [OF loop] stop_loop_connection q sock_ok_connection
    unfolding stop_streams_def by blast+
  let ?run = "run_recorder stop cfg w"
  have "fst ?run = Exit code \<longrightarrow>
      (dw_ctrl (snd ?run) = dw_ctrl w \<or> dw_ctrl (snd ?run) = c) \<and> dw_data (snd ?run) = d \<and> dw_file (snd ?run) = None"
    by (cases l; cases q) (simp_all add: run_recorder_def Inr loop q SbfRecorder_close_def split: option.splits)
  with ok assms(1,4) show ?thesis by auto
qed

text \<open>
  C28: every exit closes everything. Provided that \<open>fcntl\<close> does not fail, whenever the program
  returns an exit code, on success or after any error, it holds no socket and its output file is closed.
\<close>

theorem exit_closes_everything:
  assumes "sock_ok (dw_ctrl w)" and "sock_ok (dw_data w)" and "fd (dw_ctrl w) < 0" and "fd (dw_data w) < 0"
    and "no_fcntl_failure (dw_ctrl w)" and "no_fcntl_failure (dw_data w)" and "dw_file w = None"
    and "main Y sink_throws stop argv w = (Exit code, w')"
  shows "open_fds (dw_ctrl w') = [] \<and> open_fds (dw_data w') = [] \<and> dw_file w' = None"
proof (cases "w' = w")
  case True
  then show ?thesis using assms(1-4,7) by (simp add: sock_ok_def)
next
  case False
  then obtain cfg w1 where run: "run_driver stop cfg w = (Exit code, w1)"
      "w' = w1\<lparr>dw_ctrl := TcpClient_close (dw_ctrl w1), dw_data := TcpClient_close (dw_data w1)\<rparr>"
    using main_ran [OF assms(8)] by (auto simp: leave_main_def)
  obtain q c where c: "configure cfg (dw_ctrl w) = (q, c)" by fastforce
  obtain p d where d: "TcpClient_connect (host cfg) (ips_port (receiver cfg)) (dw_data w) = (p, d)" by fastforce
  note ok = configure_sock_ok [OF assms(5,1) c] connect_sock_ok [OF assms(6,2) d]
  let ?w = "w\<lparr>dw_ctrl := c, dw_data := d\<rparr>"
  let ?run = "run_driver stop cfg w"
  have "snd ?run = w\<lparr>dw_ctrl := c\<rparr> \<or> snd ?run = ?w \<or> ?run = run_recorder stop cfg ?w"
    by (cases q; cases p) (simp_all add: run_driver_def c d)
  then have "w1 = w\<lparr>dw_ctrl := c\<rparr> \<or> w1 = ?w \<or> run_recorder stop cfg ?w = (Exit code, w1)"
    unfolding run(1) by auto
  then have "sock_ok (dw_ctrl w1) \<and> sock_ok (dw_data w1) \<and> dw_file w1 = None"
    using ok assms(2,7) run_recorder_left [of ?w stop cfg code w1] by auto
  then show ?thesis using run(2) sock_ok_closed by simp
qed

theorem exit_closes_everything_witness:
  "\<exists>w'. main (ex_yaml ex_run_doc) (\<lambda>_ _ _. False) (\<lambda>_. False) [''--config'', ''c.yaml''] ex_run = (Exit 0, w') \<and>
     open_fds (dw_ctrl w') = [] \<and> open_fds (dw_data w') = [] \<and> dw_file w' = None"
proof -
  have "no_fcntl_failure (dw_ctrl ex_run)" "no_fcntl_failure (dw_data ex_run)"
    by (auto simp: no_fcntl_failure_def ex_run_def ex_closed_def ex_attempt_def fcntl_works_def)
  moreover have "sock_ok (dw_ctrl ex_run)" "sock_ok (dw_data ex_run)" "fd (dw_ctrl ex_run) < 0" "fd (dw_data ex_run) < 0"
      "dw_file ex_run = None"
    by (simp_all add: sock_ok_def ex_run_def ex_closed_def)
  ultimately show ?thesis using ex_main_exit exit_closes_everything by blast
qed

lemma usage_codes: "parse_args argv p l = Usage c \<Longrightarrow> c = 0 \<or> c = 3"
proof (induction argv p l rule: parse_args.induct)
  case (1 argv p l)
  then show ?case
    by (cases argv) (auto simp: parse_args.simps [of "[]"] parse_args.simps [of "_ # _"] split: if_splits)
qed

text \<open>
  The exit codes. Code 3 means that the arguments were wrong and code 2 that the configuration did
  not load; in both cases nothing was touched. Codes 0 and 1 are the only others, and a code other than 0
  after the configuration has loaded is always 1.
\<close>

theorem main_exit_codes:
  assumes "main Y sink_throws stop argv w = (Exit code, w')"
  shows "(case parse_args argv [] [] of
       Usage c \<Rightarrow> code = c \<and> code \<in> {0, 3} \<and> w' = w
     | Run path level \<Rightarrow>
         (case load_app_config Y path of
            Inl _ \<Rightarrow> code = 2 \<and> w' = w
          | Inr cfg \<Rightarrow> code \<in> {0, 1}))"
proof -
  have recorder: "fst (run_recorder stop cfg v) \<in> {Exit 0, Exit 1, Waits}" for cfg v
    by (auto simp: run_recorder_def split: sum.splits prod.splits loop_end.splits io.splits)
  have "fst (run_driver stop cfg v) \<in> {Exit 0, Exit 1, Waits}" for cfg v
    using recorder by (auto simp: run_driver_def split: prod.splits io.splits)
  then have codes: "run_driver stop cfg v = (Exit c, v') \<Longrightarrow> c \<in> {0, 1}" for cfg v c v'
    by (metis exit_status.distinct exit_status.inject fst_conv insertE insert_iff singletonD)
  from assms show ?thesis
    by (auto simp: main_def Let_def leave_main_def dest!: codes usage_codes
        split: args_result.splits sum.splits if_splits prod.splits exit_status.splits)
qed

theorem main_exit_codes_witness:
  "\<exists>w'. main (ex_yaml ex_run_doc) (\<lambda>_ _ _. False) (\<lambda>_. False) [''--config'', ''c.yaml''] ex_run = (Exit 0, w') \<and>
     (case parse_args [''--config'', ''c.yaml''] [] [] of
        Usage c \<Rightarrow> 0 = c \<and> (0 :: int) \<in> {0, 3} \<and> w' = ex_run
      | Run path level \<Rightarrow>
          (case load_app_config (ex_yaml ex_run_doc) path of
             Inl _ \<Rightarrow> (0 :: int) = 2 \<and> w' = ex_run
           | Inr cfg \<Rightarrow> (0 :: int) \<in> {0, 1}))"
  using ex_main_exit main_exit_codes by blast

end
