(* ===== verification/CloseLosses.thy ===== *)
theory CloseLosses
  imports DriverProps
begin

text \<open>
  The results of \<open>fflush\<close> and \<open>fclose\<close> are ignored (src/src/sbf_recorder.cpp, \<open>close\<close> and \<open>open_new_file_\<close>). A run whose
  closes lose bytes is compared with the run in which they lose nothing: by a simulation, both go through the same
  states but for the contents of files, and every file of the first is a prefix of the same file of the second.
\<close>

section \<open>The simulation\<close>

definition shortened :: "(nat \<Rightarrow> nat) \<Rightarrow> rec_state \<Rightarrow> rec_state \<Rightarrow> bool" where
  "shortened l st st2 \<longleftrightarrow>
     (\<exists>r w d. st = (r, w) \<and> st2 = (r, w\<lparr>w_disk := d, w_close_lost := l\<rparr>) \<and> closes_ok w \<and>
        (\<forall>p. rel_option prefix (d p) (w_disk w p)) \<and> (\<forall>p. rec_fp r = Some p \<longrightarrow> d p = w_disk w p))"

abbreviation cut_res :: "(nat \<Rightarrow> nat) \<Rightarrow> rec_result \<Rightarrow> rec_result \<Rightarrow> bool" where
  "cut_res l \<equiv> rel_sum (rel_prod (=) (shortened l)) (shortened l)"

lemma cutI:
  "closes_ok w \<Longrightarrow> (\<And>p. rel_option prefix (d p) (w_disk w p)) \<Longrightarrow> (\<And>p. rec_fp r = Some p \<Longrightarrow> d p = w_disk w p) \<Longrightarrow>
     w2 = w\<lparr>w_disk := d, w_close_lost := l\<rparr> \<Longrightarrow> shortened l (r, w) (r, w2)"
  unfolding shortened_def by blast

lemma cutE:
  assumes "shortened l (r, w) st2"
  obtains d where "st2 = (r, w\<lparr>w_disk := d, w_close_lost := l\<rparr>)" "closes_ok w"
    "\<And>p. rel_option prefix (d p) (w_disk w p)" "\<And>p. rec_fp r = Some p \<Longrightarrow> d p = w_disk w p"
  using assms unfolding shortened_def by blast

lemma cut_bind:
  assumes "cut_res l m m2" and "\<And>st st2. shortened l st st2 \<Longrightarrow> cut_res l (k st) (k st2)"
  shows "cut_res l (bind_res m k) (bind_res m2 k)"
  using assms by (cases m; cases m2) auto

text \<open>Changing the recorder but not its file, and reading a clock.\<close>

lemma cut_recorder: "shortened l (r, w) (r, w2) \<Longrightarrow> rec_fp r' = rec_fp r \<Longrightarrow> shortened l (r', w) (r', w2)"
  by (auto simp: shortened_def)

lemma cut_same_recorder: "shortened l (r, w) (r2, w2) \<Longrightarrow> r2 = r"
  by (auto simp: shortened_def)

lemma cut_steady:
  assumes "shortened l (r, w) (r, w2)"
  shows "shortened l (r, w\<lparr>w_steadys := n\<rparr>) (r, w2\<lparr>w_steadys := n\<rparr>)"
  using assms by (elim cutE) (rule cutI [where d = "w_disk w2"], auto)

lemma prefix_cut: "rel_option prefix x y \<Longrightarrow> rel_option prefix (map_option (\<lambda>bs. take (f bs) bs) x) y"
  by (cases x; cases y) (auto intro: prefix_order.trans take_is_prefix)

lemma cut_fclose:
  assumes "shortened l (r, w) (r, w2)"
  shows "shortened l (r\<lparr>rec_fp := None\<rparr>, fclose_file p w) (r\<lparr>rec_fp := None\<rparr>, fclose_file p w2)"
  using assms
proof (elim cutE)
  fix d assume d: "(r, w2) = (r, w\<lparr>w_disk := d, w_close_lost := l\<rparr>)" "closes_ok w" "\<And>p. rel_option prefix (d p) (w_disk w p)"
  show ?thesis
    by (rule cutI [where d = "d(p := map_option (\<lambda>bs. take (length bs - l (w_closes w)) bs) (d p))"])
      (use d in \<open>simp_all add: fclose_lossless [OF d(2)] fclose_file_def [of p "w\<lparr>w_disk := d, w_close_lost := l\<rparr>"] prefix_cut\<close>)
qed

lemma cut_close: "shortened l st st2 \<Longrightarrow> shortened l (SbfRecorder_close st) (SbfRecorder_close st2)"
proof (cases st; cases st2)
  fix r w r2 w2
  assume c: "shortened l st st2" and st: "st = (r, w)" "st2 = (r2, w2)"
  then have r2: "r2 = r" using cut_same_recorder by blast
  from c cut_recorder [OF cut_fclose, of l r w w2 "r\<lparr>rec_fp := None, current_size := 0\<rparr>"] show ?thesis
    by (auto simp: SbfRecorder_close_def st r2 split: option.splits)
qed

lemma cut_fopen:
  assumes "shortened l (r, w) (r, w2)" and "rec_fp r = None"
  shows "fopen_wb p w2 = (fst (fopen_wb p w), snd (fopen_wb p w2))"
    and "shortened l (r, snd (fopen_wb p w)) (r, snd (fopen_wb p w2))"
    and "fst (fopen_wb p w) \<Longrightarrow> shortened l (r\<lparr>rec_fp := Some p\<rparr>, snd (fopen_wb p w)) (r\<lparr>rec_fp := Some p\<rparr>, snd (fopen_wb p w2))"
proof -
  obtain d where d: "w2 = w\<lparr>w_disk := d, w_close_lost := l\<rparr>" "closes_ok w" "\<And>p. rel_option prefix (d p) (w_disk w p)"
    using assms(1) by (elim cutE) simp
  show "fopen_wb p w2 = (fst (fopen_wb p w), snd (fopen_wb p w2))" by (simp add: fopen_wb_def d(1))
  show "shortened l (r, snd (fopen_wb p w)) (r, snd (fopen_wb p w2))"
    by (rule cutI [where d = "if fst (fopen_wb p w) then d(p \<mapsto> []) else d"])
      (use d assms(2) in \<open>simp_all add: fopen_wb_def split: if_splits\<close>)
  show "shortened l (r\<lparr>rec_fp := Some p\<rparr>, snd (fopen_wb p w)) (r\<lparr>rec_fp := Some p\<rparr>, snd (fopen_wb p w2))" if "fst (fopen_wb p w)"
    by (rule cutI [where d = "d(p \<mapsto> [])"]) (use d that in \<open>simp_all add: fopen_wb_def split: if_splits\<close>)
qed

lemma cut_open:
  assumes "shortened l st st2"
  shows "cut_res l (open_new_file st) (open_new_file st2)"
proof -
  obtain r w w2 where st: "st = (r, w)" "st2 = (r, w2)" and c: "shortened l (r, w) (r, w2)"
    using assms by (auto simp: shortened_def)
  define r1 where "r1 = (if rec_fp r = None then r
    else r\<lparr>rec_fp := None, rec_stats := (rec_stats r)\<lparr>files_rotated := files_rotated (rec_stats r) + 1\<rparr>\<rparr>)"
  define close where "close = (case rec_fp r of None \<Rightarrow> (\<lambda>v. v) | Some q \<Rightarrow> fclose_file q)"
  have c1: "shortened l (r1, close w) (r1, close w2)" and fp: "rec_fp r1 = None"
    using c cut_recorder [OF cut_fclose [OF c], of r1] by (auto simp: r1_def close_def split: option.splits)
  define p where "p = file_path (rec_cfg r1) (w_utc (close w) (length (w_opened (close w)))) (Suc (seq_num r1))"
  have p2: "p = file_path (rec_cfg r1) (w_utc (close w2) (length (w_opened (close w2)))) (Suc (seq_num r1))"
    using c1 by (auto simp: p_def elim: cutE)
  let ?r2 = "r1\<lparr>seq_num := Suc (seq_num r1), current_path := p\<rparr>"
  have open_eq: "open_new_file (r, v) =
      (if \<not> fst (fopen_wb p (close v)) then Inl (Cannot_open p, (?r2, snd (fopen_wb p (close v))))
       else let (now, u) = steady_now (snd (fopen_wb p (close v)))
            in Inr (?r2\<lparr>rec_fp := Some p, current_size := 0, file_start := now\<rparr>, u))"
    if "p = file_path (rec_cfg r1) (w_utc (close v) (length (w_opened (close v)))) (Suc (seq_num r1))" for v
    unfolding open_new_file_def Let_def that
    by (auto simp: r1_def close_def split: option.splits prod.splits)
  note f = cut_fopen [OF c1 fp, of p]
  show ?thesis
  proof (cases "fst (fopen_wb p (close w))")
    case False
    then show ?thesis
      using f(1) cut_recorder [OF f(2), of ?r2]
      by (simp add: st open_eq [OF p_def] open_eq [OF p2] prod_eq_iff)
  next
    case True
    have n: "fst (fopen_wb p (close w2))" using True f(1) by (simp add: prod_eq_iff)
    obtain now u where s1: "steady_now (snd (fopen_wb p (close w))) = (now, u)" by fastforce
    obtain now2 u2 where s2: "steady_now (snd (fopen_wb p (close w2))) = (now2, u2)" by fastforce
    have "now2 = now" "shortened l (r1\<lparr>rec_fp := Some p\<rparr>, u) (r1\<lparr>rec_fp := Some p\<rparr>, u2)"
      using f(3) [OF True] s1 s2 cut_steady [OF f(3) [OF True]]
      by (auto simp: steady_now_def elim!: cutE)
    moreover from this(2)
    have "shortened l (?r2\<lparr>rec_fp := Some p, current_size := 0, file_start := now\<rparr>, u)
        (?r2\<lparr>rec_fp := Some p, current_size := 0, file_start := now\<rparr>, u2)"
      by (rule cut_recorder) simp
    ultimately show ?thesis
      using True n s1 s2 by (simp add: st open_eq [OF p_def] open_eq [OF p2])
  qed
qed

lemma cut_rotate:
  assumes "shortened l st st2"
  shows "cut_res l (rotate_if_needed st) (rotate_if_needed st2)"
proof -
  obtain r w w2 where st: "st = (r, w)" "st2 = (r, w2)" and c: "shortened l (r, w) (r, w2)"
    using assms by (auto simp: shortened_def)
  have now: "w_steady w2 = w_steady w" "w_steadys w2 = w_steadys w"
    using c by (auto elim: cutE)
  have c1: "shortened l (r, w\<lparr>w_steadys := Suc (w_steadys w)\<rparr>) (r, w2\<lparr>w_steadys := Suc (w_steadys w)\<rparr>)"
    by (rule cut_steady [OF c])
  show ?thesis
    using c c1 cut_open [OF c1] by (simp add: st rotate_if_needed_def steady_now_def Let_def now)
qed

lemma cut_fwrite:
  assumes "shortened l (r, w) (r, w2)" and "rec_fp r = Some p"
  shows "fst (fwrite_to p bs w2) = fst (fwrite_to p bs w)"
    and "shortened l (r, snd (fwrite_to p bs w)) (r, snd (fwrite_to p bs w2))"
proof -
  obtain d where d: "w2 = w\<lparr>w_disk := d, w_close_lost := l\<rparr>" "closes_ok w" "\<And>p. rel_option prefix (d p) (w_disk w p)"
      "d p = w_disk w p"
    using assms by (elim cutE) simp
  show "fst (fwrite_to p bs w2) = fst (fwrite_to p bs w)" by (simp add: fwrite_to_def Let_def d(1))
  show "shortened l (r, snd (fwrite_to p bs w)) (r, snd (fwrite_to p bs w2))"
    by (rule cutI [where d = "\<lambda>q. if q = p then w_disk (snd (fwrite_to p bs w)) p else d q"])
      (use d assms(2) in \<open>auto simp: fwrite_to_def Let_def closes_ok_def fun_eq_iff\<close>)
qed

lemma cut_write:
  assumes "shortened l st st2"
  shows "cut_res l (write_frame f st) (write_frame f st2)"
proof -
  obtain r w w2 where st: "st = (r, w)" "st2 = (r, w2)" and c: "shortened l (r, w) (r, w2)"
    using assms by (auto simp: shortened_def)
  show ?thesis
  proof (cases "rec_fp r")
    case None
    then show ?thesis using c by (simp add: st write_frame_def)
  next
    case (Some p)
    note h = cut_fwrite [OF c Some, of "frame_header f"]
    note b = cut_fwrite [OF h(2) Some, of "frame_body f"]
    show ?thesis
      using h b cut_recorder [OF h(2), of "count_written f r"] cut_recorder [OF b(2), of "count_written f r"]
      by (simp add: st write_frame_def Some Let_def split_beta)
  qed
qed

lemma cut_write_frames: "shortened l st st2 \<Longrightarrow> cut_res l (write_frames fs st) (write_frames fs st2)"
proof (induction fs arbitrary: st st2)
  case (Cons f fs)
  show ?case unfolding write_frames_unfold
    by (intro cut_bind Cons.IH) (use Cons.prems in \<open>auto intro: cut_write cut_rotate\<close>)
qed simp

lemma cut_feed:
  assumes "shortened l st st2"
  shows "cut_res l (SbfRecorder_feed bytes st) (SbfRecorder_feed bytes st2)"
proof -
  have "cut_res l (if rec_fp (fst st) = None then open_new_file st else Inr st)
      (if rec_fp (fst st2) = None then open_new_file st2 else Inr st2)"
    using assms cut_open [OF assms] by (auto simp: shortened_def)
  then show ?thesis
    unfolding SbfRecorder_feed_def
  proof (rule cut_bind)
    fix st st2 assume "shortened l st st2"
    then obtain r w w2 where st: "st = (r, w)" "st2 = (r, w2)" and c: "shortened l (r, w) (r, w2)"
      by (auto simp: shortened_def)
    have "shortened l (take_sync_stats (r\<lparr>rec_sync := s\<rparr>), w) (take_sync_stats (r\<lparr>rec_sync := s\<rparr>), w2)" for s
      using cut_recorder [OF c] by simp
    with c cut_write_frames
    show "cut_res l (case st of (r, w) \<Rightarrow> case SbfFrameSync_feed (rec_sync r) bytes [] of
            Inl e \<Rightarrow> Inl (Sync_fault e, (r, w)) | Inr (s, fs) \<Rightarrow> write_frames fs (take_sync_stats (r\<lparr>rec_sync := s\<rparr>), w))
        (case st2 of (r, w) \<Rightarrow> case SbfFrameSync_feed (rec_sync r) bytes [] of
            Inl e \<Rightarrow> Inl (Sync_fault e, (r, w)) | Inr (s, fs) \<Rightarrow> write_frames fs (take_sync_stats (r\<lparr>rec_sync := s\<rparr>), w))"
      by (auto simp: st split: sum.splits prod.splits)
  qed
qed

section \<open>The program\<close>

lemma cut_loop:
  assumes "shortened l st st2" and "record_loop stop i d st = (e, d', st')"
  shows "\<exists>st2'. record_loop stop i d st2 = (e, d', st2') \<and> shortened l st' st2'"
  using assms
proof (induction "length (polls d)" arbitrary: i d st st2 rule: less_induct)
  case less
  obtain q d1 where rd: "read_some 65536 10000 d = (q, d1)" by fastforce
  show ?case
  proof (cases "stop i \<or> (\<forall>bs. q = Done bs \<longrightarrow> bs = [])")
    case True
    with less.prems rd show ?thesis
      by (cases st2; cases q) (auto simp: record_loop.simps [of stop i d])
  next
    case False
    then obtain bs where bs: "q = Done bs" "bs \<noteq> []" "\<not> stop i" by blast
    have step: "record_loop stop i d s = (case SbfRecorder_feed bs s of
        Inl (e, s1) \<Rightarrow> (Loop_threw e, d1, s1) | Inr s1 \<Rightarrow> record_loop stop (Suc i) d1 s1)" for s
      using rd bs by (simp add: record_loop.simps [of stop i d])
    have "length (polls d1) < length (polls d)" using read_some_polls rd bs(1) by blast
    with cut_feed [OF less.prems(1), of bs] less.prems(2) less.hyps show ?thesis
      unfolding step by (cases "SbfRecorder_feed bs st"; cases "SbfRecorder_feed bs st2") (auto split: prod.splits)
  qed
qed

text \<open>Two worlds that differ in the contents of files only, which are prefixes in the second.\<close>

definition loses :: "(nat \<Rightarrow> nat) \<Rightarrow> driver_world \<Rightarrow> driver_world \<Rightarrow> bool" where
  "loses l w w2 \<longleftrightarrow>
     dw_ctrl w2 = dw_ctrl w \<and> dw_data w2 = dw_data w \<and> dw_file w2 = dw_file w \<and>
     (\<exists>d. dw_disk w2 = (dw_disk w)\<lparr>w_disk := d, w_close_lost := l\<rparr> \<and>
        (\<forall>p. rel_option prefix (d p) (w_disk (dw_disk w) p)))"

definition with_losses :: "(nat \<Rightarrow> nat) \<Rightarrow> driver_world \<Rightarrow> driver_world" where
  "with_losses l w = w\<lparr>dw_disk := (dw_disk w)\<lparr>w_close_lost := l\<rparr>\<rparr>"

lemma with_losses_simps [simp]:
  "dw_ctrl (with_losses l w) = dw_ctrl w" "dw_data (with_losses l w) = dw_data w" "dw_file (with_losses l w) = dw_file w"
  "dw_disk (with_losses l w) = (dw_disk w)\<lparr>w_close_lost := l\<rparr>"
  "(with_losses l w)\<lparr>dw_ctrl := c\<rparr> = with_losses l (w\<lparr>dw_ctrl := c\<rparr>)"
  "(with_losses l w)\<lparr>dw_data := d\<rparr> = with_losses l (w\<lparr>dw_data := d\<rparr>)"
  by (cases w; simp add: with_losses_def)+

lemma prefix_same [simp]: "rel_option prefix x x"
  by (cases x) simp_all

lemma loses_initial: "loses l w (with_losses l w)"
  unfolding loses_def by (intro conjI exI [of _ "w_disk (dw_disk w)"]) simp_all

lemma shortened_loses:
  assumes "shortened l (r, k) (r2, k2)"
  shows "r2 = r"
    and "dw_ctrl w2 = dw_ctrl w \<Longrightarrow> dw_data w2 = dw_data w \<Longrightarrow> dw_file w2 = dw_file w \<Longrightarrow> dw_disk w = k \<Longrightarrow> dw_disk w2 = k2 \<Longrightarrow>
      loses l w w2"
  using assms by (auto simp: shortened_def loses_def)

lemma run_recorder_loses:
  assumes "closes_ok (dw_disk w)" and "run_recorder stop cfg w = (e, w')"
  shows "\<exists>w2'. run_recorder stop cfg (with_losses l w) = (e, w2') \<and> loses l w' w2'"
proof (cases "w_mkdir_ok (dw_disk w)")
  case False
  with assms(2) show ?thesis using loses_initial by (auto simp: run_recorder_def SbfRecorder_ctor_def)
next
  case True
  let ?k = "dw_disk w" and ?k2 = "(dw_disk w)\<lparr>w_close_lost := l\<rparr>"
  obtain r where ctor: "SbfRecorder_ctor (recorder_config cfg) ?k = Inr (r, ?k)"
      "SbfRecorder_ctor (recorder_config cfg) ?k2 = Inr (r, ?k2)"
    using True by (auto simp: SbfRecorder_ctor_def)
  have "shortened l (r, ?k) (r, ?k2)" using assms(1) by (intro cutI [where d = "w_disk ?k"]) simp_all
  moreover obtain u d st where loop: "record_loop stop 0 (dw_data w) (r, ?k) = (u, d, st)" by (metis prod_cases3)
  ultimately obtain st2 where loop2: "record_loop stop 0 (dw_data w) (r, ?k2) = (u, d, st2)" "shortened l st st2"
    using cut_loop by blast
  obtain q c where q: "stop_streams (receiver cfg) (dw_ctrl w) = (q, c)" by fastforce
  obtain r1 k1 k2 where st: "st = (r1, k1)" "st2 = (r1, k2)" "shortened l (r1, k1) (r1, k2)"
    using loop2(2) by (auto simp: shortened_def)
  obtain r3 k3 k4 where close: "SbfRecorder_close (r1, k1) = (r3, k3)" "SbfRecorder_close (r1, k2) = (r3, k4)"
      "shortened l (r3, k3) (r3, k4)"
    using cut_close [OF st(3)] by (auto simp: shortened_def)
  show ?thesis
  proof (cases u)
    case Loop_waits
    with assms(2) show ?thesis
      by (auto simp: run_recorder_def ctor loop loop2(1) st(1,2) intro!: shortened_loses(2) [OF st(3)])
  qed (use assms(2) in \<open>auto simp: run_recorder_def ctor loop loop2(1) st(1,2) q close(1,2)
        intro!: shortened_loses(2) [OF close(3)]\<close>)
qed

lemma run_driver_loses:
  assumes "closes_ok (dw_disk w)" and "run_driver stop cfg w = (e, w')"
  shows "\<exists>w2'. run_driver stop cfg (with_losses l w) = (e, w2') \<and> loses l w' w2'"
proof -
  obtain q c where c: "configure cfg (dw_ctrl w) = (q, c)" by fastforce
  obtain p d where d: "TcpClient_connect (host cfg) (ips_port (receiver cfg)) (dw_data w) = (p, d)" by fastforce
  show ?thesis
    using assms run_recorder_loses [of "w\<lparr>dw_ctrl := c, dw_data := d\<rparr>" stop cfg e w' l]
      loses_initial [of l "w\<lparr>dw_ctrl := c\<rparr>"] loses_initial [of l "w\<lparr>dw_ctrl := c, dw_data := d\<rparr>"]
    by (cases q; cases p) (auto simp: run_driver_def c d)
qed

lemma leave_main_loses: "loses l w w2 \<Longrightarrow> loses l (snd (leave_main (e, w))) (snd (leave_main (e, w2)))"
  by (cases e) (auto simp: loses_def leave_main_def)

text \<open>
  C8: losses at the end of a file go unnoticed. Take any run of the program in which closing files loses nothing. If
  instead closing loses bytes, whatever and how often, then the program ends in the same way, with the same exit code
  and the same files opened, having read and sent the same bytes; each file is the same file without some bytes at its
  end. So the exit code says nothing about frames that were lost when a file was closed.
\<close>

theorem close_losses_unnoticed:
  assumes "closes_ok (dw_disk w)" and "main Y sink_throws stop argv w = (e, w')"
  shows "\<exists>d. main Y sink_throws stop argv (w\<lparr>dw_disk := (dw_disk w)\<lparr>w_close_lost := l\<rparr>\<rparr>) =
       (e, w'\<lparr>dw_disk := (dw_disk w')\<lparr>w_disk := d, w_close_lost := l\<rparr>\<rparr>) \<and>
     (\<forall>p. rel_option prefix (d p) (w_disk (dw_disk w') p))"
proof -
  let ?w = "with_losses l w"
  have run: "\<exists>w2'. leave_main (run_driver stop cfg ?w) = (e, w2') \<and> loses l w' w2'"
    if "leave_main (run_driver stop cfg w) = (e, w')" for cfg
  proof -
    have "fst (run_driver stop cfg w) = e" using arg_cong [OF that, of fst] by simp
    then obtain w1 where w1: "run_driver stop cfg w = (e, w1)" by (cases "run_driver stop cfg w") simp
    obtain w2 where w2: "run_driver stop cfg ?w = (e, w2)" "loses l w1 w2"
      using run_driver_loses [OF assms(1) w1] by blast
    have "leave_main (e, w2) = (e, snd (leave_main (e, w2)))" by (simp add: prod_eq_iff)
    moreover have "loses l w' (snd (leave_main (e, w2)))"
      using leave_main_loses [OF w2(2), of e] that w1 by simp
    ultimately show ?thesis using w2(1) by (metis)
  qed
  from assms(2) have "\<exists>w2'. main Y sink_throws stop argv ?w = (e, w2') \<and> loses l w' w2'"
    using loses_initial [of l w] run
    by (auto simp: main_def Let_def split: args_result.splits sum.splits if_splits)
  then obtain w2 d where w2: "main Y sink_throws stop argv ?w = (e, w2)" "dw_ctrl w2 = dw_ctrl w'" "dw_data w2 = dw_data w'"
      "dw_file w2 = dw_file w'" "dw_disk w2 = (dw_disk w')\<lparr>w_disk := d, w_close_lost := l\<rparr>"
      "\<forall>p. rel_option prefix (d p) (w_disk (dw_disk w') p)"
    unfolding loses_def by blast
  have "w2 = w'\<lparr>dw_disk := (dw_disk w')\<lparr>w_disk := d, w_close_lost := l\<rparr>\<rparr>" using w2(2-5) by (cases w2; cases w') simp
  with w2(1,6) show ?thesis unfolding with_losses_def by blast
qed

theorem close_losses_unnoticed_witness:
  "\<exists>w' d. main (ex_yaml ex_run_doc) (\<lambda>_ _ _. False) (\<lambda>_. False) [''--config'', ''c.yaml'']
       (ex_run\<lparr>dw_disk := ex_world\<lparr>w_close_lost := (\<lambda>_. 5)\<rparr>\<rparr>) =
       (Exit 0, w'\<lparr>dw_disk := (dw_disk w')\<lparr>w_disk := d, w_close_lost := (\<lambda>_. 5)\<rparr>\<rparr>) \<and>
     (\<forall>p. rel_option prefix (d p) (w_disk (dw_disk w') p))"
proof -
  have "dw_disk ex_run = ex_world" by (simp add: ex_run_def)
  with ex_main_exit close_losses_unnoticed [OF device_closes [OF ex_run_disk(3)], where l = "\<lambda>_. 5"]
  show ?thesis by metis
qed

end
