(* ===== verification/NtripClient.thy ===== *)
theory NtripClient
  imports ReceiverConfig
begin

text \<open>
  The NTRIP client, src/src/ntrip: connection, request and response, reconnection, position reports
  and the source table. One record holds the members of the object and the environment: scripts of the
  results of \<open>select\<close>, \<open>send\<close>, \<open>recv\<close> and of the calls into OpenSSL, the descriptors the process holds, the
  clock, and a log of the bytes sent and of the times slept. Code that is not in the repository is a
  parameter: \<open>Ethernet::FdGuard\<close>, \<open>SplitString\<close>, and base64 from OpenSSL. An exception of the logging
  library's \<open>log_and_throw\<close> is the outcome \<open>Throw\<close>.
\<close>

section \<open>The code: data\<close>

text \<open>The numbers are unbounded; \<open>LoadConfig\<close> sets none but the port, so that they have their defaults in the program.\<close>

record Options =
  opt_enable_rtk :: bool
  opt_host :: string
  opt_port :: int
  opt_mount_point :: string
  opt_username :: string
  opt_password :: string
  opt_is_ssl :: bool
  opt_verify_ssl :: bool
  opt_use_vrs :: bool
  opt_gga_interval :: int
  opt_auto_reconnect :: bool
  opt_reconnect_interval :: int
  opt_timeout :: int
  opt_user_agent :: string
  opt_max_buffer_size :: nat
  opt_max_queue_size :: nat
  opt_max_reconnect_attempts :: int
  opt_exponential_backoff :: bool

definition Options_default :: Options where
  "Options_default =
     \<lparr>opt_enable_rtk = False, opt_host = [], opt_port = 0, opt_mount_point = [], opt_username = [], opt_password = [],
      opt_is_ssl = False, opt_verify_ssl = False, opt_use_vrs = False, opt_gga_interval = 30,
      opt_auto_reconnect = True, opt_reconnect_interval = 5, opt_timeout = 1, opt_user_agent = ''NTRIP/2.0'',
      opt_max_buffer_size = 8 * 1024 * 1024, opt_max_queue_size = 1024, opt_max_reconnect_attempts = 10,
      opt_exponential_backoff = True\<rparr>"

text \<open>The fields of \<open>INSConfig\<close> that the client reads.\<close>

record INSConfig =
  ins_enable_rtk :: bool
  ins_host :: string
  ins_port :: int
  ins_mount_point :: string
  ins_use_vrs :: bool
  ins_username :: string
  ins_password :: string

record MountPoint =
  mp_mount_point :: string
  mp_city :: string
  mp_data_format :: string
  mp_format_details :: string
  mp_carrier :: int
  mp_nav_system :: string
  mp_network :: string
  mp_country :: string
  mp_latitude :: double
  mp_longitude :: double
  mp_nmea :: int
  mp_solution :: int
  mp_generator :: string
  mp_compression :: string
  mp_authentication :: string
  mp_fee :: int
  mp_bitrate :: int

definition MountPoint_default :: MountPoint where
  "MountPoint_default =
     \<lparr>mp_mount_point = [], mp_city = [], mp_data_format = [], mp_format_details = [], mp_carrier = 0, mp_nav_system = [],
      mp_network = [], mp_country = [], mp_latitude = Fin 0, mp_longitude = Fin 0, mp_nmea = 0, mp_solution = 0,
      mp_generator = [], mp_compression = [], mp_authentication = [], mp_fee = 0, mp_bitrate = 0\<rparr>"

record Statistics =
  bytes_received :: u64
  messages_received :: u64
  messages_dropped :: u64
  reconnect_count :: u64
  crc_errors :: u64
  last_message_time :: int \<comment> \<open>nanoseconds of the steady clock\<close>
  current_data_rate :: double

definition Statistics_default :: Statistics where
  "Statistics_default =
     \<lparr>bytes_received = 0, messages_received = 0, messages_dropped = 0, reconnect_count = 0, crc_errors = 0,
      last_message_time = 0, current_data_rate = Fin 0\<rparr>"

text \<open>What the operating system does on one address, and OpenSSL during one handshake.\<close>

record sock_try =
  st_socket :: "int + nat"
  st_reuse :: "int option" \<comment> \<open>errno of \<open>setsockopt\<close>, for each of the five options\<close>
  st_nodelay :: "int option"
  st_rcvtimeo :: "int option"
  st_sndtimeo :: "int option"
  st_keepalive :: "int option"
  st_nonblock :: fcntl_res
  st_connect :: "int option"
  st_select :: poll_res
  st_so_error :: int

record ssl_try =
  t_getfl_ok :: bool
  t_setfl_ok :: bool
  t_ctx_ok :: bool
  t_default_paths_ok :: bool
  t_candidates :: "bool list" \<comment> \<open>for each known location: readable and loaded\<close>
  t_new_ok :: bool
  t_sni_ok :: bool
  t_host_ok :: bool
  t_fd_ok :: bool
  t_connect :: "int option" \<comment> \<open>success, or the error of the handshake\<close>
  t_errno :: int
  t_queued :: nat \<comment> \<open>\<open>ERR_get_error\<close>\<close>
  t_verify :: int \<comment> \<open>\<open>SSL_get_verify_result\<close>\<close>

datatype ssl_write_res = Ssl_wrote nat | Ssl_write_fail int int \<comment> \<open>result, error\<close>
datatype ssl_read_res = Ssl_got "byte list" | Ssl_read_fail int int int \<comment> \<open>result, error, \<open>errno\<close>\<close>

datatype ntrip_error =
    Cannot_resolve string int
  | Cannot_connect string string
  | Getfl_failed string
  | Setfl_failed string
  | Ctx_failed string
  | No_trust_store
  | Ssl_new_failed string
  | Sni_failed
  | Ssl_host_failed
  | Ssl_set_fd_failed string
  | Handshake_failed string
  | Request_failed
  | Response_timeout
  | Response_select
  | Response_failed
  | Auth_failed
  | Mount_point_not_found string
  | Http_error
  | Ssl_write_error int
  | Ssl_read_error int
  | Socket_send_error int
  | Socket_recv_error int
  | Receive_error int
  | Reconnect_failed int
  | Bad_number string \<comment> \<open>\<open>std::stoi\<close> or \<open>std::stod\<close>\<close>

record NTRIPClient =
  config :: Options
  socket_fd :: int
  ssl_ctx :: bool
  ssl :: bool
  connected :: bool
  disconnected :: bool
  pending_data :: "byte list"
  nmea_gga :: string
  last_gga_sent :: int
  stats :: Statistics

record nworld = NTRIPClient +
  e_resolve :: "string \<Rightarrow> string \<Rightarrow> int + sock_try list"
  e_ssl :: "ssl_try list"
  e_selects :: "poll_res list"
  e_sends :: "send_res list"
  e_recvs :: "recv_res list"
  e_ssl_writes :: "ssl_write_res list"
  e_ssl_reads :: "ssl_read_res list"
  e_sent :: "byte list"
  e_open :: "int list"
  e_bad_closes :: nat \<comment> \<open>calls of \<open>close\<close> on a descriptor that is not open\<close>
  e_nonblock :: bool
  e_clock :: "nat \<Rightarrow> int"
  e_clock_reads :: nat
  e_slept :: "int list"

record ntrip_lib =
  x_guard_dtor :: "int \<Rightarrow> int list \<Rightarrow> int list" \<comment> \<open>what the destructor does to the open descriptors\<close>
  x_bio_ok :: "bool \<times> bool" \<comment> \<open>whether \<open>BIO_new\<close> gives the filter and the memory buffer\<close>
  x_base64 :: "string \<Rightarrow> string" \<comment> \<open>what the filter without line breaks leaves in the buffer\<close>
  x_split :: "string \<Rightarrow> char \<Rightarrow> string list"
  x_strerror :: "int \<Rightarrow> string"
  x_ssl_text :: "nat \<Rightarrow> string" \<comment> \<open>the text of an error of OpenSSL's queue\<close>
  x_verify_text :: "int \<Rightarrow> string"

type_synonym 'a nact = "nworld \<Rightarrow> (ntrip_error, 'a) io \<times> nworld"

section \<open>The code: configuration and the system\<close>

definition LoadConfig :: "INSConfig \<Rightarrow> Options \<Rightarrow> Options" where
  "LoadConfig c o1 =
     o1\<lparr>opt_enable_rtk := ins_enable_rtk c, opt_host := ins_host c, opt_port := ins_port c,
       opt_mount_point := ins_mount_point c, opt_use_vrs := ins_use_vrs c, opt_username := ins_username c,
       opt_password := ins_password c\<rparr>"

text \<open>The constructor; \<open>now\<close> is the reading of the steady clock.\<close>

definition NTRIPClient_ctor :: "INSConfig \<Rightarrow> int \<Rightarrow> NTRIPClient" where
  "NTRIPClient_ctor c now =
     \<lparr>config = LoadConfig c Options_default, socket_fd = -1, ssl_ctx = False, ssl = False, connected = False,
      disconnected = False, pending_data = [], nmea_gga = [], last_gga_sent = 0,
      stats = Statistics_default\<lparr>last_message_time := now\<rparr>\<rparr>"

definition LogErrorOrWarn :: "ntrip_error \<Rightarrow> unit nact" where
  "LogErrorOrWarn msg w = (if opt_enable_rtk (config w) then (Throw msg, w) else (Done (), w))"

text \<open>The usual end of a failing path: report, then return a value.\<close>

definition fail_with :: "ntrip_error \<Rightarrow> 'a \<Rightarrow> 'a nact" where
  "fail_with msg r w = bind_io (LogErrorOrWarn msg w) (\<lambda>_ w1. (Done r, w1))"

definition os_close :: "int \<Rightarrow> nworld \<Rightarrow> nworld" where
  "os_close f w =
     (if f \<in> set (e_open w) then w\<lparr>e_open := remove1 f (e_open w)\<rparr>
      else w\<lparr>e_bad_closes := Suc (e_bad_closes w)\<rparr>)"

definition clock_read :: "nworld \<Rightarrow> int \<times> nworld" where
  "clock_read w = (e_clock w (e_clock_reads w), w\<lparr>e_clock_reads := Suc (e_clock_reads w)\<rparr>)"

definition sleep_seconds :: "int \<Rightarrow> nworld \<Rightarrow> nworld" where
  "sleep_seconds s w = w\<lparr>e_slept := e_slept w @ [s]\<rparr>"

section \<open>The code: connecting\<close>

definition CloseConnection :: "nworld \<Rightarrow> nworld" where
  "CloseConnection w =
     (let w1 = w\<lparr>connected := False, ssl := False, ssl_ctx := False\<rparr>
      in if 0 \<le> socket_fd w1 then (os_close (socket_fd w1) w1)\<lparr>socket_fd := -1\<rparr> else w1)"

definition CreateSocket :: "ntrip_lib \<Rightarrow> sock_try \<Rightarrow> nworld \<Rightarrow> bool \<times> nworld" where
  "CreateSocket X a w =
     (let w0 = (if 0 \<le> socket_fd w then (os_close (socket_fd w) w)\<lparr>socket_fd := -1\<rparr> else w) in
      case st_socket a of
        Inl e \<Rightarrow> (False, w0\<lparr>socket_fd := -1\<rparr>)
      | Inr s \<Rightarrow>
          (let w1 = w0\<lparr>socket_fd := int s, e_open := int s # e_open w0, e_nonblock := False\<rparr> in
           if st_reuse a \<noteq> None \<or> st_nodelay a \<noteq> None \<or> st_rcvtimeo a \<noteq> None \<or> st_sndtimeo a \<noteq> None \<or>
              st_keepalive a \<noteq> None \<or> st_nonblock a \<noteq> Fcntl_ok
           then (False, w1\<lparr>e_open := x_guard_dtor X (int s) (e_open w1)\<rparr>)
           else (True, w1\<lparr>e_nonblock := True\<rparr>)))"

fun connect_addrs :: "ntrip_lib \<Rightarrow> sock_try list \<Rightarrow> nworld \<Rightarrow> bool \<times> nworld" where
  "connect_addrs X [] w = (False, w)"
| "connect_addrs X (a # as) w =
     (case CreateSocket X a w of
        (False, w1) \<Rightarrow> connect_addrs X as w1
      | (True, w1) \<Rightarrow>
          if st_connect a = None \<or>
             (st_connect a = Some EINPROGRESS \<and> st_select a = Poll_ready \<and> st_so_error a = 0)
          then (True, w1)
          else connect_addrs X as ((os_close (socket_fd w1) w1)\<lparr>socket_fd := -1\<rparr>))"

definition ConnectSocket :: "ntrip_lib \<Rightarrow> bool nact" where
  "ConnectSocket X w =
     (let host = opt_host (config w); port_str = int_to_string (opt_port (config w)) in
      case e_resolve w host port_str of
        Inl ret \<Rightarrow> fail_with (Cannot_resolve host ret) False w
      | Inr as \<Rightarrow>
          (case connect_addrs X as w of
             (True, w1) \<Rightarrow> (Done True, w1)
           | (False, w1) \<Rightarrow> fail_with (Cannot_connect host port_str) False w1))"

section \<open>The code: TLS\<close>

abbreviation (input) SSL_ERROR_NONE :: int where "SSL_ERROR_NONE \<equiv> 0"
abbreviation (input) SSL_ERROR_SSL :: int where "SSL_ERROR_SSL \<equiv> 1"
abbreviation (input) SSL_ERROR_WANT_READ :: int where "SSL_ERROR_WANT_READ \<equiv> 2"
abbreviation (input) SSL_ERROR_WANT_WRITE :: int where "SSL_ERROR_WANT_WRITE \<equiv> 3"
abbreviation (input) SSL_ERROR_SYSCALL :: int where "SSL_ERROR_SYSCALL \<equiv> 5"
abbreviation (input) SSL_ERROR_ZERO_RETURN :: int where "SSL_ERROR_ZERO_RETURN \<equiv> 6"
abbreviation (input) SSL_ERROR_WANT_CONNECT :: int where "SSL_ERROR_WANT_CONNECT \<equiv> 7"

text \<open>The buffer takes 255 characters and a zero.\<close>

definition GetSSLError :: "ntrip_lib \<Rightarrow> nat \<Rightarrow> string" where
  "GetSSLError X err = (if err = 0 then ''Unknown SSL error'' else take 255 (x_ssl_text X err))"

definition GetSSLErrorString :: "ntrip_lib \<Rightarrow> int \<Rightarrow> int \<Rightarrow> nat \<Rightarrow> string" where
  "GetSSLErrorString X ssl_error err_no queued =
     (if ssl_error = SSL_ERROR_NONE then ''No error''
      else if ssl_error = SSL_ERROR_ZERO_RETURN then ''SSL connection closed''
      else if ssl_error = SSL_ERROR_WANT_READ then ''SSL wants read''
      else if ssl_error = SSL_ERROR_WANT_WRITE then ''SSL wants write''
      else if ssl_error = SSL_ERROR_WANT_CONNECT then ''SSL wants connect''
      else if ssl_error = SSL_ERROR_SYSCALL then ''SSL syscall error: '' @ x_strerror X err_no
      else if ssl_error = SSL_ERROR_SSL then ''SSL protocol error: '' @ GetSSLError X queued
      else ''Unknown SSL error code: '' @ int_to_string ssl_error)"

definition handshake_error :: "ntrip_lib \<Rightarrow> Options \<Rightarrow> ssl_try \<Rightarrow> int \<Rightarrow> string" where
  "handshake_error X c t ssl_error =
     ''SSL handshake failed: '' @ GetSSLErrorString X ssl_error (t_errno t) (t_queued t) @
     (if opt_verify_ssl c \<and> ssl_error = SSL_ERROR_SSL \<and> t_verify t \<noteq> 0
      then '' (Verify: '' @ x_verify_text X (t_verify t) @ '')'' else [])"

text \<open>The calls between switching to blocking mode and the end; the first failure is reported.\<close>

definition ssl_handshake :: "ntrip_lib \<Rightarrow> ssl_try \<Rightarrow> bool nact" where
  "ssl_handshake X t w =
     (if \<not> t_ctx_ok t then fail_with (Ctx_failed (GetSSLError X (t_queued t))) False (w\<lparr>ssl_ctx := False\<rparr>)
      else let w1 = w\<lparr>ssl_ctx := True\<rparr> in
        if opt_verify_ssl (config w) \<and> \<not> t_default_paths_ok t \<and> True \<notin> set (t_candidates t)
        then fail_with No_trust_store False w1
        else if \<not> t_new_ok t then fail_with (Ssl_new_failed (GetSSLError X (t_queued t))) False (w1\<lparr>ssl := False\<rparr>)
        else let w2 = w1\<lparr>ssl := True\<rparr> in
          if opt_host (config w) \<noteq> [] \<and> \<not> t_sni_ok t then fail_with Sni_failed False w2
          else if opt_host (config w) \<noteq> [] \<and> opt_verify_ssl (config w) \<and> \<not> t_host_ok t
          then fail_with Ssl_host_failed False w2
          else if \<not> t_fd_ok t then fail_with (Ssl_set_fd_failed (GetSSLError X (t_queued t))) False w2
          else (case t_connect t of
                  Some e \<Rightarrow> fail_with (Handshake_failed (handshake_error X (config w) t e)) False w2
                | None \<Rightarrow> (Done True, w2)))"

definition InitSSL :: "ntrip_lib \<Rightarrow> bool nact" where
  "InitSSL X w =
     (case e_ssl w of
        [] \<Rightarrow> (Blocked, w)
      | t # ts \<Rightarrow>
          (let w0 = w\<lparr>e_ssl := ts\<rparr>; was_nonblock = e_nonblock w in
           if \<not> t_getfl_ok t then fail_with (Getfl_failed (x_strerror X (t_errno t))) False w0
           else
             (let (r, w1) =
                (if was_nonblock \<and> \<not> t_setfl_ok t then fail_with (Setfl_failed (x_strerror X (t_errno t))) False w0
                 else ssl_handshake X t (w0\<lparr>e_nonblock := False\<rparr>))
              in (r, if was_nonblock then w1\<lparr>e_nonblock := True\<rparr> else w1))))"

section \<open>The code: data on the connection\<close>

text \<open>The value returned is the number of bytes taken, or not positive.\<close>

definition SendData :: "byte list \<Rightarrow> int nact" where
  "SendData data w =
     (if ssl w then
        (case e_ssl_writes w of
           [] \<Rightarrow> (Blocked, w)
         | Ssl_wrote k # rest \<Rightarrow>
             (let m = min k (length data); w1 = w\<lparr>e_ssl_writes := rest, e_sent := e_sent w @ take m data\<rparr> in
              if m = 0 then fail_with (Ssl_write_error 0) 0 w1 else (Done (int m), w1))
         | Ssl_write_fail r e # rest \<Rightarrow>
             (let w1 = w\<lparr>e_ssl_writes := rest\<rparr> in
              if e \<noteq> SSL_ERROR_WANT_READ \<and> e \<noteq> SSL_ERROR_WANT_WRITE
              then fail_with (Ssl_write_error e) (min r 0) w1 else (Done (min r 0), w1)))
      else
        (case e_sends w of
           [] \<Rightarrow> (Blocked, w)
         | Sent k # rest \<Rightarrow>
             (let m = min k (length data)
              in (Done (int m), w\<lparr>e_sends := rest, e_sent := e_sent w @ take m data\<rparr>))
         | Send_err e # rest \<Rightarrow>
             (let w1 = w\<lparr>e_sends := rest\<rparr> in
              if e \<noteq> EWOULDBLOCK then fail_with (Socket_send_error e) (-1) w1 else (Done (-1), w1))))"

text \<open>What \<open>ReceiveData\<close> leaves: bytes, a closed connection, or an error with \<open>errno\<close>.\<close>

datatype received = Data "byte list" | Closed | Failed int

definition not_positive :: "int \<Rightarrow> int \<Rightarrow> received" where
  "not_positive r e = (if r = 0 then Closed else Failed e)"

definition ReceiveData :: "nat \<Rightarrow> received nact" where
  "ReceiveData cap w =
     (if ssl w then
        (case e_ssl_reads w of
           [] \<Rightarrow> (Blocked, w)
         | Ssl_got bs # rest \<Rightarrow>
             (if bs = [] then fail_with (Ssl_read_error 0) Closed (w\<lparr>e_ssl_reads := rest\<rparr>)
              else (Done (Data (take cap bs)),
                w\<lparr>e_ssl_reads := (if cap < length bs then Ssl_got (drop cap bs) # rest else rest)\<rparr>))
         | Ssl_read_fail r e err # rest \<Rightarrow>
             (let w1 = w\<lparr>e_ssl_reads := rest\<rparr> in
              if e \<noteq> SSL_ERROR_WANT_READ \<and> e \<noteq> SSL_ERROR_WANT_WRITE
              then fail_with (Ssl_read_error e) (not_positive (min r 0) err) w1
              else (Done (not_positive (min r 0) err), w1)))
      else
        (case e_recvs w of
           [] \<Rightarrow> (Blocked, w)
         | Received bs # rest \<Rightarrow>
             (if bs = [] then (Done Closed, w\<lparr>e_recvs := rest\<rparr>)
              else (Done (Data (take cap bs)),
                w\<lparr>e_recvs := (if cap < length bs then Received (drop cap bs) # rest else rest)\<rparr>))
         | Recv_err e # rest \<Rightarrow>
             (let w1 = w\<lparr>e_recvs := rest\<rparr> in
              if e \<noteq> EWOULDBLOCK \<and> e \<noteq> ETIMEDOUT then fail_with (Socket_recv_error e) (Failed e) w1
              else (Done (Failed e), w1))))"

text \<open>\<open>select\<close> for reading, with the configured timeout.\<close>

definition select_read :: "poll_res nact" where
  "select_read w =
     (case e_selects w of [] \<Rightarrow> (Blocked, w) | s # rest \<Rightarrow> (Done s, w\<lparr>e_selects := rest\<rparr>))"

section \<open>The code: request and response\<close>

abbreviation (input) crlf :: string where "crlf \<equiv> [CHR 0x0D, CHR 0x0A]"

definition Base64Encode :: "ntrip_lib \<Rightarrow> string \<Rightarrow> string" where
  "Base64Encode X input = (if \<not> fst (x_bio_ok X) \<or> \<not> snd (x_bio_ok X) then [] else x_base64 X input)"

definition BuildHTTPRequest :: "ntrip_lib \<Rightarrow> string \<Rightarrow> nworld \<Rightarrow> string" where
  "BuildHTTPRequest X path w =
     (let c = config w in
      ''GET '' @ path @ '' HTTP/1.1'' @ crlf @
      ''Host: '' @ opt_host c @ '':'' @ int_to_string (opt_port c) @ crlf @
      ''User-Agent: '' @ opt_user_agent c @ crlf @
      ''Accept: */*'' @ crlf @
      ''Connection: keep-alive'' @ crlf @
      ''Ntrip-Version: Ntrip/2.0'' @ crlf @
      (if opt_username c \<noteq> [] \<and> opt_password c \<noteq> []
       then ''Authorization: Basic '' @ Base64Encode X (opt_username c @ '':'' @ opt_password c) @ crlf else []) @
      (if nmea_gga w \<noteq> [] then ''Ntrip-GGA: '' @ nmea_gga w @ crlf else []) @
      crlf)"

lemma SendData_shrinks:
  "SendData p w = (Done k, w1) \<Longrightarrow>
     length (e_sends w1) + length (e_ssl_writes w1) < length (e_sends w) + length (e_ssl_writes w)"
  by (auto simp: SendData_def fail_with_def LogErrorOrWarn_def Let_def bind_io_def
      split: if_splits list.splits send_res.splits ssl_write_res.splits)

function send_request_loop :: "byte list \<Rightarrow> bool nact" where
  "send_request_loop p w =
     (if p = [] then (Done True, w)
      else case SendData p w of
        (Done k, w1) \<Rightarrow>
          if k \<le> 0 then fail_with Request_failed False w1
          else send_request_loop (drop (nat k) p) w1
      | (Throw e, w1) \<Rightarrow> (Throw e, w1)
      | (Blocked, w1) \<Rightarrow> (Blocked, w1))"
  by pat_completeness auto
termination
  by (relation "measure (\<lambda>(p, w). length (e_sends w) + length (e_ssl_writes w))")
    (auto dest!: SendData_shrinks [OF sym])

declare send_request_loop.simps [simp del]

definition SendRequest :: "ntrip_lib \<Rightarrow> bool nact" where
  "SendRequest X w =
     send_request_loop (bytes_of_string (BuildHTTPRequest X (CHR ''/'' # opt_mount_point (config w)) w)) w"

text \<open>The room that the scripts of received data still take, which every successful read reduces.\<close>

definition unread :: "nworld \<Rightarrow> nat" where
  "unread w =
     sum_list (map (\<lambda>r. case r of Received bs \<Rightarrow> Suc (length bs) | Recv_err _ \<Rightarrow> 1) (e_recvs w)) +
     sum_list (map (\<lambda>r. case r of Ssl_got bs \<Rightarrow> Suc (length bs) | Ssl_read_fail _ _ _ \<Rightarrow> 1) (e_ssl_reads w))"

lemma ReceiveData_shrinks: "ReceiveData cap w = (Done (Data bs), w1) \<Longrightarrow> 0 < cap \<Longrightarrow> unread w1 < unread w"
  by (auto simp: ReceiveData_def fail_with_def LogErrorOrWarn_def Let_def bind_io_def not_positive_def unread_def
      split: if_splits list.splits recv_res.splits ssl_read_res.splits)

text \<open>
  Reading until the headers are complete. The buffer is appended as a C string: what follows a zero
  byte is not appended.
\<close>

function response_loop :: "string \<Rightarrow> string option nact" where
  "response_loop response w =
     (if str_contains (crlf @ crlf) response then (Done (Some response), w)
      else case ReceiveData 4095 w of
        (Done (Data bs), w1) \<Rightarrow> response_loop (response @ string_of_bytes (takeWhile (\<lambda>b. b \<noteq> 0) bs)) w1
      | (Done _, w1) \<Rightarrow> fail_with Response_failed None w1
      | (Throw e, w1) \<Rightarrow> (Throw e, w1)
      | (Blocked, w1) \<Rightarrow> (Blocked, w1))"
  by pat_completeness auto
termination
  by (relation "measure (\<lambda>(response, w). unread w)") (auto dest!: ReceiveData_shrinks [OF sym])

declare response_loop.simps [simp del]

definition ReceiveResponse :: "bool nact" where
  "ReceiveResponse w =
     bind_io (select_read w) (\<lambda>sel w1.
     if sel \<noteq> Poll_ready
     then bind_io (LogErrorOrWarn (if sel = Poll_timeout then Response_timeout else Response_select) w1)
       (\<lambda>_ w2. (Done False, CloseConnection w2))
     else bind_io (response_loop [] w1) (\<lambda>res w2.
       case res of
         None \<Rightarrow> (Done False, w2)
       | Some response \<Rightarrow>
           (let header_end = (case str_find (crlf @ crlf) response of Some k \<Rightarrow> k | None \<Rightarrow> 0);
                header_part = take (header_end + 4) response;
                body_part = drop (header_end + 4) response;
                w3 = (if header_end + 4 < length response then w2\<lparr>pending_data := bytes_of_string body_part\<rparr> else w2)
            in if \<not> str_contains ''200 OK'' header_part \<and> \<not> str_contains ''ICY 200 OK'' header_part
               then fail_with
                 (if str_contains ''401'' header_part then Auth_failed
                  else if str_contains ''404'' header_part then Mount_point_not_found (opt_mount_point (config w3))
                  else Http_error) False w3
               else (Done True, w3))))"

definition reset_statistics :: "nworld \<Rightarrow> nworld" where
  "reset_statistics w =
     (let (now, w1) = clock_read w
      in w1\<lparr>stats := (stats w1)\<lparr>bytes_received := 0, messages_received := 0, messages_dropped := 0, crc_errors := 0,
           last_message_time := now\<rparr>\<rparr>)"

text \<open>The steps of \<open>Connect\<close>, each of which closes the connection when it returns false.\<close>

definition or_close :: "(ntrip_error, bool) io \<times> nworld \<Rightarrow> bool nact \<Rightarrow> (ntrip_error, bool) io \<times> nworld" where
  "or_close x k = bind_io x (\<lambda>ok w. if ok then k w else (Done False, CloseConnection w))"

definition Connect :: "ntrip_lib \<Rightarrow> bool nact" where
  "Connect X w =
     (if connected w then (Done True, w)
      else
        or_close (ConnectSocket X w) (\<lambda>w.
        or_close (if opt_is_ssl (config w) then InitSSL X w else (Done True, w)) (\<lambda>w.
        or_close (SendRequest X w) (\<lambda>w.
        or_close (ReceiveResponse w) (\<lambda>w.
          (Done True, reset_statistics (w\<lparr>connected := True, disconnected := False\<rparr>)))))))"

section \<open>The code: reconnecting\<close>

text \<open>What connecting leaves alone.\<close>

definition still :: "nworld \<Rightarrow>
    Options \<times> int list \<times> u64 \<times> string \<times> int \<times> (string \<Rightarrow> string \<Rightarrow> int + sock_try list)" where
  "still w = (config w, e_slept w, reconnect_count (stats w), nmea_gga w, last_gga_sent w, e_resolve w)"

lemma still_updates [simp]:
  "still (w\<lparr>socket_fd := x0\<rparr>) = still w"  "still (w\<lparr>ssl_ctx := x1\<rparr>) = still w"
  "still (w\<lparr>ssl := x2\<rparr>) = still w"  "still (w\<lparr>connected := x3\<rparr>) = still w"
  "still (w\<lparr>disconnected := x4\<rparr>) = still w"  "still (w\<lparr>pending_data := x5\<rparr>) = still w"
  "still (w\<lparr>e_ssl := x6\<rparr>) = still w"  "still (w\<lparr>e_selects := x7\<rparr>) = still w"
  "still (w\<lparr>e_sends := x8\<rparr>) = still w"  "still (w\<lparr>e_recvs := x9\<rparr>) = still w"
  "still (w\<lparr>e_ssl_writes := x10\<rparr>) = still w"  "still (w\<lparr>e_ssl_reads := x11\<rparr>) = still w"
  "still (w\<lparr>e_sent := x12\<rparr>) = still w"  "still (w\<lparr>e_open := x13\<rparr>) = still w"
  "still (w\<lparr>e_bad_closes := x14\<rparr>) = still w"  "still (w\<lparr>e_nonblock := x15\<rparr>) = still w"
  "still (w\<lparr>e_clock_reads := x16\<rparr>) = still w"
  by (simp_all add: still_def)

lemma fail_with_world [simp]: "snd (fail_with e r w) = w"
  by (simp add: fail_with_def LogErrorOrWarn_def)

lemma fail_with_still: "fail_with e r w = (q, w') \<Longrightarrow> still w' = still w"
  by (auto simp: fail_with_def LogErrorOrWarn_def split: if_splits)

lemma os_close_still [simp]: "still (os_close f w) = still w"
  by (simp add: os_close_def)

lemma CloseConnection_still [simp]: "still (CloseConnection w) = still w"
  by (simp add: CloseConnection_def Let_def)

lemma CreateSocket_still: "CreateSocket X a w = (b, w') \<Longrightarrow> still w' = still w"
  by (auto simp: CreateSocket_def Let_def split: if_splits sum.splits)

lemma connect_addrs_still: "connect_addrs X as w = (b, w') \<Longrightarrow> still w' = still w"
  by (induction as arbitrary: w) (force split: prod.splits bool.splits if_splits dest: CreateSocket_still)+

lemma ConnectSocket_still: "ConnectSocket X w = (r, w') \<Longrightarrow> still w' = still w"
  by (auto simp: ConnectSocket_def Let_def dest!: connect_addrs_still fail_with_still
      split: sum.splits prod.splits bool.splits)

lemma InitSSL_still: "InitSSL X w = (r, w') \<Longrightarrow> still w' = still w"
  by (auto simp: InitSSL_def ssl_handshake_def Let_def dest!: fail_with_still
      split: list.splits prod.splits if_splits option.splits)

lemma SendData_still: "SendData p w = (r, w') \<Longrightarrow> still w' = still w"
  by (auto simp: SendData_def Let_def dest!: fail_with_still
      split: list.splits if_splits send_res.splits ssl_write_res.splits)

lemma ReceiveData_still: "ReceiveData k w = (r, w') \<Longrightarrow> still w' = still w"
  by (auto simp: ReceiveData_def Let_def dest!: fail_with_still
      split: list.splits if_splits recv_res.splits ssl_read_res.splits)

lemma send_request_loop_still: "send_request_loop p w = (r, w') \<Longrightarrow> still w' = still w"
proof (induction p w rule: send_request_loop.induct)
  case (1 p w)
  obtain q w1 where s: "SendData p w = (q, w1)" by fastforce
  with 1 SendData_still [OF s] show ?case
    by (auto simp: send_request_loop.simps [of p w] split: if_splits io.splits dest: fail_with_still)
qed

lemma response_loop_still: "response_loop s w = (r, w') \<Longrightarrow> still w' = still w"
proof (induction s w rule: response_loop.induct)
  case (1 s w)
  obtain q w1 where rd: "ReceiveData 4095 w = (q, w1)" by fastforce
  with 1 ReceiveData_still [OF rd] show ?case
    by (auto simp: response_loop.simps [of s w] split: if_splits io.splits received.splits dest: fail_with_still)
qed

lemma ReceiveResponse_still: "ReceiveResponse w = (r, w') \<Longrightarrow> still w' = still w"
  by (auto simp: ReceiveResponse_def select_read_def LogErrorOrWarn_def bind_io_def Let_def
      dest!: response_loop_still fail_with_still
      split: list.splits if_splits prod.splits io.splits option.splits)

lemma reset_statistics_still [simp]: "still (reset_statistics w) = still w"
  by (simp add: still_def reset_statistics_def clock_read_def)

lemma Connect_still: "Connect X w = (r, w') \<Longrightarrow> still w' = still w"
  by (auto simp: Connect_def SendRequest_def or_close_def bind_io_def
      dest!: ConnectSocket_still InitSSL_still send_request_loop_still ReceiveResponse_still
      split: if_splits prod.splits io.splits)

lemma CloseConnection_config [simp]: "config (CloseConnection w) = config w"
  by (simp add: CloseConnection_def os_close_def Let_def)

lemma Connect_config: "Connect X w = (r, w') \<Longrightarrow> config w' = config w"
  using Connect_still [of X w r w'] by (simp add: still_def)

text \<open>
  One round of the loop after the sleep, and the loop. The flag \<open>receiving_\<close> belongs to the other
  threads too; \<open>obs\<close> gives its values as the loop reads them. The result is whether the connection is
  back; when it is not, the caller's \<open>receiving_\<close> is cleared.
\<close>

definition next_interval :: "Options \<Rightarrow> int \<Rightarrow> int \<Rightarrow> int" where
  "next_interval c attempts current =
     (if opt_exponential_backoff c \<and> 3 < attempts then min (current * 2) 60 else current)"

definition count_reconnect :: "nworld \<Rightarrow> nworld" where
  "count_reconnect w = w\<lparr>stats := (stats w)\<lparr>reconnect_count := reconnect_count (stats w) + 1\<rparr>\<rparr>"

function reconnect_loop :: "ntrip_lib \<Rightarrow> (nat \<Rightarrow> bool) \<Rightarrow> nat \<Rightarrow> int \<Rightarrow> int \<Rightarrow> bool nact" where
  "reconnect_loop X obs i attempts current w =
     (if opt_auto_reconnect (config w) \<and> obs i \<and> attempts < opt_max_reconnect_attempts (config w) then
        (let w1 = sleep_seconds current (count_reconnect w) in
         if \<not> obs (Suc i) then fail_with (Reconnect_failed (attempts + 1)) False w1
         else case Connect X (CloseConnection w1) of
           (Done True, w2) \<Rightarrow> (Done True, w2)
         | (Done False, w2) \<Rightarrow>
             reconnect_loop X obs (Suc (Suc i)) (attempts + 1)
               (next_interval (config w2) (attempts + 1) current) w2
         | (Throw e, w2) \<Rightarrow> (Throw e, w2)
         | (Blocked, w2) \<Rightarrow> (Blocked, w2))
      else fail_with (Reconnect_failed attempts) False w)"
  by pat_completeness auto
termination
  by (relation "measure (\<lambda>(X, obs, i, attempts, current, w). nat (opt_max_reconnect_attempts (config w) - attempts))")
    (auto dest!: Connect_config [OF sym] simp: count_reconnect_def sleep_seconds_def)

declare reconnect_loop.simps [simp del]

definition HandleReconnect :: "ntrip_lib \<Rightarrow> (nat \<Rightarrow> bool) \<Rightarrow> bool nact" where
  "HandleReconnect X obs w = reconnect_loop X obs 0 0 (opt_reconnect_interval (config w)) w"

section \<open>The code: position reports\<close>

definition gga_line :: "string \<Rightarrow> string" where
  "gga_line gga =
     (if last gga \<noteq> CHR 0x0A then if last gga = CHR 0x0D then gga @ [CHR 0x0A] else gga @ crlf else gga)"

definition SendGGA :: "unit nact" where
  "SendGGA w =
     (let (now, w1) = clock_read w in
      if now - last_gga_sent w1 < max 1 (opt_gga_interval (config w1)) * 1000000000 then (Done (), w1)
      else if nmea_gga w1 = [] then (Done (), w1\<lparr>last_gga_sent := now\<rparr>)
      else bind_io (SendData (bytes_of_string (gga_line (nmea_gga w1))) w1) (\<lambda>k w2.
        (Done (), if 0 < k then w2\<lparr>last_gga_sent := now\<rparr> else w2)))"

section \<open>The code: statistics\<close>

text \<open>\<open>duration_cast<seconds>\<close> truncates towards zero; only positive durations are used.\<close>

definition GetStatistics :: "nworld \<Rightarrow> Statistics \<times> nworld" where
  "GetStatistics w =
     (let (now, w1) = clock_read w;
          duration = (now - last_message_time (stats w1)) div 1000000000;
          bytes = bytes_received (stats w1)
      in (if 0 < duration \<and> 0 < bytes
          then (stats w1)\<lparr>current_data_rate :=
            (case round_double (of_nat (unat bytes)) of
               Fin b \<Rightarrow> (case round_double (of_int duration) of
                 Fin d \<Rightarrow> (case round_double (b / d) of Fin q \<Rightarrow> round_double (q / 1024) | x \<Rightarrow> x)
               | _ \<Rightarrow> Fin 0)
             | x \<Rightarrow> x)\<rparr>
          else stats w1, w1))"

section \<open>The code: the source table\<close>

text \<open>
  \<open>std::stod\<close>: the longest prefix that is a decimal or hexadecimal number, an infinity or not-a-number;
  values out of range are failures. \<open>std::stoi\<close> is \<open>parse_int32\<close>.
\<close>

definition hex_val :: "char \<Rightarrow> nat" where
  "hex_val c = (let n = of_char (to_lower c) :: nat in if 97 \<le> n then n - 87 else n - 48)"

definition is_hex_char :: "char \<Rightarrow> bool" where
  "is_hex_char c \<longleftrightarrow> is_digit_char c \<or> (let n = of_char (to_lower c) :: nat in 97 \<le> n \<and> n \<le> 102)"

definition scaled_prefix ::
    "(char \<Rightarrow> bool) \<Rightarrow> (char \<Rightarrow> nat) \<Rightarrow> nat \<Rightarrow> char \<Rightarrow> rat \<Rightarrow> string \<Rightarrow> rat option" where
  "scaled_prefix digit val base e_char e_base s =
     (let ip = takeWhile digit s;
          r = dropWhile digit s;
          fp = (case r of c # cs \<Rightarrow> if c = CHR ''.'' then takeWhile digit cs else [] | [] \<Rightarrow> []);
          r2 = (case r of c # cs \<Rightarrow> if c = CHR ''.'' then dropWhile digit cs else r | [] \<Rightarrow> []);
          m = of_nat (foldl (\<lambda>n c. base * n + val c) 0 (ip @ fp)) / of_nat base ^ length fp :: rat;
          e = (case r2 of c # cs \<Rightarrow>
                 if to_lower c = e_char
                 then let (neg, ds) = take_sign cs; n = int (nat_of_digits (takeWhile is_digit_char ds))
                      in if neg then - n else n
                 else 0
               | [] \<Rightarrow> 0)
      in if ip = [] \<and> fp = [] then None
         else Some (if 0 \<le> e then m * e_base ^ nat e else m / e_base ^ nat (- e)))"

definition in_range :: "rat \<Rightarrow> double option" where
  "in_range x =
     (case round_double x of
        Fin v \<Rightarrow> if x \<noteq> v \<and> \<bar>x\<bar> < 1 / 2 ^ 1022 then None else Some (Fin v)
      | _ \<Rightarrow> None)"

definition stod :: "string \<Rightarrow> double option" where
  "stod s =
     (let (neg, s1) = take_sign (dropWhile is_space s);
          signed = (\<lambda>x :: rat. if neg then - x else x)
      in if starts_with_ci s1 ''inf'' then Some (if neg then NInf else PInf)
         else if starts_with_ci s1 ''nan'' then Some NaN
         else case (if starts_with_ci s1 ''0x'' then scaled_prefix is_hex_char hex_val 16 (CHR ''p'') 2 (drop 2 s1) else None) of
           Some x \<Rightarrow> in_range (signed x)
         | None \<Rightarrow>
             (case scaled_prefix is_digit_char digit_val 10 (CHR ''e'') 10 s1 of
                Some x \<Rightarrow> in_range (signed x)
              | None \<Rightarrow> None))"

definition number :: "(string \<Rightarrow> 'a option) \<Rightarrow> string \<Rightarrow> ntrip_error + 'a" where
  "number conv s = (case conv s of Some v \<Rightarrow> Inr v | None \<Rightarrow> Inl (Bad_number s))"

text \<open>One guarded assignment of a field that is there.\<close>

definition text_field :: "string list \<Rightarrow> nat \<Rightarrow> (string \<Rightarrow> MountPoint \<Rightarrow> MountPoint) \<Rightarrow> MountPoint \<Rightarrow> MountPoint" where
  "text_field fs i set_it m = (if i < length fs then set_it (fs ! i) m else m)"

definition number_field :: "(string \<Rightarrow> 'a option) \<Rightarrow> string list \<Rightarrow> nat \<Rightarrow> ('a \<Rightarrow> MountPoint \<Rightarrow> MountPoint) \<Rightarrow>
    MountPoint \<Rightarrow> ntrip_error + MountPoint" where
  "number_field conv fs i set_it m =
     (if i < length fs then bind_res (number conv (fs ! i)) (\<lambda>v. Inr (set_it v m)) else Inr m)"

definition parse_mount_point :: "string list \<Rightarrow> ntrip_error + MountPoint" where
  "parse_mount_point fs =
     (let m1 = text_field fs 1 (\<lambda>s m. m\<lparr>mp_mount_point := s\<rparr>) MountPoint_default;
          m2 = text_field fs 2 (\<lambda>s m. m\<lparr>mp_city := s\<rparr>) m1;
          m3 = text_field fs 3 (\<lambda>s m. m\<lparr>mp_data_format := s\<rparr>) m2;
          m4 = text_field fs 4 (\<lambda>s m. m\<lparr>mp_format_details := s\<rparr>) m3
      in bind_res (number_field parse_int32 fs 5 (\<lambda>v m. m\<lparr>mp_carrier := v\<rparr>) m4) (\<lambda>m5.
         let m6 = text_field fs 6 (\<lambda>s m. m\<lparr>mp_nav_system := s\<rparr>) m5;
             m7 = text_field fs 7 (\<lambda>s m. m\<lparr>mp_network := s\<rparr>) m6;
             m8 = text_field fs 8 (\<lambda>s m. m\<lparr>mp_country := s\<rparr>) m7
         in bind_res (number_field stod fs 9 (\<lambda>v m. m\<lparr>mp_latitude := v\<rparr>) m8) (\<lambda>m9.
            number_field stod fs 10 (\<lambda>v m. m\<lparr>mp_longitude := v\<rparr>) m9)))"

fun parse_table :: "(string \<Rightarrow> char \<Rightarrow> string list) \<Rightarrow> string list \<Rightarrow> ntrip_error + MountPoint list" where
  "parse_table splt [] = Inr []"
| "parse_table splt (line # rest) =
     (if starts_with ''STR;'' line
      then bind_res (parse_mount_point (splt line (CHR '';''))) (\<lambda>m.
        bind_res (parse_table splt rest) (\<lambda>ms. Inr (m # ms)))
      else parse_table splt rest)"

lemma ReceiveData_keeps_selects: "e_selects (snd (ReceiveData k w)) = e_selects w"
  by (simp add: ReceiveData_def Let_def split: list.splits recv_res.splits ssl_read_res.splits)

lemma ReceiveData_selects: "ReceiveData k w = (r, w') \<Longrightarrow> e_selects w' = e_selects w"
  using ReceiveData_keeps_selects [of k w] by simp

function table_loop :: "string \<Rightarrow> string nact" where
  "table_loop response w =
     (case select_read w of
        (Done Poll_ready, w1) \<Rightarrow>
          (case ReceiveData 65535 w1 of
             (Done (Data bs), w2) \<Rightarrow> table_loop (response @ string_of_bytes bs) w2
           | (Done _, w2) \<Rightarrow> (Done response, w2)
           | (Throw e, w2) \<Rightarrow> (Throw e, w2)
           | (Blocked, w2) \<Rightarrow> (Blocked, w2))
      | (Done _, w1) \<Rightarrow> (Done response, w1)
      | (Throw e, w1) \<Rightarrow> (Throw e, w1)
      | (Blocked, w1) \<Rightarrow> (Blocked, w1))"
  by pat_completeness auto
termination
  by (relation "measure (\<lambda>(response, w). length (e_selects w))")
    (auto simp: select_read_def dest!: ReceiveData_selects [OF sym] split: list.splits)

declare table_loop.simps [simp del]

text \<open>An exception of the conversions leaves the function before \<open>CloseConnection\<close>.\<close>

definition GetSourceTable :: "ntrip_lib \<Rightarrow> MountPoint list nact" where
  "GetSourceTable X w =
     bind_io (ConnectSocket X w) (\<lambda>ok w1.
     if \<not> ok then (Done [], w1)
     else bind_io (if opt_is_ssl (config w1) then InitSSL X w1 else (Done True, w1)) (\<lambda>ok2 w2.
     if \<not> ok2 then (Done [], CloseConnection w2)
     else bind_io (SendData (bytes_of_string (BuildHTTPRequest X ''/'' w2)) w2) (\<lambda>k w3.
     if k \<le> 0 then (Done [], CloseConnection w3)
     else bind_io (table_loop [] w3) (\<lambda>response w4.
     case parse_table (x_split X) (getlines (CHR 0x0A) response) of
       Inl e \<Rightarrow> (Throw e, w4)
     | Inr result \<Rightarrow> (Done result, CloseConnection w4)))))"

end
