(* ===== verification/NtripClientProps.thy ===== *)
theory NtripClientProps
  imports NtripClient
begin

text \<open>
  What the NTRIP client guarantees outside its threads: the schedule of reconnection attempts, the
  request on the wire, the handshake, and the descriptors it holds.
\<close>

section \<open>Reconnecting\<close>

text \<open>The time before attempt \<open>i + 1\<close>, in seconds.\<close>

definition backoff :: "Options \<Rightarrow> nat \<Rightarrow> int" where
  "backoff c i =
     (if opt_exponential_backoff c \<and> 3 < i then min (opt_reconnect_interval c * 2 ^ (i - 3)) 60
      else opt_reconnect_interval c)"

lemma next_interval_backoff:
  assumes "0 \<le> opt_reconnect_interval c"
  shows "next_interval c (int a + 1) (backoff c a) = backoff c (Suc a)"
proof (cases "opt_exponential_backoff c \<and> 2 < a")
  case True
  have "Suc a - 3 = Suc (a - 3)" using True by arith
  then have pow: "(2 :: int) ^ (Suc a - 3) = 2 * 2 ^ (a - 3)" by (simp only: power_Suc)
  show ?thesis
  proof (cases "a = 3")
    case True
    then show ?thesis by (simp add: next_interval_def backoff_def)
  next
    case False
    with True have "3 < a" by simp
    have "min (min x 60 * 2) 60 = min (x * 2) 60" for x :: int by auto
    with True \<open>3 < a\<close> pow show ?thesis by (simp add: next_interval_def backoff_def algebra_simps)
  qed
qed (auto simp: next_interval_def backoff_def)

lemma still_fields: "still w' = still w \<Longrightarrow> config w' = config w \<and> e_slept w' = e_slept w \<and>
    reconnect_count (stats w') = reconnect_count (stats w)"
  by (simp add: still_def)

lemma round_fields [simp]:
  "config (sleep_seconds s (count_reconnect w)) = config w"
  "e_slept (sleep_seconds s (count_reconnect w)) = e_slept w @ [s]"
  "reconnect_count (stats (sleep_seconds s (count_reconnect w))) = reconnect_count (stats w) + 1"
  by (simp_all add: sleep_seconds_def count_reconnect_def)

lemma fail_with_eq: "fail_with e r w = (q, w') \<Longrightarrow> w' = w"
  using fail_with_world [of e r w] by simp

lemma reconnect_loop_schedule:
  assumes "0 \<le> opt_reconnect_interval (config w)"
    and "reconnect_loop X obs i (int a) (backoff (config w) a) w = (r, w')"
  shows "\<exists>k. a \<le> k \<and> k \<le> max a (nat (opt_max_reconnect_attempts (config w))) \<and>
     e_slept w' = e_slept w @ map (backoff (config w)) [a..<k] \<and>
     reconnect_count (stats w') = reconnect_count (stats w) + of_nat (k - a) \<and> config w' = config w"
  using assms
proof (induction "nat (opt_max_reconnect_attempts (config w)) - a" arbitrary: a i w rule: less_induct)
  case less
  let ?c = "config w"
  let ?w1 = "sleep_seconds (backoff ?c a) (count_reconnect w)"
  show ?case
  proof (cases "opt_auto_reconnect ?c \<and> obs i \<and> int a < opt_max_reconnect_attempts ?c")
    case False
    with less.prems(2) have "w' = w"
      by (auto simp: reconnect_loop.simps [of X obs i "int a"] dest: fail_with_eq)
    then show ?thesis by (intro exI [of _ a]) simp
  next
    case go: True
    then have lim: "a < nat (opt_max_reconnect_attempts ?c)" by linarith
    obtain q w2 where c: "Connect X (CloseConnection ?w1) = (q, w2)" by fastforce
    have w2: "config w2 = ?c" "e_slept w2 = e_slept w @ [backoff ?c a]"
        "reconnect_count (stats w2) = reconnect_count (stats w) + 1"
      using still_fields [OF Connect_still [OF c]] still_fields [OF CloseConnection_still [of ?w1]] by simp_all
    show ?thesis
    proof (cases "obs (Suc i) \<and> q = Done False")
      case False
      then have "w' = ?w1 \<or> w' = w2"
        using less.prems(2) go c
        by (auto simp: reconnect_loop.simps [of X obs i "int a"] Let_def dest: fail_with_eq split: io.splits bool.splits if_splits)
      with w2 lim show ?thesis by (intro exI [of _ "Suc a"]) auto
    next
      case True
      then have rec: "reconnect_loop X obs (Suc (Suc i)) (int (Suc a)) (backoff (config w2) (Suc a)) w2 = (r, w')"
        using less.prems go c w2(1) next_interval_backoff [of ?c a]
        by (simp add: reconnect_loop.simps [of X obs i "int a"] Let_def add.commute)
      have "nat (opt_max_reconnect_attempts (config w2)) - Suc a < nat (opt_max_reconnect_attempts ?c) - a"
        using lim w2(1) by simp
      from less.hyps [OF this _ rec] less.prems(1) w2(1) obtain k where k: "Suc a \<le> k"
          "k \<le> max (Suc a) (nat (opt_max_reconnect_attempts ?c))"
          "e_slept w' = e_slept w2 @ map (backoff ?c) [Suc a..<k]"
          "reconnect_count (stats w') = reconnect_count (stats w2) + of_nat (k - Suc a)" "config w' = ?c"
        by auto
      moreover have "[a..<k] = a # [Suc a..<k]" using k(1) by (simp add: upt_conv_Cons)
      moreover have "k - a = Suc (k - Suc a)" using k(1) by simp
      ultimately show ?thesis using w2 lim by (intro exI [of _ k]) auto
    qed
  qed
qed


lemma fail_with_rtk: "opt_enable_rtk (config w) \<Longrightarrow> fail_with e r w = (Throw e, w)"
  by (simp add: fail_with_def LogErrorOrWarn_def)

lemma fail_with_plain: "\<not> opt_enable_rtk (config w) \<Longrightarrow> fail_with e r w = (Done r, w)"
  by (simp add: fail_with_def LogErrorOrWarn_def)

lemma rtk_steps:
  assumes "opt_enable_rtk (config w)"
  shows "ConnectSocket X w \<noteq> (Done False, w')" and "InitSSL X w \<noteq> (Done False, w')"
    and "send_request_loop p w \<noteq> (Done False, w')" and "ReceiveResponse w \<noteq> (Done False, w')"
proof -
  show "ConnectSocket X w \<noteq> (Done False, w')"
    using assms by (auto simp: ConnectSocket_def Let_def fail_with_def LogErrorOrWarn_def
        dest!: connect_addrs_still still_fields split: sum.splits prod.splits bool.splits if_splits)
  show "InitSSL X w \<noteq> (Done False, w')"
    using assms by (auto simp: InitSSL_def ssl_handshake_def Let_def fail_with_def LogErrorOrWarn_def
        split: list.splits prod.splits if_splits option.splits)
  show "send_request_loop p w \<noteq> (Done False, w')"
    using assms
  proof (induction p w rule: send_request_loop.induct)
    case (1 p w)
    obtain q w1 where d: "SendData p w = (q, w1)" by fastforce
    have "config w1 = config w" using still_fields [OF SendData_still [OF d]] by simp
    with 1 d show ?case
      by (auto simp: send_request_loop.simps [of p w] fail_with_rtk split: io.splits if_splits)
  qed
  have resp: "response_loop s v \<noteq> (Done None, v')" if "opt_enable_rtk (config v)" for s v v'
    using that
  proof (induction s v rule: response_loop.induct)
    case (1 s v)
    obtain q v1 where d: "ReceiveData 4095 v = (q, v1)" by fastforce
    have "config v1 = config v" using still_fields [OF ReceiveData_still [OF d]] by simp
    with 1 d show ?case
      by (auto simp: response_loop.simps [of s v] fail_with_rtk split: io.splits if_splits received.splits)
  qed
  have cfg: "config v' = config v" if "response_loop s v = (q, v')" for s v q v'
    using still_fields [OF response_loop_still [OF that]] by simp
  show "ReceiveResponse w \<noteq> (Done False, w')"
    using assms resp
    by (auto simp: ReceiveResponse_def select_read_def LogErrorOrWarn_def fail_with_def bind_io_def Let_def
        dest!: cfg split: list.splits prod.splits io.splits if_splits option.splits)
qed

lemma Connect_rtk:
  assumes "opt_enable_rtk (config w)"
  shows "Connect X w \<noteq> (Done False, w')"
proof
  assume a: "Connect X w = (Done False, w')"
  obtain q1 w1 where 1: "ConnectSocket X w = (q1, w1)" by fastforce
  obtain q2 w2 where 2: "(if opt_is_ssl (config w1) then InitSSL X w1 else (Done True, w1)) = (q2, w2)" by fastforce
  obtain q3 w3 where 3: "SendRequest X w2 = (q3, w3)" by fastforce
  obtain q4 w4 where 4: "ReceiveResponse w3 = (q4, w4)" by fastforce
  have c: "config w1 = config w" using still_fields [OF ConnectSocket_still [OF 1]] by simp
  have c2: "config w2 = config w" using 2 c still_fields [OF InitSSL_still] by (auto split: if_splits)
  have c3: "config w3 = config w" using 3 c2 still_fields [OF send_request_loop_still] by (simp add: SendRequest_def)
  have "q1 \<noteq> Done False" using rtk_steps(1) assms 1 by blast
  moreover have "q2 \<noteq> Done False" using rtk_steps(2) assms 2 c by (auto split: if_splits)
  moreover have "q3 \<noteq> Done False" using rtk_steps(3) [of w2] assms 3 c2 by (simp add: SendRequest_def) blast
  moreover have "q4 \<noteq> Done False" using rtk_steps(4) [of w3] assms 4 c3 by auto
  ultimately show False
    using a 1 2 3 4 by (auto simp: Connect_def or_close_def bind_io_def split: io.splits if_splits)
qed

text \<open>
  C30: with RTK required there is one attempt. Every failing step of \<open>Connect\<close> then throws, so \<open>Connect\<close>
  never returns false and \<open>HandleReconnect\<close> never gets to a second attempt; it gives up only by an exception,
  which ends the receiving thread. The backoff is used only when RTK is not required.
\<close>

theorem rtk_reconnects_once:
  assumes "opt_enable_rtk (config w)" and "HandleReconnect X obs w = (r, w')"
  shows "length (e_slept w') \<le> Suc (length (e_slept w)) \<and> r \<noteq> Done False"
proof -
  let ?w1 = "sleep_seconds (opt_reconnect_interval (config w)) (count_reconnect w)"
  obtain q w2 where c: "Connect X (CloseConnection ?w1) = (q, w2)" by fastforce
  have w2: "e_slept w2 = e_slept w @ [opt_reconnect_interval (config w)]"
    using still_fields [OF Connect_still [OF c]] still_fields [OF CloseConnection_still [of ?w1]] by simp
  have "q \<noteq> Done False" using Connect_rtk [of "CloseConnection ?w1"] c assms(1) by auto
  then have "(w' = w \<or> w' = ?w1 \<or> w' = w2) \<and> r \<noteq> Done False"
    using assms c unfolding HandleReconnect_def reconnect_loop.simps [of X obs 0 0] Let_def
    by (auto simp: fail_with_rtk split: io.splits bool.splits if_splits)
  with w2 show ?thesis by auto
qed

lemma reconnect_loop_gives_up:
  assumes "\<not> opt_enable_rtk (config w)" and "opt_auto_reconnect (config w)" and "\<forall>i. obs i"
    and "e_resolve w (opt_host (config w)) (int_to_string (opt_port (config w))) = Inl ret" and "\<not> connected w"
  shows "\<exists>w'. reconnect_loop X obs i a cur w = (Done False, w') \<and> \<not> connected w' \<and>
     length (e_slept w') = length (e_slept w) + nat (opt_max_reconnect_attempts (config w) - a)"
  using assms
proof (induction "nat (opt_max_reconnect_attempts (config w) - a)" arbitrary: i a cur w)
  case 0
  then show ?case by (subst reconnect_loop.simps) (simp add: fail_with_plain)
next
  case (Suc n)
  let ?w1 = "CloseConnection (sleep_seconds cur (count_reconnect w))"
  let ?w2 = "CloseConnection ?w1"
  have same: "config ?w1 = config w" "e_resolve ?w1 = e_resolve w" "\<not> connected ?w1"
    by (simp_all add: CloseConnection_def os_close_def Let_def sleep_seconds_def count_reconnect_def)
  then have c: "Connect X ?w1 = (Done False, ?w2)"
    using Suc.prems(1,4) by (simp add: Connect_def ConnectSocket_def or_close_def fail_with_plain)
  have lim: "a < opt_max_reconnect_attempts (config w)" using Suc.hyps(2) by linarith
  have w2: "config ?w2 = config w" "e_resolve ?w2 = e_resolve w" "\<not> connected ?w2" "length (e_slept ?w2) = Suc (length (e_slept w))"
    by (simp_all add: CloseConnection_def os_close_def Let_def sleep_seconds_def count_reconnect_def)
  have step: "reconnect_loop X obs i a cur w =
      reconnect_loop X obs (Suc (Suc i)) (a + 1) (next_interval (config w) (a + 1) cur) ?w2"
    using Suc.prems(2,3) lim c w2(1) by (simp add: reconnect_loop.simps [of X obs i a] Let_def)
  have "n = nat (opt_max_reconnect_attempts (config ?w2) - (a + 1))" unfolding w2(1) using Suc.hyps(2) by linarith
  from Suc.hyps(1) [OF this] Suc.prems w2 have "\<exists>w'. reconnect_loop X obs (Suc (Suc i)) (a + 1) (next_interval (config w) (a + 1) cur) ?w2 =
      (Done False, w') \<and> \<not> connected w' \<and>
      length (e_slept w') = length (e_slept ?w2) + nat (opt_max_reconnect_attempts (config ?w2) - (a + 1))"
    by simp
  with step w2(1,4) lim show ?case by auto
qed

text \<open>
  Without RTK the client tries as often as it is told, then gives up. When the host never resolves and
  receiving goes on, \<open>HandleReconnect\<close> returns without a connection after exactly
  \<open>max_reconnect_attempts\<close> attempts, having waited the whole backoff sequence.
\<close>

theorem reconnect_gives_up:
  assumes "\<not> opt_enable_rtk (config w)" and "opt_auto_reconnect (config w)" and "\<forall>i. obs i" and "\<not> connected w"
    and "e_resolve w (opt_host (config w)) (int_to_string (opt_port (config w))) = Inl ret"
    and "0 \<le> opt_reconnect_interval (config w)"
  shows "\<exists>w'. HandleReconnect X obs w = (Done False, w') \<and> \<not> connected w' \<and>
     e_slept w' = e_slept w @ map (backoff (config w)) [0..<nat (opt_max_reconnect_attempts (config w))]"
proof -
  obtain w' where w': "HandleReconnect X obs w = (Done False, w')" "\<not> connected w'"
      "length (e_slept w') = length (e_slept w) + nat (opt_max_reconnect_attempts (config w))"
    using reconnect_loop_gives_up [OF assms(1,2,3,5,4), of X 0 0] by (auto simp: HandleReconnect_def)
  moreover have "HandleReconnect X obs w = reconnect_loop X obs 0 (int 0) (backoff (config w) 0) w"
    by (simp add: HandleReconnect_def backoff_def)
  with w'(1) reconnect_loop_schedule [OF assms(6)] obtain k where
    "e_slept w' = e_slept w @ map (backoff (config w)) [0..<k]" by metis
  ultimately show ?thesis by (intro exI [of _ w']) simp
qed

definition ex_options :: Options where
  "ex_options = LoadConfig
     \<lparr>ins_enable_rtk = False, ins_host = ''caster.example'', ins_port = 2101, ins_mount_point = ''MNT'',
      ins_use_vrs = True, ins_username = ''u'', ins_password = ''p''\<rparr> Options_default"

definition ex_lib :: ntrip_lib where
  "ex_lib = \<lparr>x_guard_dtor = remove1, x_bio_ok = (True, True), x_base64 = (\<lambda>s. ''dTpw''),
     x_split = (\<lambda>s c. getlines c s), x_strerror = int_to_string, x_ssl_text = nat_to_string, x_verify_text = int_to_string\<rparr>"

definition ex_sock :: sock_try where
  "ex_sock = \<lparr>st_socket = Inr 5, st_reuse = None, st_nodelay = None, st_rcvtimeo = None, st_sndtimeo = None,
     st_keepalive = None, st_nonblock = Fcntl_ok, st_connect = Some EINPROGRESS, st_select = Poll_ready, st_so_error = 0\<rparr>"

definition ex_client :: nworld where
  "ex_client =
     \<lparr>config = ex_options, socket_fd = -1, ssl_ctx = False, ssl = False, connected = False, disconnected = False,
      pending_data = [], nmea_gga = [], last_gga_sent = 0, stats = Statistics_default,
      e_resolve = (\<lambda>h p. Inr [ex_sock]), e_ssl = [], e_selects = [Poll_ready], e_sends = [Sent 100, Sent 1000],
      e_recvs = [Received (bytes_of_string (''ICY 200 OK'' @ crlf @ crlf) @ [0xD3, 0x01, 0x3E])],
      e_ssl_writes = [], e_ssl_reads = [], e_sent = [], e_open = [], e_bad_closes = 0, e_nonblock = False,
      e_clock = int, e_clock_reads = 0, e_slept = []\<rparr>"

lemma ex_options_fields:
  "opt_enable_rtk ex_options = False" "opt_host ex_options = ''caster.example''" "opt_port ex_options = 2101"
  "opt_auto_reconnect ex_options" "opt_reconnect_interval ex_options = 5" "opt_max_reconnect_attempts ex_options = 10"
  "opt_exponential_backoff ex_options" "opt_is_ssl ex_options = False" "opt_mount_point ex_options = ''MNT''"
  "opt_username ex_options = ''u''" "opt_password ex_options = ''p''" "opt_user_agent ex_options = ''NTRIP/2.0''"
  by (simp_all add: ex_options_def LoadConfig_def Options_default_def)

lemma ex_backoff: "map (backoff ex_options) [0..<10] = [5, 5, 5, 5, 10, 20, 40, 60, 60, 60]"
  by (simp add: upt_rec backoff_def ex_options_fields)

definition ex_unresolved :: nworld where
  "ex_unresolved = ex_client\<lparr>e_resolve := (\<lambda>h p. Inl (-2))\<rparr>"

lemma ex_unresolved_fields [simp]:
  "config ex_unresolved = ex_options" "e_resolve ex_unresolved h p = Inl (-2)" "\<not> connected ex_unresolved"
  "e_slept ex_unresolved = []" "stats ex_unresolved = Statistics_default"
  by (simp_all add: ex_unresolved_def ex_client_def)

theorem reconnect_gives_up_witness:
  "\<exists>w'. HandleReconnect ex_lib (\<lambda>_. True) ex_unresolved = (Done False, w') \<and> \<not> connected w' \<and>
     e_slept w' = [5, 5, 5, 5, 10, 20, 40, 60, 60, 60]"
  using reconnect_gives_up [of ex_unresolved "\<lambda>_. True" "-2" ex_lib] ex_backoff
  by (simp add: ex_options_fields)


theorem rtk_reconnects_once_witness:
  "length (e_slept (snd (HandleReconnect ex_lib (\<lambda>_. True) (ex_unresolved\<lparr>config := ex_options\<lparr>opt_enable_rtk := True\<rparr>\<rparr>)))) \<le>
     Suc (length (e_slept (ex_unresolved\<lparr>config := ex_options\<lparr>opt_enable_rtk := True\<rparr>\<rparr>))) \<and>
   fst (HandleReconnect ex_lib (\<lambda>_. True) (ex_unresolved\<lparr>config := ex_options\<lparr>opt_enable_rtk := True\<rparr>\<rparr>)) \<noteq> Done False"
  by (rule rtk_reconnects_once [OF _ prod.collapse [symmetric]]) simp

section \<open>The request\<close>

definition header_lines :: "string list \<Rightarrow> string" where
  "header_lines ls = concat (map (\<lambda>l. l @ crlf) ls)"

text \<open>A line of a header: not empty, and without a carriage return.\<close>

definition clean :: "string \<Rightarrow> bool" where
  "clean l \<longleftrightarrow> l \<noteq> [] \<and> CHR 0x0D \<notin> set l"

lemma find_past_line:
  "CHR 0x0D \<notin> set l \<Longrightarrow> str_find [CHR 0x0D, CHR 0x0A, CHR 0x0D, CHR 0x0A] (l @ r) =
     map_option (\<lambda>k. length l + k) (str_find [CHR 0x0D, CHR 0x0A, CHR 0x0D, CHR 0x0A] r)"
  by (induction l; cases "str_find (crlf @ crlf) r") auto

lemma header_end:
  assumes "\<forall>l \<in> set ls. clean l" and "ls \<noteq> []"
  shows "str_find (crlf @ crlf) (header_lines ls @ crlf @ r) = Some (length (header_lines ls) - 2)"
  using assms(2,1)
proof (induction ls rule: list_nonempty_induct)
  case (single l)
  then show ?case by (simp add: header_lines_def clean_def find_past_line)
next
  case (cons l ls)
  then obtain m ms where ls: "ls = m # ms" by (cases ls) auto
  with cons.prems obtain c cs where m: "m = c # cs" "c \<noteq> CHR 0x0D" by (cases m) (auto simp: clean_def)
  let ?r = "header_lines ls @ crlf @ r"
  have len: "2 \<le> length (header_lines ls)" by (simp add: ls header_lines_def)
  have "str_find (crlf @ crlf) (crlf @ ?r) = map_option (\<lambda>k. 2 + k) (str_find (crlf @ crlf) ?r)"
    using m by (simp add: ls header_lines_def option.map_comp comp_def)
  with cons len show ?case
    by (simp add: header_lines_def [of "l # ls"] find_past_line clean_def flip: header_lines_def)
qed

definition request_lines :: "ntrip_lib \<Rightarrow> string \<Rightarrow> nworld \<Rightarrow> string list" where
  "request_lines X path w =
     [''GET '' @ path @ '' HTTP/1.1'',
      ''Host: '' @ opt_host (config w) @ '':'' @ int_to_string (opt_port (config w)),
      ''User-Agent: '' @ opt_user_agent (config w), ''Accept: */*'', ''Connection: keep-alive'', ''Ntrip-Version: Ntrip/2.0''] @
     (if opt_username (config w) \<noteq> [] \<and> opt_password (config w) \<noteq> []
      then [''Authorization: Basic '' @ Base64Encode X (opt_username (config w) @ '':'' @ opt_password (config w))] else [])"

lemma BuildHTTPRequest_lines:
  "BuildHTTPRequest X path w = header_lines (request_lines X path w) @
     (if nmea_gga w \<noteq> [] then ''Ntrip-GGA: '' @ nmea_gga w @ crlf else []) @ crlf"
  by (simp add: BuildHTTPRequest_def request_lines_def header_lines_def Let_def)

lemma int_to_string_no_cr: "CHR 0x0D \<notin> set (int_to_string i)"
proof -
  have "\<not> is_digit_char (CHR 0x0D)" by (simp add: is_digit_char_def)
  then show ?thesis using nat_to_string_digits by (auto simp: int_to_string_def)
qed

definition no_cr :: "string \<Rightarrow> bool" where
  "no_cr s \<longleftrightarrow> CHR 0x0D \<notin> set s"

lemma request_lines_clean:
  assumes "no_cr path" and "no_cr (opt_host (config w))" and "no_cr (opt_user_agent (config w))"
    and "no_cr (Base64Encode X (opt_username (config w) @ '':'' @ opt_password (config w)))"
  shows "\<forall>l \<in> set (request_lines X path w). clean l"
  using assms by (auto simp: request_lines_def clean_def no_cr_def int_to_string_no_cr)

text \<open>
  The request is one HTTP header block. When no field has a carriage return (for the credentials: in
  their encoding), the first blank line of the request is its end, so that the caster sees all headers and
  no body.
\<close>

theorem request_is_one_header:
  assumes "no_cr path" and "no_cr (opt_host (config w))" and "no_cr (opt_user_agent (config w))" and "no_cr (nmea_gga w)"
    and "no_cr (Base64Encode X (opt_username (config w) @ '':'' @ opt_password (config w)))"
  shows "str_find (crlf @ crlf) (BuildHTTPRequest X path w) = Some (length (BuildHTTPRequest X path w) - 4)"
proof -
  let ?ls = "request_lines X path w @ (if nmea_gga w \<noteq> [] then [''Ntrip-GGA: '' @ nmea_gga w] else [])"
  have req: "BuildHTTPRequest X path w = header_lines ?ls @ crlf"
    by (simp add: BuildHTTPRequest_lines header_lines_def)
  have "\<forall>l \<in> set ?ls. clean l"
    using request_lines_clean [OF assms(1-3,5)] assms(4) by (auto simp: clean_def no_cr_def)
  moreover have "?ls \<noteq> []" by (simp add: request_lines_def)
  ultimately show ?thesis using header_end [of ?ls "[]"] by (simp add: req)
qed

theorem request_is_one_header_witness:
  "str_find (crlf @ crlf) (BuildHTTPRequest ex_lib ''/MNT'' (ex_client\<lparr>nmea_gga := ''$GPGGA,1*47''\<rparr>)) =
     Some (length (BuildHTTPRequest ex_lib ''/MNT'' (ex_client\<lparr>nmea_gga := ''$GPGGA,1*47''\<rparr>)) - 4)"
  by (rule request_is_one_header)
    (simp_all add: no_cr_def ex_client_def ex_lib_def Base64Encode_def ex_options_fields)

text \<open>
  A position sentence that still has its line end, which \<open>SendGGA\<close> accepts, ends the header block early: one
  empty line too many follows the headers.
\<close>

lemma gga_line_end_splits_request:
  assumes "no_cr path" and "no_cr (opt_host (config w))" and "no_cr (opt_user_agent (config w))" and "no_cr g"
    and "no_cr (Base64Encode X (opt_username (config w) @ '':'' @ opt_password (config w)))" and "nmea_gga w = g @ crlf"
  shows "str_find (crlf @ crlf) (BuildHTTPRequest X path w) = Some (length (BuildHTTPRequest X path w) - 6)"
proof -
  let ?ls = "request_lines X path w @ [''Ntrip-GGA: '' @ g]"
  have req: "BuildHTTPRequest X path w = header_lines ?ls @ crlf @ crlf"
    using assms(6) by (simp add: BuildHTTPRequest_lines header_lines_def)
  have "\<forall>l \<in> set ?ls. clean l"
    using request_lines_clean [OF assms(1-3,5)] assms(4) by (auto simp: clean_def no_cr_def)
  then show ?thesis using header_end [of ?ls crlf] by (simp add: req)
qed

section \<open>The handshake\<close>

definition request_of :: "ntrip_lib \<Rightarrow> nworld \<Rightarrow> byte list" where
  "request_of X w = bytes_of_string (BuildHTTPRequest X (CHR ''/'' # opt_mount_point (config w)) w)"

lemma request_of_still: "still w' = still w \<Longrightarrow> request_of X w' = request_of X w"
  by (simp add: request_of_def BuildHTTPRequest_def still_def)

lemma SendData_sent:
  assumes "SendData p w = (Done k, w1)" and "0 < k"
  shows "e_sent w1 = e_sent w @ take (nat k) p \<and> nat k \<le> length p"
  using assms
  by (auto simp: SendData_def fail_with_def LogErrorOrWarn_def Let_def bind_io_def min_def
      split: if_splits list.splits send_res.splits ssl_write_res.splits)

lemma send_request_loop_sent: "send_request_loop p w = (Done True, w') \<Longrightarrow> e_sent w' = e_sent w @ p"
proof (induction p w rule: send_request_loop.induct)
  case (1 p w)
  show ?case
  proof (cases "p = []")
    case False
    obtain q w1 where d: "SendData p w = (q, w1)" by fastforce
    with 1 False obtain k where k: "q = Done k" "0 < k" "send_request_loop (drop (nat k) p) w1 = (Done True, w')"
      by (auto simp: send_request_loop.simps [of p w] fail_with_def LogErrorOrWarn_def split: io.splits if_splits)
    with 1 False d have "e_sent w' = e_sent w1 @ drop (nat k) p" by auto
    with SendData_sent d k show ?thesis by auto
  qed (use 1 in \<open>simp add: send_request_loop.simps\<close>)
qed

text \<open>The parts that sending and receiving do not touch.\<close>

definition held :: "nworld \<Rightarrow> int \<times> int list \<times> nat" where
  "held w = (socket_fd w, e_open w, e_bad_closes w)"

lemma ssl_handshake_keeps: "held (snd (ssl_handshake X t w)) = held w" "e_sent (snd (ssl_handshake X t w)) = e_sent w"
  by (simp_all add: held_def ssl_handshake_def Let_def split: option.splits)

lemma InitSSL_keeps: "held (snd (InitSSL X w)) = held w" "e_sent (snd (InitSSL X w)) = e_sent w"
proof -
  have nb: "held (v\<lparr>e_nonblock := b\<rparr>) = held v" "held (v\<lparr>e_ssl := t\<rparr>) = held v" for v b t
    by (simp_all add: held_def)
  show "held (snd (InitSSL X w)) = held w" "e_sent (snd (InitSSL X w)) = e_sent w"
    by (simp_all add: InitSSL_def Let_def case_prod_beta ssl_handshake_keeps nb split: list.splits)
qed

lemma SendData_held: "held (snd (SendData p w)) = held w"
  by (simp add: held_def SendData_def Let_def split: list.splits send_res.splits ssl_write_res.splits)

lemma ReceiveData_keeps: "held (snd (ReceiveData k w)) = held w" "e_sent (snd (ReceiveData k w)) = e_sent w"
  by (simp_all add: held_def ReceiveData_def Let_def split: list.splits recv_res.splits ssl_read_res.splits)

lemma send_request_loop_held: "send_request_loop p w = (r, w') \<Longrightarrow> held w' = held w"
proof (induction p w rule: send_request_loop.induct)
  case (1 p w)
  obtain q w1 where d: "SendData p w = (q, w1)" by fastforce
  have "held w1 = held w" using SendData_held [of p w] d by simp
  with 1 d show ?case
    by (auto simp: send_request_loop.simps [of p w] split: if_splits io.splits dest: fail_with_eq)
qed

lemma response_loop_keeps: "response_loop s w = (r, w') \<Longrightarrow> held w' = held w \<and> e_sent w' = e_sent w"
proof (induction s w rule: response_loop.induct)
  case (1 s w)
  obtain q w1 where d: "ReceiveData 4095 w = (q, w1)" by fastforce
  have "held w1 = held w" "e_sent w1 = e_sent w" using ReceiveData_keeps [of 4095 w] d by simp_all
  with 1 d show ?case
    by (auto simp: response_loop.simps [of s w] split: if_splits io.splits received.splits dest: fail_with_eq)
qed

lemma held_updates [simp]:
  "held (w\<lparr>e_selects := a\<rparr>) = held w" "held (w\<lparr>pending_data := b\<rparr>) = held w" "held (w\<lparr>connected := c\<rparr>) = held w"
  "held (w\<lparr>disconnected := d\<rparr>) = held w" "held (reset_statistics w) = held w"
  by (simp_all add: held_def reset_statistics_def clock_read_def)

text \<open>How a response ends: the connection is closed after a failed \<open>select\<close>, and kept otherwise.\<close>

lemma ReceiveResponse_keeps:
  assumes "ReceiveResponse w = (r, w')"
  shows "e_sent w' = e_sent w" and "held w' = held w \<or> (r = Done False \<and> (\<exists>v. held v = held w \<and> w' = CloseConnection v))"
proof -
  have sent: "e_sent (CloseConnection v) = e_sent v" for v
    by (simp add: CloseConnection_def os_close_def Let_def)
  show "e_sent w' = e_sent w"
    using assms
    by (auto simp: ReceiveResponse_def select_read_def LogErrorOrWarn_def bind_io_def Let_def sent
        dest!: response_loop_keeps fail_with_eq split: list.splits prod.splits io.splits if_splits option.splits)
  show "held w' = held w \<or> (r = Done False \<and> (\<exists>v. held v = held w \<and> w' = CloseConnection v))"
    using assms
    by (auto simp: ReceiveResponse_def select_read_def LogErrorOrWarn_def bind_io_def Let_def
        dest!: response_loop_keeps fail_with_eq split: list.splits prod.splits io.splits if_splits option.splits
        intro: exI [of _ "w\<lparr>e_selects := _\<rparr>"])
qed

lemma CreateSocket_open: "CreateSocket X a w = (True, w1) \<Longrightarrow> 0 \<le> socket_fd w1"
  by (auto simp: CreateSocket_def Let_def split: sum.splits if_splits)

lemma CreateSocket_sent: "e_sent (snd (CreateSocket X a w)) = e_sent w"
  by (simp add: CreateSocket_def os_close_def Let_def split: sum.splits)

lemma connect_addrs_sent: "connect_addrs X as w = (b, w') \<Longrightarrow> e_sent w' = e_sent w \<and> (b \<longrightarrow> 0 \<le> socket_fd w')"
proof (induction as arbitrary: w)
  case (Cons a as)
  obtain ok w1 where c: "CreateSocket X a w = (ok, w1)" by fastforce
  have "e_sent w1 = e_sent w" using CreateSocket_sent [of X a w] c by simp
  moreover have "e_sent (os_close f v) = e_sent v" for f v by (simp add: os_close_def)
  ultimately show ?case
    using Cons.prems Cons.IH c CreateSocket_open [of X a w w1] by (cases ok) (auto split: if_splits)
qed simp

lemma ConnectSocket_sent:
  "ConnectSocket X w = (r, w') \<Longrightarrow> e_sent w' = e_sent w \<and> (r = Done True \<longrightarrow> 0 \<le> socket_fd w')"
  by (auto simp: ConnectSocket_def Let_def fail_with_def LogErrorOrWarn_def
      dest!: connect_addrs_sent split: sum.splits prod.splits bool.splits if_splits)

text \<open>The four states that a successful \<open>Connect\<close> goes through.\<close>

lemma Connect_steps:
  assumes "Connect X w = (Done True, w')" and "\<not> connected w"
  obtains w1 w2 w3 w4 where "ConnectSocket X w = (Done True, w1)"
    and "(if opt_is_ssl (config w1) then InitSSL X w1 else (Done True, w1)) = (Done True, w2)"
    and "SendRequest X w2 = (Done True, w3)" and "ReceiveResponse w3 = (Done True, w4)"
    and "w' = reset_statistics (w4\<lparr>connected := True, disconnected := False\<rparr>)"
proof -
  have ok: "or_close x k = (Done True, v) \<Longrightarrow> \<exists>u. x = (Done True, u) \<and> k u = (Done True, v)" for x k v
    by (auto simp: or_close_def bind_io_eq_Done split: if_splits)
  from assms show ?thesis
    by (auto simp: Connect_def dest!: ok intro: that)
qed

text \<open>
  C31: a connection that \<open>Connect\<close> reports is one that has asked for the mount point. When it returns true on a
  client that was not connected, with TLS or without, exactly the request was sent on the new socket, the
  flags say connected, and the statistics start at zero, except the number of reconnections.
\<close>

theorem connect_sends_request:
  assumes "Connect X w = (Done True, w')" and "\<not> connected w"
  shows "e_sent w' = e_sent w @ request_of X w \<and> 0 \<le> socket_fd w' \<and> connected w' \<and> \<not> disconnected w' \<and>
     bytes_received (stats w') = 0 \<and> messages_received (stats w') = 0 \<and> messages_dropped (stats w') = 0 \<and>
     reconnect_count (stats w') = reconnect_count (stats w)"
proof -
  obtain w1 w2 w3 w4 where 1: "ConnectSocket X w = (Done True, w1)"
    and 2: "(if opt_is_ssl (config w1) then InitSSL X w1 else (Done True, w1)) = (Done True, w2)"
    and 3: "SendRequest X w2 = (Done True, w3)" and 4: "ReceiveResponse w3 = (Done True, w4)"
    and w': "w' = reset_statistics (w4\<lparr>connected := True, disconnected := False\<rparr>)"
    using Connect_steps [OF assms] by blast
  have two: "e_sent w2 = e_sent w1 \<and> held w2 = held w1 \<and> still w2 = still w1"
    using 2 InitSSL_keeps [of X w1] InitSSL_still [of X w1] by (auto split: if_splits)
  have "e_sent w3 = e_sent w2 @ request_of X w2" "held w3 = held w2"
    using 3 send_request_loop_sent send_request_loop_held by (auto simp: SendRequest_def request_of_def)
  moreover have "e_sent w4 = e_sent w3" "held w4 = held w3"
    using ReceiveResponse_keeps [OF 4] by auto
  moreover have "request_of X w2 = request_of X w"
    using two ConnectSocket_still [OF 1] by (intro request_of_still) simp
  moreover have "e_sent w1 = e_sent w" "0 \<le> socket_fd w1" using ConnectSocket_sent [OF 1] by simp_all
  ultimately have "e_sent w4 = e_sent w @ request_of X w" "0 \<le> socket_fd w4" using two by (simp_all add: held_def)
  moreover have "reconnect_count (stats w') = reconnect_count (stats w)"
    using still_fields [OF Connect_still [OF assms(1)]] by simp
  ultimately show ?thesis by (simp add: w' reset_statistics_def clock_read_def)
qed

section \<open>A caster that answers\<close>

definition sock_works :: "sock_try \<Rightarrow> bool" where
  "sock_works a \<longleftrightarrow> (\<exists>s. st_socket a = Inr s) \<and>
     st_reuse a = None \<and> st_nodelay a = None \<and> st_rcvtimeo a = None \<and> st_sndtimeo a = None \<and>
     st_keepalive a = None \<and> st_nonblock a = Fcntl_ok \<and>
     (st_connect a = None \<or> (st_connect a = Some EINPROGRESS \<and> st_select a = Poll_ready \<and> st_so_error a = 0))"

lemma find_prefix: "str_find pat s = Some k \<Longrightarrow> str_find pat (s @ t) = Some k"
proof (induction s arbitrary: k)
  case Nil
  then show ?case by (cases pat; cases t) auto
next
  case (Cons c s)
  show ?case
  proof (cases "take (length pat) (c # s) = pat")
    case True
    then have "length pat \<le> length (c # s)" by (metis length_take min.cobounded1 min_def)
    then have "take (length pat) ((c # s) @ t) = pat" using True by (simp only: take_append) simp
    with True Cons.prems show ?thesis by simp
  next
    case False
    with Cons.prems obtain m where m: "str_find pat s = Some m" "k = Suc m" by auto
    then have "m + length pat \<le> length s" using str_find_Some by blast
    then have "take (length pat) (c # s @ t) = take (length pat) (c # s)" by (cases pat) auto
    with False m Cons.IH [OF m(1)] show ?thesis by simp
  qed
qed

definition headers :: "string list \<Rightarrow> string" where
  "headers ls = header_lines ls @ crlf"

definition answer :: "string list \<Rightarrow> byte list \<Rightarrow> byte list" where
  "answer ls body = bytes_of_string (headers ls) @ body"

lemma contains_prefix: "str_contains pat s \<Longrightarrow> str_contains pat (s @ t)"
  unfolding str_contains_iff by (metis append_assoc)

text \<open>The headers end where they say, and no earlier.\<close>

lemma headers_find:
  assumes "\<forall>l \<in> set ls. clean l" and "ls \<noteq> []"
  shows "str_find (crlf @ crlf) (headers ls @ r) = Some (length (headers ls) - 4)"
  using header_end [OF assms, of r] by (simp add: headers_def)

lemma headers_long: "ls \<noteq> [] \<Longrightarrow> 4 \<le> length (headers ls)"
  by (cases ls) (simp_all add: headers_def header_lines_def)

lemma headers_unfinished:
  assumes "\<forall>l \<in> set ls. clean l" and "ls \<noteq> []" and "headers ls = s @ t" and "t \<noteq> []"
  shows "\<not> str_contains (crlf @ crlf) s"
proof
  assume "str_contains (crlf @ crlf) s"
  then obtain k where k: "str_find (crlf @ crlf) s = Some k" by (auto simp: str_contains_def)
  then have "k + 4 \<le> length s" using str_find_Some [of "crlf @ crlf" s k] by simp
  moreover have "k = length (headers ls) - 4"
    using find_prefix [OF k, of t] headers_find [OF assms(1,2), of "[]"] assms(3) by simp
  moreover have "length (headers ls) = length s + length t" "0 < length t" using assms(3,4) by simp_all
  ultimately show False using headers_long [OF assms(2)] by linarith
qed

text \<open>Reading on until the end of the headers has come.\<close>

lemma response_pieces:
  assumes "\<not> ssl w" and "e_recvs w = map Received (cs @ [c]) @ rs" and "\<forall>x \<in> set (cs @ [c]). x \<noteq> [] \<and> length x \<le> 4095"
    and "0 \<notin> set (concat cs)" and "\<not> str_contains (crlf @ crlf) (s @ string_of_bytes (concat cs))"
    and "str_contains (crlf @ crlf) (s @ string_of_bytes (concat cs @ takeWhile (\<lambda>b. b \<noteq> 0) c))"
  shows "response_loop s w = (Done (Some (s @ string_of_bytes (concat cs @ takeWhile (\<lambda>b. b \<noteq> 0) c))), w\<lparr>e_recvs := rs\<rparr>)"
  using assms
proof (induction cs arbitrary: s w)
  case Nil
  have rd: "ReceiveData 4095 w = (Done (Data c), w\<lparr>e_recvs := rs\<rparr>)" using Nil.prems(1-3) by (simp add: ReceiveData_def)
  show ?case
    using Nil.prems(5,6) by (subst response_loop.simps) (simp add: rd response_loop.simps string_of_bytes_def)
next
  case (Cons d cs)
  let ?w = "w\<lparr>e_recvs := map Received (cs @ [c]) @ rs\<rparr>"
  have rd: "ReceiveData 4095 w = (Done (Data d), ?w)" using Cons.prems(1-3) by (simp add: ReceiveData_def)
  have d: "takeWhile (\<lambda>b. b \<noteq> 0) d = d" using Cons.prems(4) by (auto simp: takeWhile_eq_all_conv)
  have no: "\<not> str_contains (crlf @ crlf) s"
    using Cons.prems(5) contains_prefix [of "crlf @ crlf" s] by blast
  have "response_loop s w = response_loop (s @ string_of_bytes d) ?w"
    using no by (subst response_loop.simps) (simp add: rd d)
  also have "\<dots> = (Done (Some ((s @ string_of_bytes d) @ string_of_bytes (concat cs @ takeWhile (\<lambda>b. b \<noteq> 0) c))), ?w\<lparr>e_recvs := rs\<rparr>)"
    by (rule Cons.IH) (use Cons.prems in \<open>simp_all add: string_of_bytes_def\<close>)
  finally show ?case by (simp add: string_of_bytes_def)
qed

text \<open>
  The response is read piece by piece to the one with the end of the headers; the status decides, and what follows the
  headers in that piece is kept, up to a zero byte.
\<close>

lemma ReceiveResponse_answer:
  assumes "\<not> ssl w" and "e_selects w = Poll_ready # ss" and "e_recvs w = map Received cs @ rs"
    and "concat cs = answer ls body" and "\<forall>c \<in> set cs. c \<noteq> [] \<and> length c \<le> 4095"
    and "length (concat (butlast cs)) < length (headers ls)"
    and "ls \<noteq> []" and "\<forall>l \<in> set ls. clean l" and "\<exists>l \<in> set ls. str_contains ''200 OK'' l"
    and "0 \<notin> set (bytes_of_string (headers ls))"
  shows "\<exists>w'. ReceiveResponse w = (Done True, w') \<and>
     (let b = takeWhile (\<lambda>x. x \<noteq> 0) body in w' = w\<lparr>e_selects := ss, e_recvs := rs,
        pending_data := (if b = [] then pending_data w else b)\<rparr>)"
proof -
  let ?b = "takeWhile (\<lambda>x. x \<noteq> 0) body" and ?h = "bytes_of_string (headers ls)"
  let ?s = "headers ls @ string_of_bytes ?b"
  let ?w = "w\<lparr>e_selects := ss\<rparr>"
  have "cs \<noteq> []" using assms(4) headers_long [OF assms(7)] by (auto simp: answer_def bytes_of_string_def)
  then obtain ds d where cs: "cs = ds @ [d]" by (metis append_butlast_last_id)
  have "concat ds @ d = ?h @ body" "length (concat ds) < length ?h"
    using assms(4,6) by (simp_all add: cs answer_def bytes_of_string_def)
  then obtain t where t: "?h = concat ds @ t" "d = t @ body" "t \<noteq> []"
    by (fastforce simp: append_eq_append_conv2)
  have nz: "0 \<notin> set (concat ds)" "0 \<notin> set t" using assms(10) unfolding t(1) by auto
  have tw: "takeWhile (\<lambda>b. b \<noteq> 0) d = t @ ?b" unfolding t(2) using nz(2) by (subst takeWhile_append2) auto
  have heads: "headers ls = string_of_bytes (concat ds) @ string_of_bytes t"
    using arg_cong [OF t(1), of string_of_bytes] by simp
  have find: "str_find (crlf @ crlf) ?s = Some (length (headers ls) - 4)" by (rule headers_find [OF assms(8,7)])
  have whole: "string_of_bytes (concat ds @ takeWhile (\<lambda>b. b \<noteq> 0) d) = ?s" unfolding tw heads by (simp add: string_of_bytes_def)
  have loop: "response_loop [] ?w = (Done (Some ([] @ ?s)), ?w\<lparr>e_recvs := rs\<rparr>)"
    unfolding whole [symmetric]
    by (rule response_pieces)
      (use assms(1,3,5) nz find whole headers_unfinished [OF assms(8,7) heads] t(3) in \<open>auto simp: cs str_contains_def string_of_bytes_def\<close>)
  obtain l where "l \<in> set ls" "str_contains ''200 OK'' l" using assms(9) by blast
  then have "str_contains ''200 OK'' (headers ls)"
    by (auto simp: str_contains_iff headers_def header_lines_def dest!: split_list) (metis append.assoc)
  then have ok: "str_contains ''200 OK'' (take (length (headers ls) - 4 + 4) ?s)" using headers_long [OF assms(7)] by simp
  have "bytes_of_string (drop (length (headers ls) - 4 + 4) ?s) = ?b" using headers_long [OF assms(7)] by simp
  with find loop ok headers_long [OF assms(7)] show ?thesis
    using assms(2) by (auto simp: ReceiveResponse_def select_read_def Let_def bytes_of_string_def)
qed

definition script :: "nworld \<Rightarrow> poll_res list \<times> send_res list \<times> recv_res list \<times> bool \<times> byte list" where
  "script w = (e_selects w, e_sends w, e_recvs w, ssl w, pending_data w)"

lemma CreateSocket_works:
  assumes "sock_works a"
  shows "fst (CreateSocket X a w)" and "script (snd (CreateSocket X a w)) = script w"
  using assms by (auto simp: sock_works_def CreateSocket_def script_def os_close_def Let_def split: if_splits)

lemma ConnectSocket_works:
  assumes "e_resolve w (opt_host (config w)) (int_to_string (opt_port (config w))) = Inr (a # as)" and "sock_works a"
  shows "\<exists>w1. ConnectSocket X w = (Done True, w1) \<and> script w1 = script w"
proof -
  obtain w1 where "CreateSocket X a w = (True, w1)" "script w1 = script w"
    using CreateSocket_works [OF assms(2), of X w] by (cases "CreateSocket X a w") auto
  with assms show ?thesis by (simp add: ConnectSocket_def sock_works_def Let_def)
qed

lemma Connect_answered:
  assumes "\<not> connected w" and "\<not> ssl w" and "\<not> opt_is_ssl (config w)"
    and "e_resolve w (opt_host (config w)) (int_to_string (opt_port (config w))) = Inr (a # as)" and "sock_works a"
    and "e_sends w = Sent k # ks" and "length (request_of X w) \<le> k"
    and "e_selects w = Poll_ready # ss" and "e_recvs w = map Received cs @ rs"
    and "concat cs = answer ls body" and "\<forall>c \<in> set cs. c \<noteq> [] \<and> length c \<le> 4095"
    and "length (concat (butlast cs)) < length (headers ls)"
    and "ls \<noteq> []" and "\<forall>l \<in> set ls. clean l" and "\<exists>l \<in> set ls. str_contains ''200 OK'' l"
    and "0 \<notin> set (bytes_of_string (headers ls))"
  shows "\<exists>w'. Connect X w = (Done True, w') \<and> connected w' \<and> e_recvs w' = rs \<and>
     pending_data w' = (let b = takeWhile (\<lambda>x. x \<noteq> 0) body in if b = [] then pending_data w else b)"
proof -
  obtain w1 where 1: "ConnectSocket X w = (Done True, w1)" "script w1 = script w"
    using ConnectSocket_works [OF assms(4,5)] by blast
  have s1: "e_selects w1 = Poll_ready # ss" "e_sends w1 = Sent k # ks" "\<not> ssl w1"
      "e_recvs w1 = map Received cs @ rs" "pending_data w1 = pending_data w"
    using 1(2) assms(2,6,8,9) by (simp_all add: script_def)
  have st: "still w1 = still w" by (rule ConnectSocket_still [OF 1(1)])
  then have ssl: "\<not> opt_is_ssl (config w1)" using assms(3) by (simp add: still_def)
  have req: "request_of X w1 = request_of X w" by (rule request_of_still [OF st])
  let ?w2 = "w1\<lparr>e_sends := ks, e_sent := e_sent w1 @ request_of X w\<rparr>"
  have ne: "request_of X w \<noteq> []" by (simp add: request_of_def BuildHTTPRequest_def bytes_of_string_def Let_def)
  have 2: "SendRequest X w1 = (Done True, ?w2)"
    unfolding SendRequest_def request_of_def [symmetric] req
    using ne s1(2,3) assms(7) by (subst send_request_loop.simps) (simp add: SendData_def send_request_loop.simps)
  have "\<not> ssl ?w2" "e_selects ?w2 = Poll_ready # ss" "e_recvs ?w2 = map Received cs @ rs"
    using s1 by simp_all
  from ReceiveResponse_answer [OF this assms(10-16)] obtain w3 where 3: "ReceiveResponse ?w2 = (Done True, w3)"
      "e_recvs w3 = rs" "pending_data w3 = (let b = takeWhile (\<lambda>x. x \<noteq> 0) body in if b = [] then pending_data w else b)"
    using s1(5) by (auto simp: Let_def)
  let ?w4 = "reset_statistics (w3\<lparr>connected := True, disconnected := False\<rparr>)"
  have "Connect X w = (Done True, ?w4)"
    using assms(1) 1(1) ssl 2 3(1) by (simp add: Connect_def or_close_def)
  then show ?thesis
    using 3 by (intro exI [of _ ?w4]) (simp add: reset_statistics_def clock_read_def)
qed

text \<open>
  C32: \<open>Connect\<close> succeeds. On a client without TLS, when the first address of the caster works, the socket takes the
  request in one piece, and the response arrives in pieces of at most 4095 bytes, of which the last one has the end of
  the headers: a status line and any header lines, none of them empty and none with a carriage return or a zero byte, one
  of them with \<open>200 OK\<close>. Then \<open>Connect\<close> returns true, and the pending data are the bytes that follow the headers in that
  piece, up to the first zero byte; if there are none, the pending data from before are kept.
\<close>

theorem connect_succeeds:
  assumes "\<not> connected w" and "\<not> ssl w" and "\<not> opt_is_ssl (config w)"
    and "e_resolve w (opt_host (config w)) (int_to_string (opt_port (config w))) = Inr (a # as)" and "sock_works a"
    and "e_sends w = Sent k # ks" and "length (request_of X w) \<le> k"
    and "e_selects w = Poll_ready # ss" and "e_recvs w = map Received cs @ rs"
    and "concat cs = answer ls body" and "\<forall>c \<in> set cs. c \<noteq> [] \<and> length c \<le> 4095"
    and "length (concat (butlast cs)) < length (headers ls)"
    and "ls \<noteq> []" and "\<forall>l \<in> set ls. clean l" and "\<exists>l \<in> set ls. str_contains ''200 OK'' l"
    and "0 \<notin> set (bytes_of_string (headers ls))"
  shows "\<exists>w'. Connect X w = (Done True, w') \<and> connected w' \<and> e_recvs w' = rs \<and>
     pending_data w' = (let b = takeWhile (\<lambda>x. x \<noteq> 0) body in if b = [] then pending_data w else b)"
  using assms by (rule Connect_answered)

lemma ex_client_fields:
  "\<not> connected ex_client" "\<not> ssl ex_client" "config ex_client = ex_options" "e_resolve ex_client h p = Inr [ex_sock]"
  "e_selects ex_client = [Poll_ready]" "e_recvs ex_client = [Received (answer [''ICY 200 OK''] [0xD3, 0x01, 0x3E])]"
  "sock_works ex_sock" "pending_data ex_client = []" "e_sends ex_client = [Sent 100, Sent 1000]"
  by (simp_all add: ex_client_def ex_sock_def sock_works_def answer_def headers_def header_lines_def)

lemma ex_request_length: "length (request_of ex_lib (ex_client\<lparr>e_sends := x, e_recvs := y\<rparr>)) \<le> 1000"
  by (simp add: request_of_def BuildHTTPRequest_def bytes_of_string_def ex_options_fields ex_client_def ex_lib_def Base64Encode_def Let_def
      int_to_string_def nat_to_string.simps)

lemma ex_status:
  "length (answer [''ICY 200 OK''] b) \<le> 4095 \<longleftrightarrow> length b \<le> 4081" "answer [''ICY 200 OK''] b \<noteq> []"
  "\<forall>l \<in> set [''ICY 200 OK'']. clean l" "\<exists>l \<in> set [''ICY 200 OK'']. str_contains ''200 OK'' l"
  "0 \<notin> set (bytes_of_string (headers [''ICY 200 OK'']))" "headers [''ICY 200 OK''] \<noteq> []"
  by (auto simp: answer_def headers_def header_lines_def bytes_of_string_def clean_def str_contains_def)

definition ex_answered :: "byte list \<Rightarrow> nworld" where
  "ex_answered body = ex_client\<lparr>e_sends := [Sent 1000], e_recvs := [Received (answer [''ICY 200 OK''] body)]\<rparr>"

lemma ex_answered_fields [simp]:
  "\<not> connected (ex_answered b)" "\<not> ssl (ex_answered b)" "config (ex_answered b) = ex_options"
  "e_resolve (ex_answered b) h p = Inr [ex_sock]" "e_sends (ex_answered b) = [Sent 1000]"
  "e_selects (ex_answered b) = [Poll_ready]" "e_recvs (ex_answered b) = [Received (answer [''ICY 200 OK''] b)]"
  "pending_data (ex_answered b) = []"
  by (simp_all add: ex_answered_def ex_client_fields)

lemma ex_answered_request: "length (request_of ex_lib (ex_answered b)) \<le> 1000"
  unfolding ex_answered_def by (rule ex_request_length)

text \<open>A response with a header line, cut in the middle of the end of the headers; the first message has no zero byte.\<close>

definition ex_headers :: "string list" where
  "ex_headers = [''HTTP/1.1 200 OK'', ''Ntrip-Version: Ntrip/2.0'']"

definition ex_cut :: "byte list list" where
  "ex_cut = [take 44 (answer ex_headers [0xD3, 0x01, 0x3E]), drop 44 (answer ex_headers [0xD3, 0x01, 0x3E])]"

theorem connect_succeeds_witness:
  "\<exists>w'. Connect ex_lib (ex_client\<lparr>e_sends := [Sent 1000], e_recvs := map Received ex_cut\<rparr>) = (Done True, w') \<and>
     connected w' \<and> e_recvs w' = [] \<and> pending_data w' = [0xD3, 0x01, 0x3E]"
proof -
  let ?w = "ex_client\<lparr>e_sends := [Sent 1000], e_recvs := map Received ex_cut\<rparr>"
  have "answer ex_headers [0xD3, 0x01, 0x3E] \<noteq> []" "length (answer ex_headers [0xD3, 0x01, 0x3E]) = 48" "length (headers ex_headers) = 45" "ex_headers \<noteq> []"
    "\<forall>l \<in> set ex_headers. clean l" "\<exists>l \<in> set ex_headers. str_contains ''200 OK'' l" "0 \<notin> set (bytes_of_string (headers ex_headers))"
    by (auto simp: ex_headers_def answer_def headers_def header_lines_def bytes_of_string_def clean_def str_contains_def)
  moreover from this have "concat ex_cut = answer ex_headers [0xD3, 0x01, 0x3E]" "\<forall>c \<in> set ex_cut. c \<noteq> [] \<and> length c \<le> 4095"
    "length (concat (butlast ex_cut)) < length (headers ex_headers)"
    by (simp_all add: ex_cut_def)
  ultimately have "\<exists>w'. Connect ex_lib ?w = (Done True, w') \<and> connected w' \<and> e_recvs w' = [] \<and>
      pending_data w' = (let b = takeWhile (\<lambda>x. x \<noteq> 0) [0xD3, 0x01, 0x3E] in if b = [] then pending_data ?w else b)"
    using ex_request_length
    by (intro connect_succeeds [where a = ex_sock and k = 1000 and cs = ex_cut and ls = ex_headers])
      (simp_all add: ex_client_fields ex_options_fields)
  then show ?thesis by (simp add: Let_def)
qed

lemma ex_connects:
  assumes "length body \<le> 4081"
  shows "\<exists>w'. Connect ex_lib (ex_answered body) = (Done True, w') \<and> connected w' \<and> e_recvs w' = [] \<and>
     pending_data w' = takeWhile (\<lambda>x. x \<noteq> 0) body"
proof -
  have "\<exists>w'. Connect ex_lib (ex_answered body) = (Done True, w') \<and> connected w' \<and> e_recvs w' = [] \<and>
      pending_data w' = (let b = takeWhile (\<lambda>x. x \<noteq> 0) body in if b = [] then pending_data (ex_answered body) else b)"
    by (rule Connect_answered [where cs = "[answer [''ICY 200 OK''] body]", OF _ _ _ _ ex_client_fields(7) _ ex_answered_request
          _ _ _ _ _ _ ex_status(3-5)])
      (use assms in \<open>simp_all add: ex_options_fields ex_status\<close>)
  then show ?thesis by (auto simp: Let_def split: if_splits)
qed

theorem connect_sends_request_witness:
  "\<exists>w'. Connect ex_lib (ex_answered []) = (Done True, w') \<and>
     e_sent w' = e_sent (ex_answered []) @ request_of ex_lib (ex_answered []) \<and> 0 \<le> socket_fd w' \<and> connected w' \<and>
     \<not> disconnected w' \<and> bytes_received (stats w') = 0 \<and> messages_received (stats w') = 0 \<and>
     messages_dropped (stats w') = 0 \<and> reconnect_count (stats w') = reconnect_count (stats (ex_answered []))"
  using ex_connects [of "[]"] connect_sends_request [of ex_lib "ex_answered []"] by auto

text \<open>
  An RTCM message starts with the bytes D3 and 00. Of a message that arrives together with the response,
  one byte is kept, and the rest is gone from the stream.
\<close>

lemma pending_data_cut_at_zero:
  "\<exists>w'. Connect ex_lib (ex_answered [0xD3, 0x00, 0x13, 0x3E]) = (Done True, w') \<and> pending_data w' = [0xD3] \<and> e_recvs w' = []"
  using ex_connects [of "[0xD3, 0x00, 0x13, 0x3E]"] by auto

text \<open>
  A response without data behind its headers leaves the data of an earlier connection in place, so they are what a later
  \<open>StartReceiving\<close> processes first.
\<close>

lemma stale_pending_data:
  "\<exists>w'. Connect ex_lib ((ex_answered [])\<lparr>pending_data := [0xD3]\<rparr>) = (Done True, w') \<and> pending_data w' = [0xD3]"
proof -
  let ?w = "(ex_answered [])\<lparr>pending_data := [0xD3]\<rparr>"
  have "request_of ex_lib ?w = request_of ex_lib (ex_answered [])" by (simp add: request_of_def BuildHTTPRequest_def Let_def)
  then have "length (request_of ex_lib ?w) \<le> 1000" using ex_answered_request by simp
  then have "\<exists>w'. Connect ex_lib ?w = (Done True, w') \<and> connected w' \<and> e_recvs w' = [] \<and>
      pending_data w' = (let b = takeWhile (\<lambda>x. x \<noteq> 0) [] in if b = [] then pending_data ?w else b)"
    by (intro Connect_answered [where cs = "[answer [''ICY 200 OK''] []]", OF _ _ _ _ ex_client_fields(7) _ _ _ _ _ _ _ _ ex_status(3-5)])
      (simp_all add: ex_options_fields ex_status)
  then show ?thesis by auto
qed

end
