(* ===== verification/NtripDescriptors.thy ===== *)
theory NtripDescriptors
  imports NtripClientProps
begin

text \<open>
  The sockets of the NTRIP client: the well-formedness invariant between the member \<open>socket_fd_\<close> and the
  descriptors the process holds, kept by every operation as long as \<open>setsockopt\<close> and \<open>fcntl\<close> work, and the
  double close that happens when they do not.
\<close>

section \<open>The invariant\<close>

text \<open>The client holds the descriptor it knows, and no other; it never closes one that is not open.\<close>

definition fd_wf :: "nworld \<Rightarrow> bool" where
  "fd_wf w \<longleftrightarrow> e_open w = (if socket_fd w < 0 then [] else [socket_fd w]) \<and> e_bad_closes w = 0"

definition options_work :: "nworld \<Rightarrow> bool" where
  "options_work w \<longleftrightarrow> (\<forall>h p as. e_resolve w h p = Inr as \<longrightarrow> (\<forall>a \<in> set as.
     st_reuse a = None \<and> st_nodelay a = None \<and> st_rcvtimeo a = None \<and> st_sndtimeo a = None \<and>
     st_keepalive a = None \<and> st_nonblock a = Fcntl_ok))"

lemma fd_wf_held: "held w' = held w \<Longrightarrow> fd_wf w' \<longleftrightarrow> fd_wf w"
  by (simp add: held_def fd_wf_def)

lemma options_work_still: "still w' = still w \<Longrightarrow> options_work w' \<longleftrightarrow> options_work w"
  by (simp add: still_def options_work_def)

lemma CloseConnection_fd_wf: "fd_wf w \<Longrightarrow> fd_wf (CloseConnection w) \<and> e_open (CloseConnection w) = []"
  by (simp add: fd_wf_def CloseConnection_def os_close_def Let_def split: if_splits)

lemma CreateSocket_fd_wf:
  assumes "fd_wf w" and "st_reuse a = None \<and> st_nodelay a = None \<and> st_rcvtimeo a = None \<and> st_sndtimeo a = None \<and>
     st_keepalive a = None \<and> st_nonblock a = Fcntl_ok"
  shows "fd_wf (snd (CreateSocket X a w))"
  using assms by (auto simp: fd_wf_def CreateSocket_def os_close_def Let_def split: sum.splits if_splits)

lemma connect_addrs_fd_wf:
  assumes "fd_wf w" and "\<forall>a \<in> set as. st_reuse a = None \<and> st_nodelay a = None \<and> st_rcvtimeo a = None \<and>
     st_sndtimeo a = None \<and> st_keepalive a = None \<and> st_nonblock a = Fcntl_ok"
  shows "fd_wf (snd (connect_addrs X as w))"
  using assms
proof (induction as arbitrary: w)
  case (Cons a as)
  obtain ok w1 where c: "CreateSocket X a w = (ok, w1)" by fastforce
  have w1: "fd_wf w1" using CreateSocket_fd_wf [of w a X] Cons.prems c by simp
  then have "fd_wf ((os_close (socket_fd w1) w1)\<lparr>socket_fd := -1\<rparr>)" if "ok"
    using CreateSocket_open [of X a w w1] c that by (simp add: fd_wf_def os_close_def)
  with Cons w1 c show ?case by (cases ok) auto
qed simp

lemma ConnectSocket_fd_wf:
  assumes "fd_wf w" and "options_work w"
  shows "fd_wf (snd (ConnectSocket X w))"
proof (cases "e_resolve w (opt_host (config w)) (int_to_string (opt_port (config w)))")
  case (Inr as)
  then have "fd_wf (snd (connect_addrs X as w))" using assms connect_addrs_fd_wf by (auto simp: options_work_def)
  with Inr show ?thesis by (auto simp: ConnectSocket_def Let_def split: prod.splits bool.splits)
qed (use assms in \<open>simp add: ConnectSocket_def Let_def\<close>)

lemma or_close_fd_wf:
  assumes "fd_wf (snd x)" and "\<And>w. fd_wf w \<Longrightarrow> fd_wf (snd (k w))"
  shows "fd_wf (snd (or_close x k))"
  using assms CloseConnection_fd_wf
  by (cases x) (auto simp: or_close_def bind_io_def split: io.splits)

lemma ssl_fd_wf: "fd_wf w \<Longrightarrow> fd_wf (snd (if b then InitSSL X w else (Done True, w)))"
  using fd_wf_held [OF InitSSL_keeps(1)] by simp

lemma InitSSL_fd_wf: "fd_wf w \<Longrightarrow> fd_wf (snd (InitSSL X w))"
  using fd_wf_held [OF InitSSL_keeps(1)] by simp

lemma SendRequest_fd_wf: "fd_wf w \<Longrightarrow> fd_wf (snd (SendRequest X w))"
proof -
  assume w: "fd_wf w"
  obtain q u where u: "SendRequest X w = (q, u)" by fastforce
  then have "held u = held w" unfolding SendRequest_def by (rule send_request_loop_held)
  with fd_wf_held [of u w] w u show ?thesis by simp
qed

lemma ReceiveResponse_fd_wf: "fd_wf w \<Longrightarrow> fd_wf (snd (ReceiveResponse w))"
proof -
  assume w: "fd_wf w"
  obtain q u where u: "ReceiveResponse w = (q, u)" by fastforce
  from ReceiveResponse_keeps(2) [OF u] consider "held u = held w" | v where "held v = held w" "u = CloseConnection v"
    by blast
  then have "fd_wf u"
  proof cases
    case 1
    then show ?thesis using w fd_wf_held [of u w] by simp
  next
    case 2
    then show ?thesis using w fd_wf_held [of v w] CloseConnection_fd_wf by simp
  qed
  with u show ?thesis by simp
qed

lemma Connect_fd_wf:
  assumes "fd_wf w" and "options_work w"
  shows "fd_wf (snd (Connect X w))"
proof -
  have last: "fd_wf v \<Longrightarrow> fd_wf (snd (Done True, reset_statistics (v\<lparr>connected := True, disconnected := False\<rparr>)))" for v
    using fd_wf_held [of "reset_statistics (v\<lparr>connected := True, disconnected := False\<rparr>)" v] by simp
  have "fd_wf (snd (or_close (ConnectSocket X w) (\<lambda>w.
      or_close (if opt_is_ssl (config w) then InitSSL X w else (Done True, w)) (\<lambda>w.
      or_close (SendRequest X w) (\<lambda>w.
      or_close (ReceiveResponse w) (\<lambda>w.
        (Done True, reset_statistics (w\<lparr>connected := True, disconnected := False\<rparr>))))))))"
    by (intro or_close_fd_wf ConnectSocket_fd_wf [OF assms] ssl_fd_wf SendRequest_fd_wf ReceiveResponse_fd_wf last)
  then show ?thesis using assms(1) by (simp add: Connect_def)
qed

lemma Connect_false_closed:
  assumes "fd_wf w" and "options_work w" and "Connect X w = (Done False, w')"
  shows "e_open w' = []"
proof -
  have "\<exists>v. w' = CloseConnection v"
    using assms(3) unfolding Connect_def or_close_def
    by (auto simp: bind_io_eq_Done split: if_splits)
  then obtain v where v: "w' = CloseConnection v" by blast
  have "socket_fd (CloseConnection v) < 0" by (simp add: CloseConnection_def Let_def)
  with Connect_fd_wf [OF assms(1,2), of X] assms(3) v show ?thesis by (simp add: fd_wf_def)
qed

lemma reconnect_loop_fd_wf:
  assumes "fd_wf w" and "options_work w"
  shows "fd_wf (snd (reconnect_loop X obs i a cur w))"
  using assms
proof (induction X obs i a cur w rule: reconnect_loop.induct)
  case (1 X obs i a cur w)
  let ?w1 = "sleep_seconds cur (count_reconnect w)"
  have w1: "fd_wf ?w1" "options_work ?w1"
    using 1(2,3) by (simp_all add: fd_wf_def options_work_def sleep_seconds_def count_reconnect_def)
  have c: "fd_wf (CloseConnection ?w1)" "options_work (CloseConnection ?w1)"
    using w1 CloseConnection_fd_wf options_work_still [OF CloseConnection_still] by blast+
  obtain q w2 where w2: "Connect X (CloseConnection ?w1) = (q, w2)" by fastforce
  have ok: "fd_wf w2" "options_work w2"
    using Connect_fd_wf [OF c, of X] options_work_still [OF Connect_still [OF w2]] c w2 by auto
  show ?case
    unfolding reconnect_loop.simps [of X obs i a cur w] Let_def
    using 1 w1 ok w2 by (auto split: io.splits bool.splits)
qed

lemma table_loop_held: "table_loop s w = (r, w') \<Longrightarrow> held w' = held w"
proof (induction s w rule: table_loop.induct)
  case (1 s w)
  obtain q w1 where sel: "select_read w = (q, w1)" by fastforce
  have h1: "held w1 = held w" using sel by (auto simp: select_read_def split: list.splits)
  obtain q2 w2 where rd: "ReceiveData 65535 w1 = (q2, w2)" by fastforce
  have "held w2 = held w1" using ReceiveData_keeps(1) [of 65535 w1] rd by simp
  with 1 sel rd h1 show ?case
    by (auto simp: table_loop.simps [of s w] split: io.splits poll_res.splits received.splits)
qed

lemma bind_fd_wf:
  assumes "fd_wf (snd x)" and "\<And>a w. fd_wf w \<Longrightarrow> fd_wf (snd (k a w))"
  shows "fd_wf (snd (bind_io x k))"
  using assms by (cases x) (auto simp: bind_io_def split: io.splits)

lemma SendData_fd_wf: "fd_wf w \<Longrightarrow> fd_wf (snd (SendData p w))"
  using fd_wf_held [OF SendData_held] by simp

lemma table_loop_fd_wf: "fd_wf w \<Longrightarrow> fd_wf (snd (table_loop s w))"
  using fd_wf_held [OF table_loop_held [of s w "fst (table_loop s w)" "snd (table_loop s w)"]] by simp

lemma GetSourceTable_fd_wf:
  assumes "fd_wf w" and "options_work w"
  shows "fd_wf (snd (GetSourceTable X w))"
proof -
  have close: "fd_wf v \<Longrightarrow> fd_wf (snd (Done r, CloseConnection v))" for v r using CloseConnection_fd_wf by simp
  have parse: "fd_wf v \<Longrightarrow> fd_wf (snd (case t of Inl e \<Rightarrow> (Throw e, v) | Inr r \<Rightarrow> (Done r, CloseConnection v)))" for v t
    using close by (cases t) simp_all
  have whether: "fd_wf (snd a) \<Longrightarrow> fd_wf (snd b) \<Longrightarrow> fd_wf (snd (if c then a else b))" for a b c by simp
  have plain: "fd_wf v \<Longrightarrow> fd_wf (snd (Done r, v))" for v r by simp
  show ?thesis
    unfolding GetSourceTable_def
    by (intro bind_fd_wf ConnectSocket_fd_wf [OF assms] whether close plain InitSSL_fd_wf SendData_fd_wf table_loop_fd_wf parse)
qed

lemma SendGGA_fd_wf: "fd_wf w \<Longrightarrow> fd_wf (snd (SendGGA w))"
proof -
  assume w: "fd_wf w"
  have upd: "fd_wf (v\<lparr>last_gga_sent := t\<rparr>) = fd_wf v" "fd_wf (v\<lparr>e_clock_reads := n\<rparr>) = fd_wf v" for v t n
    by (simp_all add: fd_wf_def)
  let ?w1 = "snd (clock_read w)"
  have w1: "fd_wf ?w1" using w upd by (simp add: clock_read_def)
  have "fd_wf (snd (bind_io (SendData p ?w1) (\<lambda>k w2. (Done (), if 0 < k then w2\<lparr>last_gga_sent := t\<rparr> else w2))))" for p t
    by (intro bind_fd_wf SendData_fd_wf w1) (simp add: upd)
  then show ?thesis using w1 upd by (simp add: SendGGA_def case_prod_beta Let_def)
qed

text \<open>
  C33: the client's descriptors are well-formed. As long as \<open>setsockopt\<close> and \<open>fcntl\<close> do not fail, from a
  state in which the process holds exactly the descriptor in \<open>socket_fd_\<close>, every operation leads to such a
  state, on every path and after every exception, without ever closing a descriptor twice; a \<open>Connect\<close>
  that returns false and a \<open>CloseConnection\<close> leave nothing open.
\<close>

theorem client_descriptors:
  assumes "fd_wf w" and "options_work w"
  shows "fd_wf (snd (Connect X w)) \<and> fd_wf (snd (HandleReconnect X obs w)) \<and> fd_wf (snd (GetSourceTable X w)) \<and>
     fd_wf (snd (SendGGA w)) \<and> e_open (CloseConnection w) = [] \<and>
     (fst (Connect X w) = Done False \<longrightarrow> e_open (snd (Connect X w)) = [])"
  using Connect_fd_wf [OF assms] reconnect_loop_fd_wf [OF assms] GetSourceTable_fd_wf [OF assms]
    SendGGA_fd_wf [OF assms(1)] CloseConnection_fd_wf [OF assms(1)]
    Connect_false_closed [OF assms, of X "snd (Connect X w)"]
  by (simp add: HandleReconnect_def prod_eq_iff)

theorem client_descriptors_witness:
  "fd_wf (snd (GetSourceTable ex_lib ex_client)) \<and> fd_wf (snd (Connect ex_lib ex_client))"
proof -
  have "fd_wf ex_client" "options_work ex_client"
    by (simp_all add: fd_wf_def options_work_def ex_client_def ex_sock_def)
  then show ?thesis using client_descriptors by blast
qed

text \<open>
  When a \<open>setsockopt\<close> fails, the guard closes the descriptor, but \<open>socket_fd_\<close> keeps it, and the
  next address, or \<open>CloseConnection\<close>, closes it a second time. Here the descriptor of the guard is
  closed by its destructor, as its comment says.
\<close>

lemma create_socket_double_close:
  assumes "x_guard_dtor X = remove1" and "fd_wf w" and "st_socket a = Inr s" and "st_nodelay a \<noteq> None"
  shows "fst (CreateSocket X a w) = False \<and> e_bad_closes (CloseConnection (snd (CreateSocket X a w))) = 1"
proof -
  have "int s \<notin> set (remove1 (int s) (int s # e_open w'))" if "e_open w' = []" for w' :: nworld using that by simp
  with assms show ?thesis
    by (auto simp: CreateSocket_def CloseConnection_def os_close_def fd_wf_def Let_def split: if_splits)
qed

end
