(* ===== verification/NtripTable.thy ===== *)
theory NtripTable
  imports NtripClientProps ReceiverConfigProps
begin

text \<open>
  What the NTRIP client makes of a source table, and how often it reports a position. A table is printed the way
  casters print it, one line of fields separated by semicolons per stream, and read back through \<open>GetSourceTable\<close>.
\<close>

section \<open>Reading the table\<close>

lemma table_loop_reads:
  assumes "\<not> ssl w" and "e_selects w = replicate (length cs) Poll_ready @ Poll_timeout # ss"
    and "e_recvs w = map Received cs @ rs" and "\<forall>c \<in> set cs. c \<noteq> [] \<and> length c \<le> 65535"
  shows "table_loop response w = (Done (response @ string_of_bytes (concat cs)), w\<lparr>e_selects := ss, e_recvs := rs\<rparr>)"
  using assms
proof (induction cs arbitrary: response w)
  case Nil
  then show ?case
    by (subst table_loop.simps) (simp add: select_read_def string_of_bytes_def)
next
  case (Cons c cs)
  let ?w = "w\<lparr>e_selects := replicate (length cs) Poll_ready @ Poll_timeout # ss, e_recvs := map Received cs @ rs\<rparr>"
  have "table_loop response w = table_loop (response @ string_of_bytes c) ?w"
    using Cons.prems by (subst table_loop.simps) (simp add: select_read_def ReceiveData_def)
  also have "\<dots> = (Done ((response @ string_of_bytes c) @ string_of_bytes (concat cs)), ?w\<lparr>e_selects := ss, e_recvs := rs\<rparr>)"
    by (rule Cons.IH) (use Cons.prems in auto)
  finally show ?case by (simp add: string_of_bytes_def)
qed

section \<open>Numbers\<close>

text \<open>A decimal number, as the number of decimals and the digits as a whole number; without decimals it has no point.\<close>

definition digits_of :: "nat \<Rightarrow> nat \<Rightarrow> string" where
  "digits_of k n = (if k = 0 then nat_to_string n else fixed_decimal k n)"

fun coordinate :: "nat \<times> int \<Rightarrow> string" where
  "coordinate (k, z) = (if z < 0 then ''-'' else []) @ digits_of k (nat \<bar>z\<bar>)"

fun coordinate_value :: "nat \<times> int \<Rightarrow> rat" where
  "coordinate_value (k, z) = of_int z / 10 ^ k"

fun coordinate_ok :: "nat \<times> int \<Rightarrow> bool" where
  "coordinate_ok (k, z) \<longleftrightarrow> k \<le> 300 \<and> \<bar>z\<bar> \<le> 360 * 10 ^ k"

lemma starts_with_ci_digit: "is_digit_char d \<Longrightarrow> \<not> starts_with_ci (d # s) ''inf'' \<and> \<not> starts_with_ci (d # s) ''nan''"
  by (auto simp: starts_with_ci_def to_lower_def lower_copy_def equals_ci_def is_digit_char_def Let_def split: if_splits)

lemma stod_fixed:
  assumes "0 < k"
  shows "stod ((if neg then ''-'' else []) @ fixed_decimal k n) = in_range (if neg then - (of_nat n / 10 ^ k) else of_nat n / 10 ^ k)"
proof -
  define ip where "ip = nat_to_string (n div 10 ^ k)"
  define fp where "fp = pad_left k (nat_to_string (n mod 10 ^ k))"
  have ip: "\<forall>c \<in> set ip. is_digit_char c" "ip \<noteq> []" "nat_of_digits ip = n div 10 ^ k"
    using nat_to_string_digits by (auto simp: ip_def)
  have fp: "length fp = k" "nat_of_digits fp = n mod 10 ^ k" "\<forall>c \<in> set fp. is_digit_char c"
    using pad_left_digits [of "n mod 10 ^ k" k] assms by (auto simp: fp_def)
  have val: "foldl (\<lambda>n c. 10 * n + digit_val c) 0 (ip @ fp) = n"
    using ip fp unfolding nat_of_digits_def [symmetric] by (simp add: nat_of_digits_append div_mult_mod_eq del: mult.commute)
  obtain d ds where ip_cons: "ip = d # ds" "is_digit_char d" using ip by (cases ip) auto
  have sign: "take_sign (dropWhile is_space ((if neg then ''-'' else []) @ ip @ ''.'' @ fp)) = (neg, ip @ ''.'' @ fp)"
    using ip_cons digit_not digit_not_space by (auto simp: take_sign_def is_space_def)
  have ci: "\<not> starts_with_ci (ip @ ''.'' @ fp) ''0x''" "\<not> starts_with_ci (ip @ ''.'' @ fp) ''inf''" "\<not> starts_with_ci (ip @ ''.'' @ fp) ''nan''"
    using ip_cons ip(1) starts_with_ci_digit [OF ip_cons(2), of "ds @ ''.'' @ fp"]
    by (cases ds; auto simp: starts_with_ci_def to_lower_def lower_copy_def equals_ci_def is_digit_char_def Let_def split: if_splits)+
  have ips: "takeWhile is_digit_char (ip @ CHR ''.'' # fp) = ip" "dropWhile is_digit_char (ip @ CHR ''.'' # fp) = CHR ''.'' # fp"
    using takeWhile_digits [OF ip(1), of "''.'' @ fp"] digit_not by simp_all
  have fps: "takeWhile is_digit_char fp = fp" "dropWhile is_digit_char fp = []"
    using takeWhile_digits [OF fp(3), of "[]"] by simp_all
  have "scaled_prefix is_digit_char digit_val 10 (CHR ''e'') 10 (ip @ ''.'' @ fp) = Some (of_nat n / 10 ^ k)"
    using ip(2) val by (simp add: scaled_prefix_def Let_def ips fps fp(1))
  then show ?thesis
    unfolding stod_def fixed_decimal_def Let_def ip_def [symmetric] fp_def [symmetric] sign by (simp add: ci [simplified])
qed

lemma stod_whole:
  "stod ((if neg then ''-'' else []) @ nat_to_string n) = in_range (if neg then - of_nat n else of_nat n)"
proof -
  define ip where "ip = nat_to_string n"
  have ip: "\<forall>c \<in> set ip. is_digit_char c" "ip \<noteq> []" "nat_of_digits ip = n"
    using nat_to_string_digits by (auto simp: ip_def)
  obtain d ds where ip_cons: "ip = d # ds" "is_digit_char d" using ip by (cases ip) auto
  have sign: "take_sign (dropWhile is_space ((if neg then ''-'' else []) @ ip)) = (neg, ip)"
    using ip_cons digit_not digit_not_space by (auto simp: take_sign_def is_space_def)
  have ci: "\<not> starts_with_ci ip ''0x''" "\<not> starts_with_ci ip ''inf''" "\<not> starts_with_ci ip ''nan''"
    using ip_cons ip(1) starts_with_ci_digit [OF ip_cons(2), of ds]
    by (cases ds; auto simp: starts_with_ci_def to_lower_def lower_copy_def equals_ci_def is_digit_char_def Let_def split: if_splits)+
  have ips: "takeWhile is_digit_char ip = ip" "dropWhile is_digit_char ip = []"
    using takeWhile_digits [OF ip(1), of "[]"] by simp_all
  have "scaled_prefix is_digit_char digit_val 10 (CHR ''e'') 10 ip = Some (of_nat n)"
    using ip(2,3) by (simp add: scaled_prefix_def Let_def ips nat_of_digits_def)
  then show ?thesis unfolding stod_def Let_def ip_def [symmetric] sign by (simp add: ci)
qed

lemma in_range_decimal:
  assumes "coordinate_ok (k, z)"
  shows "in_range (of_int z / 10 ^ k) = Some (round_double (of_int z / 10 ^ k))"
proof -
  let ?x = "of_int z / 10 ^ k :: rat"
  have "(of_int \<bar>z\<bar> :: rat) \<le> of_int (360 * 10 ^ k)" using assms by (simp only: of_int_le_iff coordinate_ok.simps)
  then have "\<bar>?x\<bar> \<le> 360" by (simp add: divide_le_eq)
  then have "\<bar>?x\<bar> \<le> 10 ^ 7" by simp
  then obtain v where v: "round_double ?x = Fin v" using round_double_near by blast
  have "v = ?x" if small: "\<bar>?x\<bar> < 1 / 2 ^ 1022"
  proof -
    have "(10 :: rat) ^ k \<le> 10 ^ 300" using assms by (intro power_increasing) simp_all
    also have "\<dots> \<le> 2 ^ 1022" by simp
    finally have "(1 :: rat) / 2 ^ 1022 \<le> 1 / 10 ^ k" by (intro divide_left_mono) simp_all
    with small have "\<bar>?x\<bar> < 1 / 10 ^ k" by (rule less_le_trans)
    then have "\<bar>of_int z :: rat\<bar> < 1" by (simp add: divide_less_cancel)
    then have "z = 0" by (simp flip: of_int_abs)
    then show ?thesis using v by (simp add: round_double_def round_rat_def Let_def)
  qed
  then have "\<not> (?x \<noteq> v \<and> \<bar>?x\<bar> < 1 / 2 ^ 1022)" by blast
  then show ?thesis unfolding in_range_def v double.case by (rule if_not_P)
qed

lemma stod_coordinate:
  assumes "coordinate_ok c"
  shows "stod (coordinate c) = Some (round_double (coordinate_value c))"
proof -
  obtain k z where c: "c = (k, z)" by fastforce
  have "(if z < 0 then - (of_nat (nat \<bar>z\<bar>) / 10 ^ k) else of_nat (nat \<bar>z\<bar>) / 10 ^ k :: rat) = of_int z / 10 ^ k" by simp
  with stod_fixed [of k "z < 0" "nat \<bar>z\<bar>"] stod_whole [of "z < 0" "nat \<bar>z\<bar>"] in_range_decimal [of k z] assms
  show ?thesis unfolding c by (cases "k = 0") (simp_all add: digits_of_def)
qed

lemma parse_int32_print:
  assumes "- (2 ^ 31) \<le> i" and "i < 2 ^ 31"
  shows "parse_int32 (int_to_string i) = Some i"
proof -
  have 1: "takeWhile is_digit_char (nat_to_string n) = nat_to_string n" for n
    using nat_to_string_digits by (simp add: takeWhile_eq_all_conv)
  have 2: "take_sign (dropWhile is_space (nat_to_string n)) = (False, nat_to_string n)" for n
    using nat_to_string_digits [of _ n] digit_not digit_not_space by (cases "nat_to_string n") (auto simp: take_sign_def)
  have 3: "take_sign (dropWhile is_space (CHR ''-'' # nat_to_string n)) = (True, nat_to_string n)" for n
    by (simp add: take_sign_def is_space_def)
  show ?thesis
    using assms by (simp only: parse_int32_def int_to_string_def 1 2 3 Let_def split: if_splits) (simp add: 1, arith)
qed

section \<open>The table as a caster prints it\<close>

text \<open>
  A stream: eight fields of text and numbers, the position, and further fields. Of these, the line has the first
  \<open>en_shown\<close>, counting the word \<open>STR\<close>.
\<close>

record stream_entry =
  en_name :: string
  en_city :: string
  en_format :: string
  en_details :: string
  en_carrier :: int
  en_nav :: string
  en_network :: string
  en_country :: string
  en_lat :: "nat \<times> int"
  en_lon :: "nat \<times> int"
  en_more :: "string list"
  en_shown :: nat

definition all_fields :: "stream_entry \<Rightarrow> string list" where
  "all_fields e =
     [''STR'', en_name e, en_city e, en_format e, en_details e, int_to_string (en_carrier e), en_nav e, en_network e,
      en_country e, coordinate (en_lat e), coordinate (en_lon e)] @ en_more e"

definition entry_fields :: "stream_entry \<Rightarrow> string list" where
  "entry_fields e = take (en_shown e) (all_fields e)"

text \<open>What is to be read: the fields that are there, and otherwise the default of the struct.\<close>

definition mount_of :: "stream_entry \<Rightarrow> MountPoint" where
  "mount_of e =
     (let n = en_shown e; shown_text = (\<lambda>i s. if i < n then s else []); shown = (\<lambda>i v. if i < n then v else Fin 0) in
      MountPoint_default\<lparr>mp_mount_point := shown_text 1 (en_name e), mp_city := shown_text 2 (en_city e),
        mp_data_format := shown_text 3 (en_format e), mp_format_details := shown_text 4 (en_details e),
        mp_carrier := (if 5 < n then en_carrier e else 0), mp_nav_system := shown_text 6 (en_nav e),
        mp_network := shown_text 7 (en_network e), mp_country := shown_text 8 (en_country e),
        mp_latitude := shown 9 (round_double (coordinate_value (en_lat e))),
        mp_longitude := shown 10 (round_double (coordinate_value (en_lon e)))\<rparr>)"

definition entry_ok :: "stream_entry \<Rightarrow> bool" where
  "entry_ok e \<longleftrightarrow> list_all (\<lambda>f. CHR 0x0A \<notin> set f)
       ([en_name e, en_city e, en_format e, en_details e, en_nav e, en_network e, en_country e] @ en_more e) \<and>
     - (2 ^ 31) \<le> en_carrier e \<and> en_carrier e < 2 ^ 31 \<and> coordinate_ok (en_lat e) \<and> coordinate_ok (en_lon e) \<and>
     2 \<le> en_shown e"

text \<open>Lines of a table: those of streams, and others, such as headers, casters and networks.\<close>

fun table_line :: "string + stream_entry \<Rightarrow> string" where
  "table_line (Inl l) = l"
| "table_line (Inr e) = join (entry_fields e) (CHR '';'')"

fun line_ok :: "string + stream_entry \<Rightarrow> bool" where
  "line_ok (Inl l) = (CHR 0x0A \<notin> set l \<and> \<not> starts_with ''STR;'' l)"
| "line_ok (Inr e) = entry_ok e"

definition table_text :: "(string + stream_entry) list \<Rightarrow> string" where
  "table_text ls = concat (map (\<lambda>l. table_line l @ [CHR 0x0A]) ls)"

definition entries_of :: "(string + stream_entry) list \<Rightarrow> stream_entry list" where
  "entries_of ls = concat (map (case_sum (\<lambda>_. []) (\<lambda>e. [e])) ls)"

text \<open>
  What is expected of \<open>SplitString\<close>, which is not in the repository: it splits the lines of the streams into their
  fields. Whether it keeps empty fields decides whether this can hold for a table that has them.
\<close>

definition splits_lines :: "(string \<Rightarrow> char \<Rightarrow> string list) \<Rightarrow> (string + stream_entry) list \<Rightarrow> bool" where
  "splits_lines splt ls \<longleftrightarrow> (\<forall>e \<in> set (entries_of ls). splt (join (entry_fields e) (CHR '';'')) (CHR '';'') = entry_fields e)"

section \<open>Reading it back\<close>

lemma number_text:
  "CHR 0x0A \<notin> set (int_to_string i)" "CHR 0x0A \<notin> set (coordinate c)"
proof -
  have d: "CHR 0x0A \<notin> set (nat_to_string n)" for n
    using nat_to_string_digits [of "CHR 0x0A" n] by (auto simp: is_digit_char_def)
  show "CHR 0x0A \<notin> set (int_to_string i)" using d by (simp add: int_to_string_def)
  show "CHR 0x0A \<notin> set (coordinate c)"
    using d by (cases c) (simp add: digits_of_def fixed_decimal_def pad_left_def)
qed

lemma join_set: "set (join fs c) \<subseteq> insert c (\<Union> (set ` set fs))"
  by (induction fs c rule: join.induct) auto

lemma entry_line:
  assumes "entry_ok e"
  shows "CHR 0x0A \<notin> set (join (entry_fields e) (CHR '';''))" and "starts_with ''STR;'' (join (entry_fields e) (CHR '';''))"
proof -
  have "\<forall>f \<in> set (all_fields e). CHR 0x0A \<notin> set f"
    using assms number_text by (simp add: entry_ok_def all_fields_def list_all_iff)
  then have "\<forall>f \<in> set (entry_fields e). CHR 0x0A \<notin> set f" unfolding entry_fields_def by (meson in_set_takeD)
  then show "CHR 0x0A \<notin> set (join (entry_fields e) (CHR '';''))" using join_set [of "entry_fields e" "CHR '';''"] by auto
  obtain n where "en_shown e = Suc (Suc n)" using assms by (auto simp: entry_ok_def dest: le_Suc_ex)
  then have "entry_fields e = ''STR'' # en_name e # take n (drop 2 (all_fields e))"
    by (simp add: entry_fields_def all_fields_def)
  then show "starts_with ''STR;'' (join (entry_fields e) (CHR '';''))"
    by (cases "take n (drop 2 (all_fields e))") (simp_all add: starts_with_def)
qed

text \<open>A field is there when it is among those shown.\<close>

lemma field_shown:
  "i < 11 \<Longrightarrow> (i < length (entry_fields e) \<longleftrightarrow> i < en_shown e) \<and> (i < en_shown e \<longrightarrow> entry_fields e ! i = all_fields e ! i)"
  by (simp add: entry_fields_def all_fields_def)

lemma text_shown: "i < 11 \<Longrightarrow> text_field (entry_fields e) i g m = (if i < en_shown e then g (all_fields e ! i) m else m)"
  using field_shown by (simp add: text_field_def)

lemma number_shown:
  "i < 11 \<Longrightarrow> conv (all_fields e ! i) = Some v \<Longrightarrow>
     number_field conv (entry_fields e) i g m = Inr (if i < en_shown e then g v m else m)"
  using field_shown by (simp add: number_field_def number_def bind_res_def)

lemma parse_entry:
  assumes "entry_ok e"
  shows "parse_mount_point (entry_fields e) = Inr (mount_of e)"
proof -
  have c: "parse_int32 (all_fields e ! 5) = Some (en_carrier e)"
    "stod (all_fields e ! 9) = Some (round_double (coordinate_value (en_lat e)))"
    "stod (all_fields e ! 10) = Some (round_double (coordinate_value (en_lon e)))"
    using assms parse_int32_print stod_coordinate by (simp_all add: all_fields_def entry_ok_def)
  have t: "all_fields e ! 1 = en_name e" "all_fields e ! 2 = en_city e" "all_fields e ! 3 = en_format e"
    "all_fields e ! 4 = en_details e" "all_fields e ! 6 = en_nav e" "all_fields e ! 7 = en_network e" "all_fields e ! 8 = en_country e"
    by (simp_all add: all_fields_def)
  show ?thesis
    unfolding parse_mount_point_def Let_def
    by (simp add: text_shown number_shown [where i = 5 and conv = parse_int32, OF _ c(1)]
        number_shown [where i = 9 and conv = stod, OF _ c(2)] number_shown [where i = 10 and conv = stod, OF _ c(3)] t
        del: One_nat_def) (simp add: mount_of_def MountPoint_default_def)
qed

lemma table_lines: "list_all line_ok ls \<Longrightarrow> getlines (CHR 0x0A) (table_text ls) = map table_line ls"
proof (induction ls)
  case (Cons l ls)
  have "CHR 0x0A \<notin> set (table_line l)" using Cons.prems entry_line(1) by (cases l) auto
  with Cons show ?case by (simp add: table_text_def getlines_sep)
qed (simp add: table_text_def)

lemma parse_table_text:
  "splits_lines splt ls \<Longrightarrow> list_all line_ok ls \<Longrightarrow> parse_table splt (map table_line ls) = Inr (map mount_of (entries_of ls))"
proof (induction ls)
  case (Cons l ls)
  then show ?case
    using entry_line(2) parse_entry by (cases l) (simp_all add: splits_lines_def entries_of_def bind_res_def)
qed (simp add: entries_of_def)

text \<open>A line whose carrier is not a number, or is empty, is not passed over: the exception of \<open>std::stoi\<close> ends the call.\<close>

lemma bad_carrier_thrown:
  assumes "splits_lines splt ls" and "list_all line_ok ls" and "starts_with ''STR;'' l" and "5 < length (splt l (CHR '';''))"
    and "parse_int32 (splt l (CHR '';'') ! 5) = None"
  shows "parse_table splt (map table_line ls @ l # rest) = Inl (Bad_number (splt l (CHR '';'') ! 5))"
  using assms(1,2)
proof (induction ls)
  case Nil
  then show ?case using assms(3-5) by (simp add: parse_mount_point_def number_field_def number_def bind_res_def Let_def)
next
  case (Cons k ls)
  then show ?case
    using entry_line(2) parse_entry by (cases k) (simp_all add: splits_lines_def entries_of_def bind_res_def)
qed

text \<open>
  C35: the source table round trip. A table is lines of streams and other lines. A stream has a name and then any number of
  the further fields, up to all of them and beyond: text without line breaks, a carrier that is an \<open>int\<close> in decimal, and
  coordinates of at most 360 degrees with any number of decimals up to 300; \<open>SplitString\<close>, which is not in the
  repository, splits these lines into their fields (with empty text fields, that is a condition on it). Without TLS, when
  the caster's first address works and a byte of the request is taken, the table arrives in any pieces of at most 65535
  bytes and then the connection falls silent: \<open>GetSourceTable\<close> returns exactly the streams of the table, in its order,
  with the text fields as printed, the carrier as printed, the coordinates as the doubles nearest to the decimals printed,
  and the default for every field that is missing; other lines are passed over. The connection is closed afterwards.
\<close>

theorem source_table_roundtrip:
  assumes "\<not> ssl w" and "\<not> opt_is_ssl (config w)" and "splits_lines (x_split X) ls"
    and "e_resolve w (opt_host (config w)) (int_to_string (opt_port (config w))) = Inr (a # as)" and "sock_works a"
    and "e_sends w = Sent (Suc k) # ks" and "e_selects w = replicate (length cs) Poll_ready @ Poll_timeout # ss"
    and "e_recvs w = map Received cs @ rs" and "\<forall>c \<in> set cs. c \<noteq> [] \<and> length c \<le> 65535"
    and "concat cs = bytes_of_string (table_text ls)" and "list_all line_ok ls"
  shows "\<exists>w'. GetSourceTable X w = (Done (map mount_of (entries_of ls)), w') \<and> socket_fd w' < 0 \<and> \<not> connected w' \<and> e_recvs w' = rs"
proof -
  obtain w1 where w1: "ConnectSocket X w = (Done True, w1)" "script w1 = script w"
    using ConnectSocket_works [OF assms(4,5)] by blast
  have c1: "config w1 = config w" using ConnectSocket_still [OF w1(1)] by (simp add: still_def)
  have f: "e_sends w1 = Sent (Suc k) # ks" "e_selects w1 = e_selects w" "e_recvs w1 = e_recvs w" "\<not> ssl w1"
    using w1(2) assms(1,6) by (simp_all add: script_def)
  let ?req = "bytes_of_string (BuildHTTPRequest X ''/'' w1)"
  have "?req \<noteq> []" by (simp add: BuildHTTPRequest_def Let_def bytes_of_string_def)
  then obtain w2 m where w2: "SendData ?req w1 = (Done (int m), w2)" "0 < m" "e_selects w2 = e_selects w" "e_recvs w2 = e_recvs w" "\<not> ssl w2"
    using f by (simp add: SendData_def Let_def)
  have "table_loop [] w2 = (Done ([] @ string_of_bytes (concat cs)), w2\<lparr>e_selects := ss, e_recvs := rs\<rparr>)"
    using w2(3-5) assms(7-9) by (intro table_loop_reads) simp_all
  then have loop: "table_loop [] w2 = (Done (table_text ls), w2\<lparr>e_selects := ss, e_recvs := rs\<rparr>)"
    by (simp add: assms(10))
  have "GetSourceTable X w = (Done (map mount_of (entries_of ls)), CloseConnection (w2\<lparr>e_selects := ss, e_recvs := rs\<rparr>))"
    using w1(1) w2(1,2) c1 assms(2) loop table_lines [OF assms(11)] parse_table_text [OF assms(3,11)]
    by (simp add: GetSourceTable_def bind_io_def)
  then show ?thesis
    by (intro exI [of _ "CloseConnection (w2\<lparr>e_selects := ss, e_recvs := rs\<rparr>)"]) (simp add: CloseConnection_def os_close_def Let_def)
qed

text \<open>Two streams: one with all fields, one of them empty, and one with seven.\<close>

definition ex_entry :: stream_entry where
  "ex_entry =
     \<lparr>en_name = ''MNT'', en_city = [], en_format = ''RTCM 3.2'', en_details = ''1005(1)'', en_carrier = 2, en_nav = ''GPS'',
      en_network = ''NET'', en_country = ''DEU'', en_lat = (4, 507337), en_lon = (0, - 7), en_more = [[CHR ''0'', CHR 0x0D]],
      en_shown = 12\<rparr>"

definition ex_short :: stream_entry where
  "ex_short = ex_entry\<lparr>en_name := ''B2'', en_shown := 7\<rparr>"

definition ex_table :: "(string + stream_entry) list" where
  "ex_table = [Inl ''SOURCETABLE 200 OK'', Inr ex_entry, Inr ex_short, Inl ''ENDSOURCETABLE'']"

definition ex_pieces :: "byte list list" where
  "ex_pieces = [take 10 (bytes_of_string (table_text ex_table)), drop 10 (bytes_of_string (table_text ex_table))]"

lemma ex_digits:
  "digit_char 0 = CHR ''0''" "digit_char 2 = CHR ''2''" "digit_char 3 = CHR ''3''" "digit_char 5 = CHR ''5''" "digit_char 7 = CHR ''7''"
  by code_simp+

lemma ex_lines:
  "entry_fields ex_entry = [''STR'', ''MNT'', [], ''RTCM 3.2'', ''1005(1)'', ''2'', ''GPS'', ''NET'', ''DEU'', ''50.7337'', ''-7'',
     [CHR ''0'', CHR 0x0D]]"
  "entry_fields ex_short = [''STR'', ''B2'', [], ''RTCM 3.2'', ''1005(1)'', ''2'', ''GPS'']"
  by (simp_all add: ex_entry_def ex_short_def entry_fields_def all_fields_def digits_of_def fixed_decimal_def int_to_string_def
      nat_to_string.simps pad_left_def ex_digits)

lemma getlines_join: "fs \<noteq> [] \<Longrightarrow> last fs \<noteq> [] \<Longrightarrow> \<forall>f \<in> set fs. c \<notin> set f \<Longrightarrow> getlines c (join fs c) = fs"
  by (induction fs c rule: join.induct) (simp_all add: getlines_last getlines_sep)

lemma ex_splits: "splits_lines (\<lambda>s c. getlines c s) ex_table"
proof -
  have "getlines (CHR '';'') (join (entry_fields e) (CHR '';'')) = entry_fields e" if "e = ex_entry \<or> e = ex_short" for e
    using that by (intro getlines_join) (auto simp: ex_lines)
  then show ?thesis by (simp add: splits_lines_def entries_of_def ex_table_def)
qed

lemma ex_table_text:
  "\<exists>n. length (bytes_of_string (table_text ex_table)) = n \<and> 10 < n \<and> n \<le> 65535" "list_all line_ok ex_table"
  by (simp_all add: table_text_def ex_table_def ex_lines bytes_of_string_def starts_with_def entry_ok_def)
    (simp_all add: ex_entry_def ex_short_def)

theorem source_table_roundtrip_witness:
  "\<exists>w'. GetSourceTable ex_lib (ex_client\<lparr>e_sends := [Sent 1000], e_selects := [Poll_ready, Poll_ready, Poll_timeout],
       e_recvs := map Received ex_pieces\<rparr>) = (Done [mount_of ex_entry, mount_of ex_short], w') \<and>
     socket_fd w' < 0 \<and> \<not> connected w' \<and> e_recvs w' = []"
proof -
  let ?w = "ex_client\<lparr>e_sends := [Sent 1000], e_selects := [Poll_ready, Poll_ready, Poll_timeout], e_recvs := map Received ex_pieces\<rparr>"
  have "\<not> ssl ?w" "\<not> opt_is_ssl (config ?w)" "splits_lines (x_split ex_lib) ex_table"
    "e_resolve ?w (opt_host (config ?w)) (int_to_string (opt_port (config ?w))) = Inr (ex_sock # [])"
    "e_sends ?w = Sent (Suc 999) # []" "e_selects ?w = replicate (length ex_pieces) Poll_ready @ Poll_timeout # []"
    "e_recvs ?w = map Received ex_pieces @ []" "\<forall>c \<in> set ex_pieces. c \<noteq> [] \<and> length c \<le> 65535"
    "concat ex_pieces = bytes_of_string (table_text ex_table)"
    using ex_table_text(1) ex_splits by (auto simp: ex_client_fields ex_options_fields ex_lib_def ex_pieces_def)
  then have "\<exists>w'. GetSourceTable ex_lib ?w = (Done (map mount_of (entries_of ex_table)), w') \<and> socket_fd w' < 0 \<and> \<not> connected w' \<and> e_recvs w' = []"
    using source_table_roundtrip [OF _ _ _ _ ex_client_fields(7) _ _ _ _ _ ex_table_text(2), of ?w ex_lib "[]" 999 "[]" ex_pieces "[]" "[]"] by blast
  then show ?thesis by (simp add: ex_table_def entries_of_def)
qed

section \<open>Position reports\<close>

text \<open>
  Successive calls of \<open>SendGGA\<close>, as the receiving thread makes them; before each, another thread may have set a new
  sentence. The result has the time of every report of which a byte was sent; a call that throws ends the run.
\<close>

fun report_rounds :: "string list \<Rightarrow> nworld \<Rightarrow> int list \<times> nworld" where
  "report_rounds [] w = ([], w)"
| "report_rounds (g # gs) w =
     (case SendGGA (w\<lparr>nmea_gga := g\<rparr>) of
        (Done _, w1) \<Rightarrow>
          (let (ts, w2) = report_rounds gs w1
           in (if e_sent w1 = e_sent w then ts else e_clock w (e_clock_reads w) # ts, w2))
      | (_, w1) \<Rightarrow> ([], w1))"

definition report_interval :: "nworld \<Rightarrow> int" where
  "report_interval w = max 1 (opt_gga_interval (config w)) * 1000000000"

lemma SendData_progress: "SendData p w = (Done k, w') \<Longrightarrow> p \<noteq> [] \<Longrightarrow>
    (0 < k \<longleftrightarrow> e_sent w' \<noteq> e_sent w) \<and> config w' = config w \<and> e_clock w' = e_clock w \<and> e_clock_reads w' = e_clock_reads w \<and>
    last_gga_sent w' = last_gga_sent w"
  by (auto simp: SendData_def fail_with_def LogErrorOrWarn_def bind_io_def min_def Let_def
      split: if_splits list.splits send_res.splits ssl_write_res.splits)

lemma SendGGA_round:
  assumes "SendGGA w = (Done r, w')"
  shows "config w' = config w" and "e_clock w' = e_clock w" and "e_clock_reads w' = Suc (e_clock_reads w)"
    and "e_sent w' \<noteq> e_sent w \<Longrightarrow> report_interval w \<le> e_clock w (e_clock_reads w) - last_gga_sent w"
    and "last_gga_sent w' = last_gga_sent w \<or> last_gga_sent w' = e_clock w (e_clock_reads w)"
    and "e_sent w' \<noteq> e_sent w \<Longrightarrow> last_gga_sent w' = e_clock w (e_clock_reads w)"
proof -
  have "gga_line (nmea_gga w) \<noteq> []" if "nmea_gga w \<noteq> []" using that by (simp add: gga_line_def)
  then have ne: "bytes_of_string (gga_line (nmea_gga w)) \<noteq> []" if "nmea_gga w \<noteq> []" using that by (simp add: bytes_of_string_def)
  have *: "config w' = config w \<and> e_clock w' = e_clock w \<and> e_clock_reads w' = Suc (e_clock_reads w) \<and>
      (e_sent w' \<noteq> e_sent w \<longrightarrow> report_interval w \<le> e_clock w (e_clock_reads w) - last_gga_sent w) \<and>
      (last_gga_sent w' = last_gga_sent w \<or> last_gga_sent w' = e_clock w (e_clock_reads w)) \<and>
      (e_sent w' \<noteq> e_sent w \<longrightarrow> last_gga_sent w' = e_clock w (e_clock_reads w))"
    using assms ne
    by (auto simp: SendGGA_def clock_read_def bind_io_def report_interval_def Let_def dest!: SendData_progress
        split: if_splits prod.splits io.splits)
  then show "config w' = config w" "e_clock w' = e_clock w" "e_clock_reads w' = Suc (e_clock_reads w)"
    "e_sent w' \<noteq> e_sent w \<Longrightarrow> report_interval w \<le> e_clock w (e_clock_reads w) - last_gga_sent w"
    "last_gga_sent w' = last_gga_sent w \<or> last_gga_sent w' = e_clock w (e_clock_reads w)"
    "e_sent w' \<noteq> e_sent w \<Longrightarrow> last_gga_sent w' = e_clock w (e_clock_reads w)" by simp_all
qed

text \<open>Reports are at least the interval apart, and from the last report before.\<close>

fun spaced :: "int \<Rightarrow> int \<Rightarrow> int list \<Rightarrow> bool" where
  "spaced d t [] = True"
| "spaced d t (u # us) \<longleftrightarrow> d \<le> u - t \<and> spaced d u us"

lemma spaced_earlier: "spaced d t us \<Longrightarrow> s \<le> t \<Longrightarrow> spaced d s us"
  by (cases us) auto

text \<open>
  C36: position reports keep their distance. Over any sequence of calls of \<open>SendGGA\<close>, whatever is reported and whatever
  the connection does, as long as the steady clock does not run backwards: two reports are at least \<open>gga_interval\<close>
  seconds apart, and at least one second however the interval is configured, and so is the first from the last one before.
\<close>

theorem reports_keep_distance:
  assumes "\<forall>i j. i \<le> j \<longrightarrow> e_clock w i \<le> e_clock w j" and "\<forall>i \<ge> e_clock_reads w. last_gga_sent w \<le> e_clock w i"
    and "report_rounds gs w = (ts, w')"
  shows "spaced (max 1 (opt_gga_interval (config w)) * 1000000000) (last_gga_sent w) ts"
  using assms
proof (induction gs arbitrary: w ts)
  case (Cons g gs)
  let ?w = "w\<lparr>nmea_gga := g\<rparr>" and ?now = "e_clock w (e_clock_reads w)"
  show ?case
  proof (cases "fst (SendGGA ?w)")
    case (Done r)
    then obtain w1 where w1: "SendGGA ?w = (Done r, w1)" by (cases "SendGGA ?w") auto
    note r = SendGGA_round [OF w1, simplified]
    obtain us where us: "report_rounds gs w1 = (us, w')" "ts = (if e_sent w1 = e_sent w then us else ?now # us)"
      using Cons.prems(3) w1 by (auto simp: Let_def split: prod.splits)
    have "last_gga_sent w1 \<le> e_clock w i" if "Suc (e_clock_reads w) \<le> i" for i
      using Cons.prems(1,2) r(5) that by (metis Suc_leD)
    then have IH: "spaced (max 1 (opt_gga_interval (config w)) * 1000000000) (last_gga_sent w1) us"
      using Cons.IH [OF _ _ us(1)] Cons.prems(1) r(1-3) by simp
    have later: "last_gga_sent w \<le> last_gga_sent w1" using Cons.prems(2) r(5) by auto
    show ?thesis
    proof (cases "e_sent w1 = e_sent w")
      case True
      then show ?thesis using us(2) spaced_earlier [OF IH later] by simp
    next
      case False
      then show ?thesis using us(2) IH r(4,6) by (simp add: report_interval_def)
    qed
  qed (use Cons.prems(3) in \<open>auto split: prod.splits\<close>)
qed simp

definition ex_reporter :: nworld where
  "ex_reporter = ex_client\<lparr>e_clock := \<lambda>i. int i * 20000000000, e_sends := [Sent 100, Sent 3]\<rparr>"

lemma ex_report:
  "report_rounds [''$GPGGA'', ''$GPGGA'', ''$GPGGA'', ''$GPGGA'', ''$GPGGA''] ex_reporter =
     ([40000000000, 80000000000], snd (report_rounds [''$GPGGA'', ''$GPGGA'', ''$GPGGA'', ''$GPGGA'', ''$GPGGA''] ex_reporter))"
  by (simp add: ex_reporter_def ex_client_def ex_options_def LoadConfig_def Options_default_def SendGGA_def clock_read_def
      SendData_def gga_line_def bytes_of_string_def Let_def)

theorem reports_keep_distance_witness:
  "spaced (max 1 (opt_gga_interval (config ex_reporter)) * 1000000000) (last_gga_sent ex_reporter) [40000000000, 80000000000] \<and>
     opt_gga_interval (config ex_reporter) = 30"
  using reports_keep_distance [OF _ _ ex_report]
  by (simp add: ex_reporter_def ex_client_def ex_options_def LoadConfig_def Options_default_def)

text \<open>
  A report is one call of \<open>send\<close>: when the socket takes a part of the sentence only, the rest is never sent, and the
  report counts as made.
\<close>

lemma short_report_counts:
  assumes "\<not> ssl w" and "e_sends w = Sent k # ks" and "nmea_gga w \<noteq> []" and "0 < k" and "k < length (gga_line (nmea_gga w))"
    and "report_interval w \<le> e_clock w (e_clock_reads w) - last_gga_sent w"
  shows "\<exists>w'. SendGGA w = (Done (), w') \<and> e_sent w' = e_sent w @ take k (bytes_of_string (gga_line (nmea_gga w))) \<and>
     last_gga_sent w' = e_clock w (e_clock_reads w)"
  using assms by (simp add: SendGGA_def clock_read_def SendData_def report_interval_def bytes_of_string_def Let_def)

end
