(* ===== verification/NtripThreads.thy ===== *)
theory NtripThreads
  imports NtripClientProps Chunked
begin

text \<open>
  The receiving side of the NTRIP client: cutting the stream into blocks of 1024 bytes, and the three threads
  that share the object. \<open>ReceiveThread\<close> fills a bounded queue, \<open>ProcessThread\<close> empties it, and the
  owner stops them. A state has a program counter for each thread; a step is one access to shared
  state, one critical section or one call. \<open>P_pred\<close>, \<open>P_block\<close> and \<open>P_take\<close> are inside the critical
  section of \<open>queue_mutex_\<close>. A notification wakes the processing thread only while it sleeps in the wait.
  \<open>spurious\<close> says whether a wait may also end by itself.
\<close>

section \<open>The code: blocks\<close>

function take_blocks :: "byte list \<Rightarrow> byte list list \<times> byte list" where
  "take_blocks buffer =
     (if 1024 \<le> length buffer
      then let (ms, r) = take_blocks (drop 1024 buffer) in (take 1024 buffer # ms, r)
      else ([], buffer))"
  by pat_completeness auto
termination
  by (relation "measure length") auto

declare take_blocks.simps [simp del]

text \<open>The buffer, the number of overflows, and the messages of one call.\<close>

definition ChunkRTCMData :: "nat \<Rightarrow> byte list \<Rightarrow> byte list \<times> u64 \<Rightarrow> byte list list \<times> byte list \<times> u64" where
  "ChunkRTCMData max_size data st =
     (let (buffer, lost) = st in
      if data = [] then ([], buffer, lost)
      else let (buffer1, lost1) = (if max_size < length buffer + length data then ([], lost + 1) else (buffer, lost));
               (ms, r) = take_blocks (buffer1 @ data)
           in (ms, r, lost1))"

section \<open>The code: threads\<close>

text \<open>A call of a function that the owner installed, by its identity: as \<open>data_callback_\<close> or as \<open>message_callback_\<close>.\<close>

datatype cb = Data_cb nat | Message_cb nat

datatype rpc =
    R_head
  | R_gga
  | R_recv
  | R_stats "byte list"
  | R_push "byte list"
  | R_notify
  | R_lost "int option" \<comment> \<open>closed by the peer, or an error\<close>
  | R_recon int int \<comment> \<open>attempts and interval, before the test of the loop\<close>
  | R_slept int int \<comment> \<open>after the sleep\<close>
  | R_throw
  | R_end

datatype ppc =
    P_head
  | P_pred
  | P_block \<comment> \<open>the predicate was false; about to sleep\<close>
  | P_asleep
  | P_take
  | P_work "byte list"
  | P_deliver "nat option" "nat option" "byte list list" \<comment> \<open>copies of the two callbacks, messages to go\<close>
  | P_end

datatype upc =
    U_run
  | U_notify
  | U_join
  | U_close
  | U_done
  | U_destroyed
  | U_terminated \<comment> \<open>\<open>std::terminate\<close>: a joinable thread was destroyed\<close>

record nsys =
  net_w :: nworld
  receiving :: bool
  data_queue :: "byte list list"
  rtcm_state :: "byte list \<times> u64" \<comment> \<open>\<open>rtcm_buffer_\<close>, \<open>rtcm_sync_lost_count_\<close>\<close>
  base_open :: bool
  base_data :: "byte list"
  handles :: bool \<comment> \<open>the two \<open>unique_ptr\<close>s own threads that were not joined\<close>
  data_callback :: "nat option"
  message_callback :: "nat option"
  calls :: "(cb \<times> byte list) list" \<comment> \<open>the calls of callbacks, in order\<close>
  delivered :: "byte list list" \<comment> \<open>history: messages for which the callbacks were due\<close>
  r_pc :: rpc
  p_pc :: ppc
  u_pc :: upc
  pushed :: "byte list list" \<comment> \<open>history: chunks put into the queue\<close>
  left :: "(bool \<times> byte list) list" \<comment> \<open>history: chunks that left it, and whether they were processed\<close>

definition StartReceiving :: "bool \<Rightarrow> nsys \<Rightarrow> nsys" where
  "StartReceiving open_ok s =
     (if \<not> connected (net_w s) \<or> receiving s then s
      else
        let q = (if pending_data (net_w s) \<noteq> [] then [pending_data (net_w s)] else []);
            (now, w1) = clock_read (net_w s)
        in s\<lparr>receiving := True, data_queue := q,
             net_w := w1\<lparr>pending_data := [], last_gga_sent := now - opt_gga_interval (config w1) * 1000000000\<rparr>,
             rtcm_state := ([], 0), base_open := open_ok, base_data := [], handles := True,
             r_pc := R_head, p_pc := P_head, pushed := q, left := [], delivered := [], calls := []\<rparr>)"

definition wake :: "ppc \<Rightarrow> ppc" where
  "wake p = (if p = P_asleep then P_pred else p)"

definition queue_locked :: "nsys \<Rightarrow> bool" where
  "queue_locked s \<longleftrightarrow> p_pc s \<in> {P_pred, P_block, P_take}"

definition count_bytes :: "byte list \<Rightarrow> nworld \<Rightarrow> nworld" where
  "count_bytes bs w =
     (let (now, w1) = clock_read w
      in w1\<lparr>stats := (stats w1)\<lparr>bytes_received := bytes_received (stats w1) + of_nat (length bs),
           last_message_time := now\<rparr>\<rparr>)"

definition count_dropped :: "nworld \<Rightarrow> nworld" where
  "count_dropped w = w\<lparr>stats := (stats w)\<lparr>messages_dropped := messages_dropped (stats w) + 1\<rparr>\<rparr>"

text \<open>
  A full queue drops its oldest chunk. With a limit of 0 the code would take the front of an empty queue, which is
  undefined; the properties assume a limit of at least 1.
\<close>

definition push_chunk :: "byte list \<Rightarrow> nsys \<Rightarrow> nsys" where
  "push_chunk bs s =
     (let s1 = (if opt_max_queue_size (config (net_w s)) \<le> length (data_queue s)
                then s\<lparr>data_queue := tl (data_queue s), left := left s @ [(False, hd (data_queue s))],
                       net_w := count_dropped (net_w s)\<rparr>
                else s)
      in s1\<lparr>data_queue := data_queue s1 @ [bs], pushed := pushed s1 @ [bs]\<rparr>)"

definition give_up :: "int \<Rightarrow> nsys \<Rightarrow> nsys" where
  "give_up attempts s =
     (case fail_with (Reconnect_failed attempts) () (net_w s) of
        (Done _, _) \<Rightarrow> s\<lparr>receiving := False, r_pc := R_end\<rparr>
      | _ \<Rightarrow> s\<lparr>r_pc := R_throw\<rparr>)"

text \<open>\<open>base_data\<close> is what was handed to the stream of the recording; that stream's own failures are not modelled.\<close>

definition process_chunk :: "byte list \<Rightarrow> nsys \<Rightarrow> nsys" where
  "process_chunk bs s =
     (let (ms, st) = ChunkRTCMData (opt_max_buffer_size (config (net_w s))) bs (rtcm_state s);
          w = net_w s
      in s\<lparr>base_data := (if base_open s then base_data s @ bs else base_data s), rtcm_state := st,
           net_w := w\<lparr>stats := (stats w)\<lparr>messages_received := messages_received (stats w) + of_nat (length ms)\<rparr>\<rparr>,
           p_pc := P_deliver (data_callback s) (message_callback s) ms\<rparr>)"

text \<open>
  One message: the data callback, then the message callback, each if it is there. \<open>throws h f m\<close> says whether the
  call of \<open>f\<close> with \<open>m\<close>, after the calls \<open>h\<close>, ends by an exception; then the rest is skipped.
\<close>

fun call_callback :: "((cb \<times> byte list) list \<Rightarrow> cb \<Rightarrow> byte list \<Rightarrow> bool) \<Rightarrow> cb option \<Rightarrow> byte list \<Rightarrow>
    (cb \<times> byte list) list \<Rightarrow> bool \<times> (cb \<times> byte list) list" where
  "call_callback throws None m h = (False, h)"
| "call_callback throws (Some f) m h = (throws h f m, h @ [(f, m)])"

definition deliver_message :: "((cb \<times> byte list) list \<Rightarrow> cb \<Rightarrow> byte list \<Rightarrow> bool) \<Rightarrow> nat option \<Rightarrow> nat option \<Rightarrow>
    byte list \<Rightarrow> (cb \<times> byte list) list \<Rightarrow> bool \<times> (cb \<times> byte list) list" where
  "deliver_message throws d f m h =
     (let (threw, h1) = call_callback throws (map_option Data_cb d) m h
      in if threw then (True, h1) else call_callback throws (map_option Message_cb f) m h1)"

definition SetDataCallback :: "nat option \<Rightarrow> nsys \<Rightarrow> nsys" where
  "SetDataCallback f s = s\<lparr>data_callback := f\<rparr>"

definition SetMessageCallback :: "nat option \<Rightarrow> nsys \<Rightarrow> nsys" where
  "SetMessageCallback f s = s\<lparr>message_callback := f\<rparr>"

definition SetNmeaGga :: "string \<Rightarrow> nsys \<Rightarrow> nsys" where
  "SetNmeaGga g s = s\<lparr>net_w := (net_w s)\<lparr>nmea_gga := g\<rparr>\<rparr>"

text \<open>
  The owner: \<open>Disconnect\<close> sets its own flag and calls \<open>StopReceiving\<close>, which returns at once when nothing is
  received; after the join the recording is closed; then the connection.
\<close>

definition stop_signal :: "nsys \<Rightarrow> nsys" where
  "stop_signal s =
     s\<lparr>net_w := (net_w s)\<lparr>disconnected := True\<rparr>, receiving := False,
       u_pc := (if receiving s then U_notify else U_close)\<rparr>"

definition stop_joined :: "nsys \<Rightarrow> nsys" where
  "stop_joined s = s\<lparr>handles := False, base_open := False, u_pc := U_close\<rparr>"

definition disconnect_close :: "nsys \<Rightarrow> nsys" where
  "disconnect_close s = s\<lparr>net_w := CloseConnection ((net_w s)\<lparr>connected := False\<rparr>), u_pc := U_done\<rparr>"

lemmas owner_defs [simp] = SetDataCallback_def SetMessageCallback_def SetNmeaGga_def stop_signal_def stop_joined_def disconnect_close_def

inductive nstep :: "ntrip_lib \<Rightarrow> ((cb \<times> byte list) list \<Rightarrow> cb \<Rightarrow> byte list \<Rightarrow> bool) \<Rightarrow> bool \<Rightarrow> nsys \<Rightarrow> nsys \<Rightarrow> bool"
  for X :: ntrip_lib and cb_throws :: "(cb \<times> byte list) list \<Rightarrow> cb \<Rightarrow> byte list \<Rightarrow> bool" and spurious :: bool where
  r_stop: "r_pc s = R_head \<Longrightarrow> \<not> (receiving s \<and> connected (net_w s)) \<Longrightarrow> nstep X cb_throws spurious s (s\<lparr>r_pc := R_end\<rparr>)"
| r_go: "r_pc s = R_head \<Longrightarrow> receiving s \<Longrightarrow> connected (net_w s) \<Longrightarrow>
    nstep X cb_throws spurious s (s\<lparr>r_pc := (if opt_use_vrs (config (net_w s)) then R_gga else R_recv)\<rparr>)"
| r_gga: "r_pc s = R_gga \<Longrightarrow> SendGGA (net_w s) = (Done (), w) \<Longrightarrow>
    nstep X cb_throws spurious s (s\<lparr>net_w := w, r_pc := R_recv\<rparr>)"
| r_gga_throw: "r_pc s = R_gga \<Longrightarrow> SendGGA (net_w s) = (Throw e, w) \<Longrightarrow>
    nstep X cb_throws spurious s (s\<lparr>net_w := w, r_pc := R_throw\<rparr>)"
| r_data: "r_pc s = R_recv \<Longrightarrow> ReceiveData 65536 (net_w s) = (Done (Data bs), w) \<Longrightarrow>
    nstep X cb_throws spurious s (s\<lparr>net_w := w, r_pc := R_stats bs\<rparr>)"
| r_closed: "r_pc s = R_recv \<Longrightarrow> ReceiveData 65536 (net_w s) = (Done Closed, w) \<Longrightarrow>
    nstep X cb_throws spurious s (s\<lparr>net_w := w, r_pc := R_lost None\<rparr>)"
| r_failed: "r_pc s = R_recv \<Longrightarrow> ReceiveData 65536 (net_w s) = (Done (Failed e), w) \<Longrightarrow>
    nstep X cb_throws spurious s
      (s\<lparr>net_w := w, r_pc := (if e \<noteq> EWOULDBLOCK \<and> e \<noteq> ETIMEDOUT then R_lost (Some e) else R_head)\<rparr>)"
| r_recv_throw: "r_pc s = R_recv \<Longrightarrow> ReceiveData 65536 (net_w s) = (Throw e, w) \<Longrightarrow>
    nstep X cb_throws spurious s (s\<lparr>net_w := w, r_pc := R_throw\<rparr>)"
| r_stats: "r_pc s = R_stats bs \<Longrightarrow>
    nstep X cb_throws spurious s (s\<lparr>net_w := count_bytes bs (net_w s), r_pc := R_push bs\<rparr>)"
| r_push: "r_pc s = R_push bs \<Longrightarrow> \<not> queue_locked s \<Longrightarrow>
    nstep X cb_throws spurious s ((push_chunk bs s)\<lparr>r_pc := R_notify\<rparr>)"
| r_notify: "r_pc s = R_notify \<Longrightarrow> nstep X cb_throws spurious s (s\<lparr>p_pc := wake (p_pc s), r_pc := R_head\<rparr>)"
| r_lost: "r_pc s = R_lost e \<Longrightarrow>
    nstep X cb_throws spurious s
      (s\<lparr>net_w := (net_w s)\<lparr>connected := False\<rparr>,
         r_pc := (if e \<noteq> None \<and> opt_enable_rtk (config (net_w s)) then R_throw
                  else if opt_auto_reconnect (config (net_w s)) \<and> receiving s
                  then R_recon 0 (opt_reconnect_interval (config (net_w s))) else R_end)\<rparr>)"
| r_round: "r_pc s = R_recon a c \<Longrightarrow>
    opt_auto_reconnect (config (net_w s)) \<and> receiving s \<and> a < opt_max_reconnect_attempts (config (net_w s)) \<Longrightarrow>
    nstep X cb_throws spurious s (s\<lparr>net_w := sleep_seconds c (count_reconnect (net_w s)), r_pc := R_slept (a + 1) c\<rparr>)"
| r_give_up: "r_pc s = R_recon a c \<Longrightarrow>
    \<not> (opt_auto_reconnect (config (net_w s)) \<and> receiving s \<and> a < opt_max_reconnect_attempts (config (net_w s))) \<Longrightarrow>
    nstep X cb_throws spurious s (give_up a s)"
| r_slept_stop: "r_pc s = R_slept a c \<Longrightarrow> \<not> receiving s \<Longrightarrow> nstep X cb_throws spurious s (give_up a s)"
| r_connected: "r_pc s = R_slept a c \<Longrightarrow> receiving s \<Longrightarrow>
    Connect X (CloseConnection (net_w s)) = (Done True, w) \<Longrightarrow>
    nstep X cb_throws spurious s (s\<lparr>net_w := w, r_pc := R_end\<rparr>)"
| r_again: "r_pc s = R_slept a c \<Longrightarrow> receiving s \<Longrightarrow>
    Connect X (CloseConnection (net_w s)) = (Done False, w) \<Longrightarrow>
    nstep X cb_throws spurious s (s\<lparr>net_w := w, r_pc := R_recon a (next_interval (config w) a c)\<rparr>)"
| r_connect_throw: "r_pc s = R_slept a c \<Longrightarrow> receiving s \<Longrightarrow>
    Connect X (CloseConnection (net_w s)) = (Throw e, w) \<Longrightarrow>
    nstep X cb_throws spurious s (s\<lparr>net_w := w, r_pc := R_throw\<rparr>)"
| r_catch: "r_pc s = R_throw \<Longrightarrow>
    nstep X cb_throws spurious s
      (s\<lparr>net_w := (net_w s)\<lparr>connected := False\<rparr>, receiving := False, p_pc := wake (p_pc s), r_pc := R_end\<rparr>)"
| p_head: "p_pc s = P_head \<Longrightarrow>
    nstep X cb_throws spurious s (s\<lparr>p_pc := (if receiving s then P_pred else P_end)\<rparr>)"
| p_pred: "p_pc s = P_pred \<Longrightarrow>
    nstep X cb_throws spurious s (s\<lparr>p_pc := (if data_queue s \<noteq> [] \<or> \<not> receiving s then P_take else P_block)\<rparr>)"
| p_sleep: "p_pc s = P_block \<Longrightarrow> nstep X cb_throws spurious s (s\<lparr>p_pc := P_asleep\<rparr>)"
| p_spurious: "p_pc s = P_asleep \<Longrightarrow> spurious \<Longrightarrow> nstep X cb_throws spurious s (s\<lparr>p_pc := P_pred\<rparr>)"
| p_stop: "p_pc s = P_take \<Longrightarrow> data_queue s = [] \<Longrightarrow> \<not> receiving s \<Longrightarrow>
    nstep X cb_throws spurious s (s\<lparr>p_pc := P_end\<rparr>)"
| p_take: "p_pc s = P_take \<Longrightarrow> data_queue s = bs # q \<Longrightarrow>
    nstep X cb_throws spurious s (s\<lparr>data_queue := q, left := left s @ [(True, bs)], p_pc := P_work bs\<rparr>)"
| p_work: "p_pc s = P_work bs \<Longrightarrow> nstep X cb_throws spurious s (process_chunk bs s)"
| p_next: "p_pc s = P_deliver d f [] \<Longrightarrow> nstep X cb_throws spurious s (s\<lparr>p_pc := P_head\<rparr>)"
| p_break: "p_pc s = P_deliver d f (m # ms) \<Longrightarrow> \<not> receiving s \<Longrightarrow> nstep X cb_throws spurious s (s\<lparr>p_pc := P_head\<rparr>)"
| p_deliver: "p_pc s = P_deliver d f (m # ms) \<Longrightarrow> receiving s \<Longrightarrow>
    deliver_message cb_throws d f m (calls s) = (False, h) \<Longrightarrow>
    nstep X cb_throws spurious s (s\<lparr>calls := h, delivered := delivered s @ [m], p_pc := P_deliver d f ms\<rparr>)"
| p_catch: "p_pc s = P_deliver d f (m # ms) \<Longrightarrow> receiving s \<Longrightarrow>
    deliver_message cb_throws d f m (calls s) = (True, h) \<Longrightarrow>
    nstep X cb_throws spurious s (s\<lparr>calls := h, delivered := delivered s @ [m], receiving := False, p_pc := P_end\<rparr>)"
| u_data: "u_pc s = U_run \<Longrightarrow> nstep X cb_throws spurious s (SetDataCallback g s)"
| u_message: "u_pc s = U_run \<Longrightarrow> nstep X cb_throws spurious s (SetMessageCallback g s)"
| u_gga: "u_pc s = U_run \<Longrightarrow> nstep X cb_throws spurious s (SetNmeaGga gga s)"
| u_stop: "u_pc s = U_run \<Longrightarrow> \<not> disconnected (net_w s) \<Longrightarrow>
    nstep X cb_throws spurious s (stop_signal s)"
| u_return: "u_pc s = U_run \<Longrightarrow> disconnected (net_w s) \<Longrightarrow> nstep X cb_throws spurious s (s\<lparr>u_pc := U_done\<rparr>)"
| u_notify: "u_pc s = U_notify \<Longrightarrow> nstep X cb_throws spurious s (s\<lparr>p_pc := wake (p_pc s), u_pc := U_join\<rparr>)"
| u_join: "u_pc s = U_join \<Longrightarrow> r_pc s = R_end \<Longrightarrow> p_pc s = P_end \<Longrightarrow>
    nstep X cb_throws spurious s (stop_joined s)"
| u_close: "u_pc s = U_close \<Longrightarrow> nstep X cb_throws spurious s (disconnect_close s)"
| u_destroy: "u_pc s = U_done \<Longrightarrow>
    nstep X cb_throws spurious s (s\<lparr>u_pc := (if handles s then U_terminated else U_destroyed)\<rparr>)"

section \<open>Blocks\<close>

definition blocks_of :: "byte list \<Rightarrow> byte list list" where
  "blocks_of xs = fst (take_blocks xs)"

definition tail_of :: "byte list \<Rightarrow> byte list" where
  "tail_of xs = snd (take_blocks xs)"

lemma blocks_step:
  "1024 \<le> length xs \<Longrightarrow> blocks_of xs = take 1024 xs # blocks_of (drop 1024 xs) \<and> tail_of xs = tail_of (drop 1024 xs)"
  "length xs < 1024 \<Longrightarrow> blocks_of xs = [] \<and> tail_of xs = xs"
  by (simp_all add: blocks_of_def tail_of_def take_blocks.simps [of xs] case_prod_beta Let_def)

lemma blocks_front: "length a = 1024 \<Longrightarrow> blocks_of (a @ c) = a # blocks_of c \<and> tail_of (a @ c) = tail_of c"
  using blocks_step(1) [of "a @ c"] by simp

lemma blocks_laws:
  "blocks_of (xs @ ys) = blocks_of xs @ blocks_of (tail_of xs @ ys) \<and>
   tail_of (xs @ ys) = tail_of (tail_of xs @ ys) \<and> length (tail_of xs) < 1024 \<and>
   concat (blocks_of xs) @ tail_of xs = xs \<and> (\<forall>b \<in> set (blocks_of xs). length b = 1024)"
proof (induction xs rule: take_blocks.induct)
  case (1 xs)
  show ?case
  proof (cases "1024 \<le> length xs")
    case True
    define a b where "a = take 1024 xs" and "b = drop 1024 xs"
    then have xs: "xs = a @ b" and len: "length a = 1024" using True by simp_all
    note IH = 1 [OF True, folded b_def]
    show ?thesis
      unfolding xs append_assoc using IH blocks_front [OF len, of b] blocks_front [OF len, of "b @ ys"] len by simp
  next
    case False
    then show ?thesis using blocks_step(2) [of xs] by simp
  qed
qed

lemma blocks_tail: "blocks_of (tail_of xs) = []"
  using blocks_laws [of xs] blocks_step(2) by blast

text \<open>One call of \<open>ChunkRTCMData\<close>, with the arguments in the order of the interface of stream components.\<close>

definition rtcm_step :: "nat \<Rightarrow> byte list \<times> u64 \<Rightarrow> byte list \<Rightarrow> unit + ((byte list \<times> u64) \<times> byte list list)" where
  "rtcm_step mx st data = (let (ms, st1) = ChunkRTCMData mx data st in Inr (st1, ms))"

lemma ChunkRTCMData_fits:
  assumes "length buffer < 1024" and "length data + 1024 \<le> mx"
  shows "ChunkRTCMData mx data (buffer, lost) = (blocks_of (buffer @ data), tail_of (buffer @ data), lost)"
proof (cases "data = []")
  case True
  then show ?thesis using assms(1) blocks_step(2) [of buffer] by (simp add: ChunkRTCMData_def)
next
  case False
  then show ?thesis using assms by (simp add: ChunkRTCMData_def blocks_of_def tail_of_def case_prod_beta Let_def)
qed

interpretation rtcm: chunked_parser blocks_of tail_of "rtcm_step mx" "\<lambda>st. length (fst st) < 1024" fst
  "\<lambda>xs. length xs + 1024 \<le> mx" for mx
proof unfold_locales
  fix st :: "byte list \<times> u64" and xs :: "byte list"
  obtain buffer lost where st: "st = (buffer, lost)" by fastforce
  show "\<exists>s'. rtcm_step mx st xs = Inr (s', blocks_of (fst st @ xs)) \<and> length (fst s') < 1024 \<and> fst s' = tail_of (fst st @ xs)"
    if "length (fst st) < 1024" "length xs + 1024 \<le> mx"
    using ChunkRTCMData_fits [of buffer xs mx lost] that blocks_laws [of "buffer @ xs"] by (simp add: st rtcm_step_def)
  show "tail_of (fst st) = fst st" if "length (fst st) < 1024" using blocks_step(2) that by blast
qed (use blocks_laws blocks_tail in blast)+

text \<open>
  C34: cutting is independent of the network. With chunks that fit the buffer limit, the messages that
  \<open>ChunkRTCMData\<close> emits over any sequence of calls are the consecutive 1024-byte blocks of the stream,
  wherever it was cut; together with the bytes still in the buffer, fewer than 1024, they are the whole
  stream, and nothing is counted as lost.
\<close>

theorem chunking_rtcm_stream:
  assumes "\<forall>c \<in> set cs. length c + 1024 \<le> mx"
  shows "\<exists>buffer ms. run_chunks (rtcm_step mx) ([], 0) cs = Inr ((buffer, 0), ms) \<and>
     concat ms @ buffer = concat cs \<and> length buffer < 1024 \<and> (\<forall>m \<in> set ms. length m = 1024) \<and>
     ms = blocks_of (concat cs)"
proof -
  have lost: "snd st' = snd st" if "\<forall>c \<in> set ds. length c + 1024 \<le> mx" "length (fst st) < 1024"
      "run_chunks (rtcm_step mx) st ds = Inr (st', ms)" for ds st st' ms
    using that
  proof (induction ds arbitrary: st ms)
    case (Cons c ds)
    have "rtcm_step mx st c = Inr ((tail_of (fst st @ c), snd st), blocks_of (fst st @ c))"
      using ChunkRTCMData_fits [of "fst st" c mx "snd st"] Cons.prems by (simp add: rtcm_step_def)
    with Cons blocks_laws [of "fst st @ c"] show ?case by (fastforce simp: bind_res_eq_Inr split: prod.splits)
  qed simp
  obtain st' where run: "run_chunks (rtcm_step mx) ([], 0) cs = Inr (st', blocks_of (concat cs))"
      "length (fst st') < 1024" "fst st' = tail_of (concat cs)"
    using rtcm.run_chunks_law [of "([], 0)" cs mx] assms by auto
  with lost [OF assms _ run(1)] blocks_laws [of "concat cs"] show ?thesis by (cases st') auto
qed

theorem chunking_rtcm_stream_witness:
  "\<exists>buffer ms. run_chunks (rtcm_step 8388608) ([], 0) [replicate 1000 1, replicate 100 2, []] = Inr ((buffer, 0), ms) \<and>
     concat ms @ buffer = concat [replicate 1000 1, replicate 100 2, []] \<and> length buffer < 1024 \<and>
     (\<forall>m \<in> set ms. length m = 1024) \<and> ms = blocks_of (concat [replicate 1000 1, replicate 100 2, []])"
  by (rule chunking_rtcm_stream) simp

end
