(* ===== verification/NtripThreadsProps.thy ===== *)
theory NtripThreadsProps
  imports NtripThreads
begin

text \<open>
  What the threads of the NTRIP client guarantee, by rule induction over the step relation: the queue stays
  bounded, chunks leave it in order, and the recording and the messages delivered are those of the chunks
  processed. Then the ways in which stopping goes wrong, as reachable states.
\<close>

section \<open>What the steps of the network keep\<close>

lemma SendData_stats: "stats (snd (SendData p w)) = stats w \<and> config (snd (SendData p w)) = config w"
  by (simp add: SendData_def Let_def split: list.splits send_res.splits ssl_write_res.splits)

lemma ReceiveData_stats: "stats (snd (ReceiveData k w)) = stats w \<and> config (snd (ReceiveData k w)) = config w"
  by (simp add: ReceiveData_def Let_def split: list.splits recv_res.splits ssl_read_res.splits)

lemma SendGGA_stats: "stats (snd (SendGGA w)) = stats w \<and> config (snd (SendGGA w)) = config w"
proof -
  let ?w1 = "snd (clock_read w)"
  have w1: "stats ?w1 = stats w \<and> config ?w1 = config w" by (simp add: clock_read_def)
  have "stats (snd (bind_io (SendData p ?w1) (\<lambda>k w2. (Done (), if 0 < k then w2\<lparr>last_gga_sent := t\<rparr> else w2)))) = stats w \<and>
      config (snd (bind_io (SendData p ?w1) (\<lambda>k w2. (Done (), if 0 < k then w2\<lparr>last_gga_sent := t\<rparr> else w2)))) = config w" for p t
    using SendData_stats [of p ?w1] w1 by (cases "SendData p ?w1") (auto simp: bind_io_def split: io.splits)
  then show ?thesis using w1 by (simp add: SendGGA_def case_prod_beta Let_def)
qed

lemma net_config:
  "SendGGA w = (r1, w') \<Longrightarrow> config w' = config w" "ReceiveData k w = (r2, w') \<Longrightarrow> config w' = config w"
  "Connect X (CloseConnection w) = (r3, w') \<Longrightarrow> config w' = config w"
  "config (count_bytes bs w) = config w" "config (sleep_seconds i (count_reconnect w)) = config w"
  using SendGGA_stats [of w] ReceiveData_stats [of k w] Connect_config [of X "CloseConnection w" r3 w']
  by (auto simp: count_bytes_def clock_read_def)

lemma push_chunk_fields:
  "config (net_w (push_chunk bs s)) = config (net_w s)" "receiving (push_chunk bs s) = receiving s"
  "p_pc (push_chunk bs s) = p_pc s" "rtcm_state (push_chunk bs s) = rtcm_state s" "delivered (push_chunk bs s) = delivered s"
  "base_data (push_chunk bs s) = base_data s" "base_open (push_chunk bs s) = base_open s"
  by (simp_all add: push_chunk_def count_dropped_def Let_def)

lemma give_up_fields:
  "net_w (give_up a s) = net_w s" "p_pc (give_up a s) = p_pc s" "rtcm_state (give_up a s) = rtcm_state s"
  "delivered (give_up a s) = delivered s" "base_data (give_up a s) = base_data s" "base_open (give_up a s) = base_open s"
  "data_queue (give_up a s) = data_queue s" "left (give_up a s) = left s" "pushed (give_up a s) = pushed s"
  "u_pc (give_up a s) = u_pc s" "handles (give_up a s) = handles s"
  by (auto simp: give_up_def split: io.splits prod.splits)

lemma give_up_receiving: "receiving (give_up a s) \<longrightarrow> receiving s" and give_up_pc: "r_pc (give_up a s) \<in> {R_end, R_throw}"
  by (auto simp: give_up_def split: io.splits prod.splits)

lemma process_chunk_fields:
  "config (net_w (process_chunk bs s)) = config (net_w s)" "receiving (process_chunk bs s) = receiving s"
  "data_queue (process_chunk bs s) = data_queue s" "left (process_chunk bs s) = left s" "pushed (process_chunk bs s) = pushed s"
  "r_pc (process_chunk bs s) = r_pc s" "messages_dropped (stats (net_w (process_chunk bs s))) = messages_dropped (stats (net_w s))"
  "u_pc (process_chunk bs s) = u_pc s" "base_open (process_chunk bs s) = base_open s" "delivered (process_chunk bs s) = delivered s"
  "handles (process_chunk bs s) = handles s"
  by (simp_all add: process_chunk_def case_prod_beta Let_def)

lemmas step_fields = push_chunk_fields give_up_fields process_chunk_fields

lemma nstep_config: "nstep X cb sp s s' \<Longrightarrow> config (net_w s') = config (net_w s)"
  by (induction rule: nstep.induct) (simp_all add: net_config step_fields)

section \<open>The queue\<close>

definition queue_inv :: "Options \<Rightarrow> nsys \<Rightarrow> bool" where
  "queue_inv c s \<longleftrightarrow> config (net_w s) = c \<and> length (data_queue s) \<le> opt_max_queue_size c \<and>
     pushed s = map snd (left s) @ data_queue s"

lemma push_chunk_queue:
  assumes "queue_inv c s" and "0 < opt_max_queue_size c"
  shows "queue_inv c (push_chunk bs s)"
proof (cases "opt_max_queue_size c \<le> length (data_queue s)")
  case True
  then obtain x q where "data_queue s = x # q" using assms(2) by (cases "data_queue s") auto
  with assms True show ?thesis by (simp add: queue_inv_def push_chunk_def count_dropped_def Let_def)
next
  case False
  with assms show ?thesis by (simp add: queue_inv_def push_chunk_def Let_def)
qed

lemma queue_inv_r_pc [simp]: "queue_inv c (s\<lparr>r_pc := x\<rparr>) = queue_inv c s"
  by (simp add: queue_inv_def)

lemma nstep_queue: "nstep X cb sp s s' \<Longrightarrow> 0 < opt_max_queue_size c \<Longrightarrow> queue_inv c s \<Longrightarrow> queue_inv c s'"
proof (induction rule: nstep.induct)
  case (r_push s bs)
  then show ?case using push_chunk_queue by simp
qed (auto simp: queue_inv_def net_config step_fields)

text \<open>While the receiving thread is in its loop, the counter says how many chunks were dropped.\<close>

definition in_loop :: "rpc \<Rightarrow> bool" where
  "in_loop r \<longleftrightarrow> (case r of R_recon _ _ \<Rightarrow> False | R_slept _ _ \<Rightarrow> False | R_throw \<Rightarrow> False | R_end \<Rightarrow> False | _ \<Rightarrow> True)"

definition drop_inv :: "nsys \<Rightarrow> bool" where
  "drop_inv s \<longleftrightarrow> (in_loop (r_pc s) \<longrightarrow>
     messages_dropped (stats (net_w s)) = of_nat (length (filter (\<lambda>x. \<not> fst x) (left s))))"

lemma net_dropped:
  "SendGGA w = (r1, w') \<Longrightarrow> messages_dropped (stats w') = messages_dropped (stats w)"
  "ReceiveData k w = (r2, w') \<Longrightarrow> messages_dropped (stats w') = messages_dropped (stats w)"
  "messages_dropped (stats (count_bytes bs w)) = messages_dropped (stats w)"
  "messages_dropped (stats (CloseConnection w)) = messages_dropped (stats w)"
  using SendGGA_stats [of w] ReceiveData_stats [of k w]
  by (auto simp: count_bytes_def clock_read_def CloseConnection_def os_close_def Let_def)

lemma push_chunk_dropped:
  "messages_dropped (stats (net_w s)) = of_nat (length (filter (\<lambda>x. \<not> fst x) (left s))) \<Longrightarrow>
     messages_dropped (stats (net_w (push_chunk bs s))) = of_nat (length (filter (\<lambda>x. \<not> fst x) (left (push_chunk bs s))))"
  by (simp add: push_chunk_def count_dropped_def Let_def)

lemma in_loop_simps [simp]:
  "in_loop R_head" "in_loop R_gga" "in_loop R_recv" "in_loop (R_stats bs)" "in_loop (R_push bs)" "in_loop R_notify"
  "in_loop (R_lost e)" "\<not> in_loop (R_recon a b)" "\<not> in_loop (R_slept a b)" "\<not> in_loop R_throw" "\<not> in_loop R_end"
  by (simp_all add: in_loop_def)

lemma give_up_not_in_loop: "\<not> in_loop (r_pc (give_up a s))"
  using give_up_pc [of a s] by (auto simp: in_loop_def)

lemma nstep_drop: "nstep X cb sp s s' \<Longrightarrow> drop_inv s \<Longrightarrow> drop_inv s'"
proof (induction rule: nstep.induct)
  case (r_push s bs)
  then show ?case using push_chunk_dropped [of s bs] by (simp add: drop_inv_def)
qed (auto simp: drop_inv_def net_dropped step_fields give_up_not_in_loop)

section \<open>Processing\<close>

definition processed :: "nsys \<Rightarrow> byte list list" where
  "processed s = map snd (filter fst (left s))"

text \<open>The chunk that was taken from the queue and not worked on yet.\<close>

definition in_hand :: "nsys \<Rightarrow> byte list list" where
  "in_hand s = (case p_pc s of P_work bs \<Rightarrow> [bs] | _ \<Rightarrow> [])"

definition fits :: "Options \<Rightarrow> byte list \<Rightarrow> bool" where
  "fits c bs \<longleftrightarrow> length bs + 1024 \<le> opt_max_buffer_size c"

definition chunk_inv :: "Options \<Rightarrow> nsys \<Rightarrow> bool" where
  "chunk_inv c s \<longleftrightarrow> config (net_w s) = c \<and> (\<forall>bs \<in> set (data_queue s) \<union> set (in_hand s). fits c bs) \<and>
     (\<forall>bs. r_pc s = R_stats bs \<or> r_pc s = R_push bs \<longrightarrow> fits c bs)"

lemma ReceiveData_cap: "ReceiveData k w = (Done (Data bs), w') \<Longrightarrow> length bs \<le> k"
  by (auto simp: ReceiveData_def fail_with_def LogErrorOrWarn_def Let_def bind_io_def not_positive_def
      split: if_splits list.splits recv_res.splits ssl_read_res.splits)

lemma in_hand_simps [simp]:
  "p_pc s = P_work bs \<Longrightarrow> in_hand s = [bs]"
  "\<forall>bs. p_pc s \<noteq> P_work bs \<Longrightarrow> in_hand s = []"
  by (auto simp: in_hand_def split: ppc.splits)

lemma in_hand_pc: "p_pc s' = p_pc s \<Longrightarrow> in_hand s' = in_hand s"
  by (simp add: in_hand_def)

lemma in_hand_wake: "p_pc s' = wake (p_pc s) \<Longrightarrow> in_hand s' = in_hand s"
  by (simp add: in_hand_def wake_def)

lemma push_chunk_queue_set: "set (data_queue (push_chunk bs s)) \<subseteq> insert bs (set (data_queue s))"
  by (cases "data_queue s") (auto simp: push_chunk_def Let_def)

lemma chunk_inv_cong:
  "config (net_w s') = config (net_w s) \<Longrightarrow> set (data_queue s') \<subseteq> set (data_queue s) \<Longrightarrow> in_hand s' = in_hand s \<Longrightarrow>
     (\<forall>bs. r_pc s' = R_stats bs \<or> r_pc s' = R_push bs \<longrightarrow> r_pc s = R_stats bs \<or> r_pc s = R_push bs) \<Longrightarrow>
     chunk_inv c s \<Longrightarrow> chunk_inv c s'"
  by (fastforce simp: chunk_inv_def)

lemma nstep_chunk: "nstep X cb sp s s' \<Longrightarrow> 66560 \<le> opt_max_buffer_size c \<Longrightarrow> chunk_inv c s \<Longrightarrow> chunk_inv c s'"
proof (induction rule: nstep.induct)
  case (r_data s bs w)
  have "fits c bs" using ReceiveData_cap [OF r_data(2)] r_data(3) by (simp add: fits_def)
  with r_data show ?case by (auto simp: chunk_inv_def net_config in_hand_def)
next
  case (r_push s bs)
  then have "fits c bs" by (simp add: chunk_inv_def)
  with r_push push_chunk_queue_set [of bs s] show ?case
    by (auto simp: chunk_inv_def push_chunk_fields in_hand_def split: ppc.splits)
next
  case (p_take s bs q)
  then show ?case by (auto simp: chunk_inv_def in_hand_def)
next
  case (r_give_up s a b)
  then show ?case using give_up_pc [of a s] by (auto simp: step_fields in_hand_def intro: chunk_inv_cong [of _ s])
next
  case (r_slept_stop s a b)
  then show ?case using give_up_pc [of a s] by (auto simp: step_fields in_hand_def intro: chunk_inv_cong [of _ s])
next
  case (p_work s bs)
  then show ?case by (auto simp: chunk_inv_def step_fields in_hand_def process_chunk_def case_prod_beta Let_def)
qed (auto simp: chunk_inv_def net_config in_hand_def wake_def split: ppc.splits)

text \<open>The messages delivered, against the blocks of the chunks worked on.\<close>

definition deliver_ok :: "ppc \<Rightarrow> bool \<Rightarrow> byte list list \<Rightarrow> byte list list \<Rightarrow> bool" where
  "deliver_ok p rcv out bl \<longleftrightarrow>
     (case p of
        P_deliver d f ms \<Rightarrow> out @ ms = bl
      | P_head \<Rightarrow> prefix out bl \<and> (rcv \<longrightarrow> out = bl)
      | P_end \<Rightarrow> prefix out bl
      | _ \<Rightarrow> out = bl)"

text \<open>\<open>opn\<close> says whether the recording could be opened.\<close>

definition proc_inv :: "bool \<Rightarrow> nsys \<Rightarrow> bool" where
  "proc_inv opn s \<longleftrightarrow>
     (\<exists>dn. processed s = dn @ in_hand s \<and> rtcm_state s = (tail_of (concat dn), 0) \<and>
        base_data s = (if opn then concat dn else []) \<and> (base_open s \<longrightarrow> opn) \<and>
        (opn \<and> \<not> base_open s \<longrightarrow> p_pc s = P_end) \<and> deliver_ok (p_pc s) (receiving s) (delivered s) (blocks_of (concat dn)))"

lemma deliver_ok_weaken: "deliver_ok p rcv out bl \<Longrightarrow> (rcv' \<longrightarrow> rcv) \<Longrightarrow> deliver_ok (wake p) rcv' out bl \<and> deliver_ok p rcv' out bl"
  by (auto simp: deliver_ok_def wake_def split: ppc.splits)

lemma deliver_ok_prefix: "deliver_ok p rcv out bl \<Longrightarrow> prefix out bl"
  by (cases p) (auto simp: deliver_ok_def prefix_def)

lemma proc_inv_cong:
  assumes "proc_inv opn s" and "processed s' = processed s" and "rtcm_state s' = rtcm_state s" and "base_data s' = base_data s"
    and "base_open s' = base_open s" and "delivered s' = delivered s" and "receiving s' \<longrightarrow> receiving s"
    and "p_pc s' = p_pc s \<or> p_pc s' = wake (p_pc s)"
  shows "proc_inv opn s'"
proof -
  have "in_hand s' = in_hand s" using assms(8) in_hand_pc in_hand_wake by blast
  moreover have "p_pc s = P_end \<longrightarrow> p_pc s' = P_end" using assms(8) by (auto simp: wake_def)
  ultimately show ?thesis
    using assms deliver_ok_weaken [of "p_pc s" "receiving s" "delivered s" _ "receiving s'"] unfolding proc_inv_def by metis
qed

lemma proc_inv_move:
  assumes "proc_inv opn s" and "\<forall>bs. p_pc s \<noteq> P_work bs" and "p_pc s \<noteq> P_end \<or> p = P_end" and "\<forall>bs. p \<noteq> P_work bs"
    and "\<And>bl. deliver_ok (p_pc s) (receiving s) (delivered s) bl \<Longrightarrow> deliver_ok p r out bl"
  shows "proc_inv opn (s\<lparr>p_pc := p, receiving := r, delivered := out\<rparr>)"
proof -
  have "in_hand s = []" "in_hand (s\<lparr>p_pc := p, receiving := r, delivered := out\<rparr>) = []"
    using assms(2,4) by (simp_all add: in_hand_def split: ppc.splits)
  with assms show ?thesis unfolding proc_inv_def by (fastforce simp: processed_def)
qed

lemma processed_push [simp]: "filter fst (left (push_chunk bs s)) = filter fst (left s)"
  by (simp add: push_chunk_def Let_def)

lemma proc_inv_work:
  assumes "proc_inv opn s" and "p_pc s = P_work bs" and "chunk_inv c s"
  shows "proc_inv opn (process_chunk bs s)"
proof -
  obtain dn where dn: "processed s = dn @ [bs]" "rtcm_state s = (tail_of (concat dn), 0)" "base_data s = (if opn then concat dn else [])"
      "base_open s = opn" "delivered s = blocks_of (concat dn)"
    using assms(1,2) by (auto simp: proc_inv_def deliver_ok_def)
  have "fits c bs" "config (net_w s) = c" using assms(2,3) by (simp_all add: chunk_inv_def)
  then have chunk: "ChunkRTCMData (opt_max_buffer_size (config (net_w s))) bs (tail_of (concat dn), 0) =
      (blocks_of (tail_of (concat dn) @ bs), tail_of (concat dn @ bs), 0)"
    using ChunkRTCMData_fits [of "tail_of (concat dn)" bs] blocks_laws [of "concat dn" bs] by (simp add: fits_def)
  have pc: "p_pc (process_chunk bs s) = P_deliver (data_callback s) (message_callback s) (blocks_of (tail_of (concat dn) @ bs))"
      "rtcm_state (process_chunk bs s) = (tail_of (concat (dn @ [bs])), 0)"
      "base_data (process_chunk bs s) = (if opn then concat (dn @ [bs]) else [])" "processed (process_chunk bs s) = dn @ [bs]"
    using dn by (simp_all add: process_chunk_def chunk processed_def Let_def)
  then show ?thesis
    using dn(4,5) blocks_laws [of "concat dn" bs] unfolding proc_inv_def
    by (intro exI [of _ "dn @ [bs]"]) (simp add: step_fields deliver_ok_def)
qed

lemma proc_inv_pc:
  assumes "proc_inv opn s" and "\<forall>bs. p_pc s \<noteq> P_work bs" and "p_pc s \<noteq> P_end \<or> p = P_end" and "\<forall>bs. p \<noteq> P_work bs"
    and "\<And>bl. deliver_ok (p_pc s) (receiving s) (delivered s) bl \<Longrightarrow> deliver_ok p (receiving s) (delivered s) bl"
  shows "proc_inv opn (s\<lparr>p_pc := p\<rparr>)"
  using proc_inv_move [OF assms] by simp

lemma proc_inv_take:
  assumes "proc_inv opn s" and "p_pc s = P_take"
  shows "proc_inv opn (s\<lparr>data_queue := q, left := left s @ [(True, bs)], p_pc := P_work bs\<rparr>)"
  using assms by (auto simp: proc_inv_def processed_def in_hand_def deliver_ok_def)

lemma nstep_proc: "nstep X cb sp s s' \<Longrightarrow> chunk_inv c s \<Longrightarrow> proc_inv opn s \<Longrightarrow> proc_inv opn s'"
proof (induction rule: nstep.induct)
  case (p_head s)
  then show ?case by (intro proc_inv_pc) (auto simp: deliver_ok_def)
next
  case (p_pred s)
  then show ?case by (intro proc_inv_pc) (auto simp: deliver_ok_def)
next
  case (p_sleep s)
  then show ?case by (intro proc_inv_pc) (auto simp: deliver_ok_def)
next
  case (p_spurious s)
  then show ?case by (intro proc_inv_pc) (auto simp: deliver_ok_def)
next
  case (p_stop s)
  then show ?case by (intro proc_inv_pc) (auto simp: deliver_ok_def)
next
  case (p_next s)
  then show ?case by (intro proc_inv_pc) (auto simp: deliver_ok_def)
next
  case (p_break s d f m ms)
  then show ?case by (intro proc_inv_pc) (auto simp: deliver_ok_def)
next
  case (p_deliver s d f m ms h)
  then have "proc_inv opn (s\<lparr>p_pc := P_deliver d f ms, receiving := receiving s, delivered := delivered s @ [m]\<rparr>)"
    by (intro proc_inv_move) (auto simp: deliver_ok_def)
  then show ?case by (rule proc_inv_cong) (simp_all add: processed_def)
next
  case (p_catch s d f m ms h)
  then have "proc_inv opn (s\<lparr>p_pc := P_end, receiving := False, delivered := delivered s @ [m]\<rparr>)"
    by (intro proc_inv_move) (auto simp: deliver_ok_def)
  then show ?case by (rule proc_inv_cong) (simp_all add: processed_def)
next
  case (p_take s bs q)
  then show ?case using proc_inv_take by blast
next
  case (p_work s bs)
  then show ?case using proc_inv_work by blast
next
  case (u_join s)
  then show ?case by (auto simp: proc_inv_def processed_def in_hand_def)
next
  case (r_give_up s a b)
  then show ?case using give_up_receiving by (auto intro!: proc_inv_cong [of opn s] simp: processed_def step_fields)
next
  case (r_slept_stop s a b)
  then show ?case using give_up_receiving by (auto intro!: proc_inv_cong [of opn s] simp: processed_def step_fields)
qed (erule proc_inv_cong; simp add: processed_def step_fields)+

text \<open>The invariants together, in every reachable state.\<close>

lemma reachable_invariants:
  assumes "connected (net_w s0)" and "\<not> receiving s0" and "(nstep X cb spurious)\<^sup>*\<^sup>* (StartReceiving opn s0) s"
    and "0 < opt_max_queue_size (config (net_w s0))" and "66560 \<le> opt_max_buffer_size (config (net_w s0))"
    and "length (pending_data (net_w s0)) \<le> 65536" and "messages_dropped (stats (net_w s0)) = 0"
  shows "queue_inv (config (net_w s0)) s \<and> drop_inv s \<and> chunk_inv (config (net_w s0)) s \<and> proc_inv opn s"
proof -
  let ?c = "config (net_w s0)"
  let ?s = "StartReceiving opn s0"
  have start: "queue_inv ?c ?s" "drop_inv ?s" "chunk_inv ?c ?s" "proc_inv opn ?s"
    using assms
    by (simp_all add: StartReceiving_def clock_read_def queue_inv_def drop_inv_def chunk_inv_def in_hand_def fits_def
        proc_inv_def processed_def deliver_ok_def blocks_step Let_def)
  show ?thesis
    using assms(3)
  proof (induction rule: rtranclp_induct)
    case (step y z)
    then show ?case
      using nstep_queue [OF step(2) assms(4)] nstep_drop [OF step(2)] nstep_chunk [OF step(2) assms(5)] nstep_proc [OF step(2), of ?c]
      by simp
  qed (simp add: start)
qed

lemma receiving_runs:
  assumes "nstep X cb sp s s'" and "receiving s \<longrightarrow> p_pc s \<noteq> P_end"
  shows "receiving s' \<longrightarrow> p_pc s' \<noteq> P_end"
  using assms
proof (induction rule: nstep.induct)
  case (r_give_up s a b)
  then show ?case using give_up_receiving [of a s] by (simp add: step_fields)
next
  case (r_slept_stop s a b)
  then show ?case using give_up_receiving [of a s] by (simp add: step_fields)
next
  case (p_work s bs)
  then show ?case by (simp add: process_chunk_def case_prod_beta Let_def)
qed (auto simp: wake_def step_fields)

lemma reachable_runs:
  assumes "connected (net_w s0)" and "\<not> receiving s0" and "(nstep X cb sp)\<^sup>*\<^sup>* (StartReceiving opn s0) s"
  shows "receiving s \<longrightarrow> p_pc s \<noteq> P_end"
  using assms(3)
proof (induction rule: rtranclp_induct)
  case base
  then show ?case using assms(1,2) by (simp add: StartReceiving_def clock_read_def Let_def)
next
  case (step y z)
  then show ?case using receiving_runs by blast
qed

text \<open>The chunks that the processing thread has worked on, and the messages of the last one that are still to be delivered.\<close>

definition worked_on :: "nsys \<Rightarrow> byte list list" where
  "worked_on s = take (length (processed s) - length (in_hand s)) (processed s)"

definition due :: "nsys \<Rightarrow> byte list list" where
  "due s = (case p_pc s of P_deliver d f ms \<Rightarrow> ms | _ \<Rightarrow> [])"

lemma worked_on_eq: "processed s = dn @ in_hand s \<Longrightarrow> worked_on s = dn"
  by (simp add: worked_on_def)

lemma deliver_ok_due: "deliver_ok (p_pc s) True (delivered s) bl \<Longrightarrow> p_pc s \<noteq> P_end \<Longrightarrow> delivered s @ due s = bl"
  by (simp add: deliver_ok_def due_def split: ppc.splits)

lemma proc_inv_worked:
  assumes "proc_inv opn s"
  shows "processed s = worked_on s @ in_hand s" and "base_data s = (if opn then concat (worked_on s) else [])"
    and "prefix (delivered s) (blocks_of (concat (worked_on s)))"
    and "receiving s \<Longrightarrow> p_pc s \<noteq> P_end \<Longrightarrow> delivered s @ due s = blocks_of (concat (worked_on s))"
proof -
  obtain dn where dn: "processed s = dn @ in_hand s" "base_data s = (if opn then concat dn else [])"
      "deliver_ok (p_pc s) (receiving s) (delivered s) (blocks_of (concat dn))"
    using assms by (auto simp: proc_inv_def)
  note w = worked_on_eq [OF dn(1)]
  show "processed s = worked_on s @ in_hand s" "base_data s = (if opn then concat (worked_on s) else [])" using dn w by simp_all
  show "prefix (delivered s) (blocks_of (concat (worked_on s)))" using dn(3) w deliver_ok_prefix by blast
  show "delivered s @ due s = blocks_of (concat (worked_on s))" if "receiving s" "p_pc s \<noteq> P_end"
    using dn(3) w that deliver_ok_due by simp
qed

text \<open>
  C9: the receiving pipeline. A connected client, whose statistics count no dropped chunk, starts to receive, with a queue
  for at least one chunk, a buffer limit of at least 66560 bytes and at most 65536 pending bytes (the client's own
  options are 1024 chunks and 8 MiB). In every state that the three threads can then reach, whatever the network, the
  callbacks and the scheduler do: the queue has at most \<open>max_queue_size\<close> chunks; every chunk received was taken, dropped or
  is still queued, in the order of arrival; while the receiving thread is in its loop the statistics count the chunks
  dropped; all chunks taken were worked on, except for at most the last one, which is in hand. If the recording could be
  opened, what was handed to its stream is the chunks worked on, whole and in order, and otherwise nothing. The messages
  delivered are a prefix of the 1024-byte blocks of the chunks worked on; as long as the client receives, the blocks that
  were not delivered are those about to be.
\<close>

theorem receiving_pipeline:
  assumes "connected (net_w s0)" and "\<not> receiving s0" and "(nstep X cb spurious)\<^sup>*\<^sup>* (StartReceiving opened s0) s"
    and "0 < opt_max_queue_size (config (net_w s0))" and "66560 \<le> opt_max_buffer_size (config (net_w s0))"
    and "length (pending_data (net_w s0)) \<le> 65536" and "messages_dropped (stats (net_w s0)) = 0"
  shows "length (data_queue s) \<le> opt_max_queue_size (config (net_w s0)) \<and>
     pushed s = map snd (left s) @ data_queue s \<and>
     (in_loop (r_pc s) \<longrightarrow> messages_dropped (stats (net_w s)) = of_nat (length (filter (\<lambda>x. \<not> fst x) (left s)))) \<and>
     map snd (filter fst (left s)) = worked_on s @ in_hand s \<and>
     base_data s = (if opened then concat (worked_on s) else []) \<and>
     prefix (delivered s) (blocks_of (concat (worked_on s))) \<and>
     (receiving s \<longrightarrow> delivered s @ due s = blocks_of (concat (worked_on s)))"
proof -
  let ?c = "config (net_w s0)"
  have "queue_inv ?c s" "drop_inv s" "proc_inv opened s" using reachable_invariants [OF assms] by blast+
  with proc_inv_worked reachable_runs [OF assms(1-3)] show ?thesis
    by (auto simp: queue_inv_def drop_inv_def processed_def)
qed

text \<open>A client that is connected, before \<open>StartReceiving\<close>.\<close>

definition ex_sys :: "nworld \<Rightarrow> nsys" where
  "ex_sys w =
     \<lparr>net_w = w, receiving = False, data_queue = [], rtcm_state = ([], 0), base_open = False, base_data = [],
      handles = False, data_callback = None, message_callback = None, calls = [], delivered = [], r_pc = R_end, p_pc = P_end, u_pc = U_run, pushed = [], left = []\<rparr>"

definition ex_connected :: "bool \<Rightarrow> recv_res list \<Rightarrow> nworld" where
  "ex_connected rtk rs = ex_client\<lparr>config := ex_options\<lparr>opt_enable_rtk := rtk, opt_use_vrs := False\<rparr>, connected := True,
     socket_fd := 5, e_open := [5], pending_data := [0xD3], e_recvs := rs\<rparr>"

lemma ex_connected_fields [simp]:
  "connected (ex_connected rtk rs)" "config (ex_connected rtk rs) = ex_options\<lparr>opt_enable_rtk := rtk, opt_use_vrs := False\<rparr>"
  "pending_data (ex_connected rtk rs) = [0xD3]" "messages_dropped (stats (ex_connected rtk rs)) = 0"
  "\<not> disconnected (ex_connected rtk rs)" "e_recvs (ex_connected rtk rs) = rs" "\<not> ssl (ex_connected rtk rs)"
  by (simp_all add: ex_connected_def ex_client_def Statistics_default_def)

lemma ex_sys_fields [simp]: "net_w (ex_sys w) = w" "\<not> receiving (ex_sys w)" "u_pc (ex_sys w) = U_run"
  by (simp_all add: ex_sys_def)

text \<open>One step of the processing thread, then one of the receiving thread.\<close>

lemma ex_first_steps:
  "(nstep X cb sp)\<^sup>*\<^sup>* (StartReceiving True (ex_sys (ex_connected rtk rs)))
     ((StartReceiving True (ex_sys (ex_connected rtk rs)))\<lparr>p_pc := P_pred, r_pc := R_recv\<rparr>)"
proof -
  let ?s = "StartReceiving True (ex_sys (ex_connected rtk rs))"
  have fields: "p_pc ?s = P_head" "r_pc ?s = R_head" "receiving ?s" "connected (net_w ?s)" "\<not> opt_use_vrs (config (net_w ?s))"
    by (simp_all add: StartReceiving_def clock_read_def Let_def)
  have 1: "nstep X cb sp ?s (?s\<lparr>p_pc := P_pred\<rparr>)" using nstep.p_head [of ?s X cb sp] fields by simp
  have 2: "nstep X cb sp (?s\<lparr>p_pc := P_pred\<rparr>) (?s\<lparr>p_pc := P_pred, r_pc := R_recv\<rparr>)"
    using nstep.r_go [of "?s\<lparr>p_pc := P_pred\<rparr>" X cb sp] fields by simp
  show ?thesis using 1 2 by (meson converse_rtranclp_into_rtranclp rtranclp.rtrancl_refl)
qed

theorem receiving_pipeline_witness:
  "\<exists>s0 s. (nstep ex_lib (\<lambda>_ _ _. False) False)\<^sup>*\<^sup>* (StartReceiving True s0) s \<and> r_pc s = R_recv \<and> p_pc s = P_pred \<and>
     length (data_queue s) \<le> opt_max_queue_size (config (net_w s0)) \<and>
     pushed s = map snd (left s) @ data_queue s \<and>
     messages_dropped (stats (net_w s)) = of_nat (length (filter (\<lambda>x. \<not> fst x) (left s))) \<and>
     base_data s = concat (worked_on s) \<and> delivered s @ due s = blocks_of (concat (worked_on s))"
proof -
  let ?init = "ex_sys (ex_connected False [])"
  let ?s = "(StartReceiving True ?init)\<lparr>p_pc := P_pred, r_pc := R_recv\<rparr>"
  have "opt_max_queue_size ex_options = 1024" "opt_max_buffer_size ex_options = 8388608"
    by (simp_all add: ex_options_def LoadConfig_def Options_default_def)
  then have "length (data_queue ?s) \<le> opt_max_queue_size (config (net_w ?init)) \<and>
      pushed ?s = map snd (left ?s) @ data_queue ?s \<and>
      (in_loop (r_pc ?s) \<longrightarrow> messages_dropped (stats (net_w ?s)) = of_nat (length (filter (\<lambda>x. \<not> fst x) (left ?s)))) \<and>
      map snd (filter fst (left ?s)) = worked_on ?s @ in_hand ?s \<and>
      base_data ?s = (if True then concat (worked_on ?s) else []) \<and>
      prefix (delivered ?s) (blocks_of (concat (worked_on ?s))) \<and>
      (receiving ?s \<longrightarrow> delivered ?s @ due ?s = blocks_of (concat (worked_on ?s)))"
    by (intro receiving_pipeline [OF _ _ ex_first_steps]) simp_all
  moreover have "r_pc ?s = R_recv" "p_pc ?s = P_pred" "receiving ?s" by (simp_all add: StartReceiving_def clock_read_def Let_def)
  ultimately show ?thesis using ex_first_steps [of ex_lib "\<lambda>_ _ _. False" False False "[]"] by (intro exI [of _ ?init] exI [of _ ?s]) simp
qed

section \<open>Stopping\<close>

text \<open>Threads that were joined have ended, and the recording is closed.\<close>

definition joined_inv :: "nsys \<Rightarrow> bool" where
  "joined_inv s \<longleftrightarrow> (handles s \<or> (r_pc s = R_end \<and> p_pc s = P_end \<and> \<not> base_open s)) \<and>
     (u_pc s = U_run \<longrightarrow> handles s) \<and> (u_pc s \<in> {U_notify, U_join} \<longrightarrow> handles s \<and> \<not> receiving s)"

lemma nstep_joined: "nstep X cb sp s s' \<Longrightarrow> joined_inv s \<Longrightarrow> joined_inv s'"
proof (induction rule: nstep.induct)
  case (r_give_up s a b)
  then show ?case using give_up_receiving [of a s] by (auto simp: joined_inv_def step_fields)
next
  case (r_slept_stop s a b)
  then show ?case using give_up_receiving [of a s] by (auto simp: joined_inv_def step_fields)
next
  case (r_push s bs)
  then show ?case by (auto simp: joined_inv_def push_chunk_def Let_def)
next
  case (p_work s bs)
  then show ?case by (auto simp: joined_inv_def process_chunk_def case_prod_beta Let_def)
qed (auto simp: joined_inv_def wake_def)

text \<open>
  A stop that returns has stopped. In every reachable state in which the owner has joined the threads, both
  have ended, the recording is closed, and receiving is off; the flag is never set again.
\<close>

theorem stop_joins_threads:
  assumes "connected (net_w s0)" and "\<not> receiving s0" and "u_pc s0 = U_run"
    and "(nstep X cb spurious)\<^sup>*\<^sup>* (StartReceiving open_ok s0) s" and "(nstep X cb spurious)\<^sup>*\<^sup>* s t"
  shows "(handles s \<or> (r_pc s = R_end \<and> p_pc s = P_end \<and> \<not> base_open s)) \<and> (\<not> receiving s \<longrightarrow> \<not> receiving t)"
proof -
  have "joined_inv (StartReceiving open_ok s0)"
    using assms(1-3) by (simp add: StartReceiving_def clock_read_def joined_inv_def Let_def)
  with assms(4) have "joined_inv s" by (induction rule: rtranclp_induct) (auto dest: nstep_joined)
  moreover have off: "\<not> receiving u'" if "nstep X cb spurious u u'" "\<not> receiving u" for u u'
    using that
  proof (induction rule: nstep.induct)
    case (r_give_up s a b)
    then show ?case using give_up_receiving by blast
  next
    case (r_slept_stop s a b)
    then show ?case using give_up_receiving by blast
  qed (auto simp: push_chunk_fields process_chunk_fields)
  have "\<not> receiving s \<longrightarrow> \<not> receiving t"
    using assms(5) by (induction rule: rtranclp_induct) (use off in auto)
  ultimately show ?thesis by (simp add: joined_inv_def)
qed

theorem stop_joins_threads_witness:
  "let s = (StartReceiving True (ex_sys (ex_connected False [])))\<lparr>p_pc := P_pred, r_pc := R_recv\<rparr> in
     (handles s \<or> (r_pc s = R_end \<and> p_pc s = P_end \<and> \<not> base_open s)) \<and> (receiving s \<or> \<not> receiving s)"
  unfolding Let_def
  using stop_joins_threads [OF _ _ _ ex_first_steps [of ex_lib "\<lambda>_ _ _. False" False False "[]"] rtranclp.rtrancl_refl] by simp

text \<open>A state in which the owner waits for a thread that waits for a notification.\<close>

lemma hung: "r_pc s = R_end \<Longrightarrow> p_pc s = P_asleep \<Longrightarrow> u_pc s = U_join \<Longrightarrow> \<not> nstep X cb False s s'"
  by (auto elim: nstep.cases)

text \<open>
  C37: stopping can hang. \<open>StopReceiving\<close> clears the flag and notifies without holding \<open>queue_mutex_\<close>. When the
  processing thread has found its predicate false and is about to sleep, it misses the notification: from
  every start with an empty queue the threads can reach a state in which the owner is in \<open>join\<close>, the
  processing thread sleeps, and no thread has a step left.
\<close>

theorem stop_receiving_can_hang:
  assumes "connected (net_w s0)" and "\<not> receiving s0" and "u_pc s0 = U_run" and "pending_data (net_w s0) = []"
    and "\<not> disconnected (net_w s0)"
  shows "\<exists>s. (nstep X cb False)\<^sup>*\<^sup>* (StartReceiving open_ok s0) s \<and> u_pc s = U_join \<and> (\<forall>s'. \<not> nstep X cb False s s')"
proof -
  define s where "s = StartReceiving open_ok s0"
  have f: "p_pc s = P_head" "r_pc s = R_head" "u_pc s = U_run" "receiving s" "data_queue s = []" "\<not> disconnected (net_w s)"
    using assms by (simp_all add: s_def StartReceiving_def clock_read_def Let_def)
  define s1 where "s1 = s\<lparr>p_pc := P_pred\<rparr>"
  define s2 where "s2 = s1\<lparr>p_pc := P_block\<rparr>"
  define s3 where "s3 = s2\<lparr>net_w := (net_w s2)\<lparr>disconnected := True\<rparr>, receiving := False, u_pc := U_notify\<rparr>"
  define s4 where "s4 = s3\<lparr>p_pc := wake (p_pc s3), u_pc := U_join\<rparr>"
  define s5 where "s5 = s4\<lparr>p_pc := P_asleep\<rparr>"
  define s6 where "s6 = s5\<lparr>r_pc := R_end\<rparr>"
  have 1: "nstep X cb False s s1" using nstep.p_head [of s X cb False] f by (simp add: s1_def)
  have 2: "nstep X cb False s1 s2" using nstep.p_pred [of s1 X cb False] f by (simp add: s1_def s2_def)
  have 3: "nstep X cb False s2 s3" using nstep.u_stop [of s2 X cb False] f by (simp add: s1_def s2_def s3_def)
  have 4: "nstep X cb False s3 s4" using nstep.u_notify [of s3 X cb False] by (simp add: s3_def s4_def)
  have "p_pc s4 = P_block" by (simp add: s4_def s3_def s2_def wake_def)
  then have 5: "nstep X cb False s4 s5" using nstep.p_sleep [of s4 X cb False] by (simp add: s5_def)
  have 6: "nstep X cb False s5 s6"
    using nstep.r_stop [of s5 X cb False] f by (simp add: s1_def s2_def s3_def s4_def s5_def s6_def)
  note step = converse_rtranclp_into_rtranclp [where r = "nstep X cb False"]
  have "(nstep X cb False)\<^sup>*\<^sup>* s s6"
    by (rule step [OF 1 step [OF 2 step [OF 3 step [OF 4 step [OF 5 step [OF 6 rtranclp.rtrancl_refl]]]]]])
  moreover have "u_pc s6 = U_join" "r_pc s6 = R_end" "p_pc s6 = P_asleep" by (simp_all add: s4_def s5_def s6_def)
  ultimately show ?thesis using hung unfolding s_def by blast
qed

theorem stop_receiving_can_hang_witness:
  "\<exists>s. (nstep ex_lib (\<lambda>_ _ _. False) False)\<^sup>*\<^sup>*
      (StartReceiving True (ex_sys ((ex_connected False [])\<lparr>pending_data := []\<rparr>))) s \<and> u_pc s = U_join \<and>
     (\<forall>s'. \<not> nstep ex_lib (\<lambda>_ _ _. False) False s s')"
  by (rule stop_receiving_can_hang) simp_all

section \<open>After a reconnection\<close>

lemma process_chunk_recvs: "e_recvs (net_w (process_chunk bs s)) = e_recvs (net_w s)"
  by (simp add: process_chunk_def case_prod_beta Let_def)

lemma Connect_connected: "Connect X w = (Done True, w') \<Longrightarrow> \<not> connected w \<Longrightarrow> connected w'"
  by (elim Connect_steps) (simp_all add: reset_statistics_def clock_read_def)

text \<open>A receiving thread that has ended takes nothing from the network any more.\<close>

lemma nstep_ended:
  assumes "nstep X cb sp s s'" and "r_pc s = R_end"
  shows "r_pc s' = R_end \<and> pushed s' = pushed s \<and> e_recvs (net_w s') = e_recvs (net_w s)"
  using assms
proof (induction rule: nstep.induct)
  case (u_close s)
  then show ?case by (simp add: CloseConnection_def os_close_def Let_def)
qed (simp_all add: process_chunk_fields process_chunk_recvs)

text \<open>
  A successful reconnection is not used. When an attempt of the receiving thread to reconnect
  succeeds, its next step leaves the loop: the client is connected and says it is receiving, but whatever
  happens from then on, no byte is taken from the new connection and nothing is queued.
\<close>

theorem reconnected_but_deaf:
  assumes "r_pc s = R_slept a c" and "receiving s" and "Connect X (CloseConnection (net_w s)) = (Done True, w)"
  shows "\<exists>t. nstep X cb spurious s t \<and> connected (net_w t) \<and> receiving t \<and>
     (\<forall>u. (nstep X cb spurious)\<^sup>*\<^sup>* t u \<longrightarrow> pushed u = pushed t \<and> e_recvs (net_w u) = e_recvs (net_w t))"
proof -
  let ?t = "s\<lparr>net_w := w, r_pc := R_end\<rparr>"
  have "\<not> connected (CloseConnection (net_w s))" by (simp add: CloseConnection_def os_close_def Let_def)
  then have "connected w" using assms(3) Connect_connected by blast
  moreover have "nstep X cb spurious s ?t" by (rule nstep.r_connected [OF assms])
  moreover have "r_pc u = R_end \<and> pushed u = pushed ?t \<and> e_recvs (net_w u) = e_recvs (net_w ?t)"
    if "(nstep X cb spurious)\<^sup>*\<^sup>* ?t u" for u
    using that
  proof (induction rule: rtranclp_induct)
    case (step y z)
    then show ?case using nstep_ended [OF step(2)] by simp
  qed simp
  ultimately show ?thesis using assms(2) by (intro exI [of _ ?t]) simp
qed

lemma ex_reconnects:
  "\<exists>w. Connect ex_lib (CloseConnection (net_w ((ex_sys (ex_answered []))\<lparr>receiving := True, r_pc := R_slept 1 5\<rparr>))) = (Done True, w)"
proof -
  have "CloseConnection (ex_answered []) = ex_answered []"
    by (simp add: CloseConnection_def ex_answered_def ex_client_def Let_def)
  then show ?thesis using ex_connects [of "[]"] by auto
qed

theorem reconnected_but_deaf_witness:
  "\<exists>t. nstep ex_lib (\<lambda>_ _ _. False) True ((ex_sys (ex_answered []))\<lparr>receiving := True, r_pc := R_slept 1 5\<rparr>) t \<and>
     connected (net_w t) \<and> receiving t \<and>
     (\<forall>u. (nstep ex_lib (\<lambda>_ _ _. False) True)\<^sup>*\<^sup>* t u \<longrightarrow> pushed u = pushed t \<and> e_recvs (net_w u) = e_recvs (net_w t))"
proof -
  obtain w where "Connect ex_lib (CloseConnection (net_w ((ex_sys (ex_answered []))\<lparr>receiving := True, r_pc := R_slept 1 5\<rparr>))) =
      (Done True, w)"
    using ex_reconnects by blast
  then show ?thesis by (intro reconnected_but_deaf [where a = 1 and c = 5]) simp_all
qed

text \<open>A client whose receiving thread has caught an exception: the flag is off, the threads were not joined.\<close>

definition abandoned :: "nsys \<Rightarrow> bool" where
  "abandoned s \<longleftrightarrow> handles s \<and> \<not> receiving s \<and> r_pc s = R_end \<and> u_pc s \<in> {U_run, U_close, U_done, U_terminated}"

lemma nstep_abandoned: "nstep X cb sp s s' \<Longrightarrow> abandoned s \<Longrightarrow> abandoned s'"
  by (induction rule: nstep.induct) (auto simp: abandoned_def step_fields)

lemma abandoned_terminates:
  assumes "abandoned s" and "u_pc s = U_run"
  shows "\<exists>t. (nstep X cb sp)\<^sup>*\<^sup>* s t \<and> u_pc t = U_terminated"
proof -
  let ?n = "nstep X cb sp"
  obtain s1 where s1: "?n\<^sup>*\<^sup>* s s1" "u_pc s1 = U_done" "handles s1"
  proof (cases "disconnected (net_w s)")
    case True
    have "?n s (s\<lparr>u_pc := U_done\<rparr>)" using assms(2) True by (rule nstep.u_return)
    then have "?n\<^sup>*\<^sup>* s (s\<lparr>u_pc := U_done\<rparr>)" by (rule r_into_rtranclp)
    then show thesis by (rule that) (use assms(1) in \<open>simp_all add: abandoned_def\<close>)
  next
    case False
    let ?u = "stop_signal s"
    have 1: "?n s ?u" using assms(2) False by (rule nstep.u_stop)
    have "u_pc ?u = U_close" using assms(1) by (simp add: abandoned_def)
    then have 2: "?n ?u (disconnect_close ?u)" by (rule nstep.u_close)
    have "?n\<^sup>*\<^sup>* s (disconnect_close ?u)" using 1 2 by (meson rtranclp.rtrancl_into_rtrancl rtranclp.rtrancl_refl)
    then show thesis by (rule that) (use assms(1) in \<open>simp_all add: abandoned_def\<close>)
  qed
  have "?n s1 (s1\<lparr>u_pc := U_terminated\<rparr>)" using nstep.u_destroy [OF s1(2), of X cb sp] s1(3) by simp
  with s1(1) show ?thesis by (intro exI [of _ "s1\<lparr>u_pc := U_terminated\<rparr>"]) simp
qed

text \<open>
  C40: after a connection reset with RTK required, destroying the client terminates the process. Whenever the owner has
  not begun to stop, the receiving thread is about to read, RTK is required, the connection is a plain one and the next
  read fails with an error that is not a time-out (here number 104, a reset): the thread throws; its handler clears the
  flag and the thread ends without being joined. From then on, whatever the threads and the owner do, the client is never
  destroyed properly: \<open>Disconnect\<close> finds nothing to stop, and its destructor calls \<open>std::terminate\<close>, which the owner
  reaches by disconnecting and destroying the client.
\<close>

theorem destructor_can_terminate:
  assumes "connected (net_w s0)" and "\<not> receiving s0" and "u_pc s0 = U_run"
    and "(nstep X cb spurious)\<^sup>*\<^sup>* (StartReceiving opened s0) s" and "u_pc s = U_run" and "r_pc s = R_recv"
    and "opt_enable_rtk (config (net_w s))" and "\<not> ssl (net_w s)" and "e_recvs (net_w s) = Recv_err 104 # rs"
  shows "\<exists>s1 s2. nstep X cb spurious s s1 \<and> r_pc s1 = R_throw \<and>
     nstep X cb spurious s1 s2 \<and> r_pc s2 = R_end \<and> \<not> receiving s2 \<and> handles s2 \<and>
     (\<exists>t. (nstep X cb spurious)\<^sup>*\<^sup>* s2 t \<and> u_pc t = U_terminated) \<and>
     (\<forall>t. (nstep X cb spurious)\<^sup>*\<^sup>* s2 t \<longrightarrow> u_pc t \<noteq> U_destroyed \<and> u_pc t \<noteq> U_join \<and> handles t)"
proof -
  let ?n = "nstep X cb spurious"
  let ?s1 = "s\<lparr>net_w := (net_w s)\<lparr>e_recvs := rs\<rparr>, r_pc := R_throw\<rparr>"
  let ?s2 = "?s1\<lparr>net_w := (net_w ?s1)\<lparr>connected := False\<rparr>, receiving := False, p_pc := wake (p_pc ?s1), r_pc := R_end\<rparr>"
  have "joined_inv (StartReceiving opened s0)"
    using assms(1-3) by (simp add: StartReceiving_def clock_read_def joined_inv_def Let_def)
  with assms(4) have "joined_inv s" by (induction rule: rtranclp_induct) (auto dest: nstep_joined)
  then have h: "handles s" using assms(5) by (simp add: joined_inv_def)
  have "ReceiveData 65536 (net_w s) = (Throw (Socket_recv_error 104), (net_w s)\<lparr>e_recvs := rs\<rparr>)"
    using assms(7-9) by (simp add: ReceiveData_def fail_with_def LogErrorOrWarn_def)
  then have 1: "?n s ?s1" by (rule nstep.r_recv_throw [OF assms(6)])
  have 2: "?n ?s1 ?s2" by (rule nstep.r_catch) simp
  have ab: "abandoned ?s2" "u_pc ?s2 = U_run" using h assms(5) by (simp_all add: abandoned_def)
  have "abandoned t" if "?n\<^sup>*\<^sup>* ?s2 t" for t
    using that ab(1) by (induction rule: rtranclp_induct) (auto dest: nstep_abandoned)
  then have "u_pc t \<noteq> U_destroyed \<and> u_pc t \<noteq> U_join \<and> handles t" if "?n\<^sup>*\<^sup>* ?s2 t" for t
    using that by (fastforce simp: abandoned_def)
  with 1 2 ab(1) abandoned_terminates [OF ab] show ?thesis
    by (intro exI [of _ ?s1] exI [of _ ?s2]) (simp add: abandoned_def)
qed

theorem destructor_can_terminate_witness:
  "\<exists>s s1 s2. (nstep ex_lib (\<lambda>_ _ _. False) False)\<^sup>*\<^sup>* (StartReceiving True (ex_sys (ex_connected True [Recv_err 104]))) s \<and>
     nstep ex_lib (\<lambda>_ _ _. False) False s s1 \<and> r_pc s1 = R_throw \<and>
     nstep ex_lib (\<lambda>_ _ _. False) False s1 s2 \<and> \<not> receiving s2 \<and> handles s2 \<and>
     (\<exists>t. (nstep ex_lib (\<lambda>_ _ _. False) False)\<^sup>*\<^sup>* s2 t \<and> u_pc t = U_terminated)"
proof -
  let ?init = "ex_sys (ex_connected True [Recv_err 104])"
  let ?s = "(StartReceiving True ?init)\<lparr>p_pc := P_pred, r_pc := R_recv\<rparr>"
  have f: "u_pc ?s = U_run" "r_pc ?s = R_recv" "opt_enable_rtk (config (net_w ?s))" "\<not> ssl (net_w ?s)"
      "e_recvs (net_w ?s) = Recv_err 104 # []"
    by (simp_all add: StartReceiving_def clock_read_def Let_def)
  have i: "connected (net_w ?init)" "\<not> receiving ?init" "u_pc ?init = U_run" by simp_all
  show ?thesis
    using destructor_can_terminate [OF i ex_first_steps f] ex_first_steps by blast
qed

end
