(* ===== verification/NtripProgress.thy ===== *)
theory NtripProgress
  imports NtripThreadsProps
begin

text \<open>
  Progress of the receiving pipeline: data that is queued is never forgotten while the client receives. The
  processing thread sleeps over a queue with data only while the notification for it is on its way, and from
  every reachable state the queue can be emptied and all its messages delivered. The lost notification of a
  stop has no counterpart for data, because chunks are pushed under the mutex.
\<close>

section \<open>No notification for data is lost\<close>

definition wake_inv :: "nsys \<Rightarrow> bool" where
  "wake_inv s \<longleftrightarrow> receiving s \<longrightarrow>
     p_pc s \<noteq> P_end \<and> (p_pc s = P_take \<longrightarrow> data_queue s \<noteq> []) \<and> (p_pc s = P_block \<longrightarrow> data_queue s = []) \<and>
     (p_pc s = P_asleep \<longrightarrow> data_queue s = [] \<or> r_pc s = R_notify)"

lemma wake_pcs [simp]:
  "wake P_asleep = P_pred" "wake p \<noteq> P_asleep" "wake p = P_end \<longleftrightarrow> p = P_end" "wake p = P_take \<longleftrightarrow> p = P_take"
  "wake p = P_block \<longleftrightarrow> p = P_block"
  by (auto simp: wake_def)

lemma nstep_wake: "nstep X cb sp s s' \<Longrightarrow> wake_inv s \<Longrightarrow> wake_inv s'"
proof (induction rule: nstep.induct)
  case (r_push s bs)
  then show ?case by (auto simp: wake_inv_def queue_locked_def push_chunk_fields)
next
  case (r_notify s)
  then show ?case by (cases "p_pc s = P_asleep") (auto simp: wake_inv_def)
next
  case (r_give_up s a b)
  then show ?case using give_up_receiving [of a s] by (auto simp: wake_inv_def step_fields)
next
  case (r_slept_stop s a b)
  then show ?case using give_up_receiving [of a s] by (auto simp: wake_inv_def step_fields)
next
  case (p_work s bs)
  then show ?case by (auto simp: wake_inv_def process_chunk_def case_prod_beta Let_def)
qed (auto simp: wake_inv_def)

section \<open>The processing thread alone\<close>

definition callbacks_return :: "((cb \<times> byte list) list \<Rightarrow> cb \<Rightarrow> byte list \<Rightarrow> bool) \<Rightarrow> bool" where
  "callbacks_return throws \<longleftrightarrow> (\<forall>h f m. \<not> throws h f m)"

lemma deliver_run:
  assumes "callbacks_return cb" and "receiving s" and "p_pc s = P_deliver d f ms"
  shows "\<exists>h. (nstep X cb sp)\<^sup>*\<^sup>* s (s\<lparr>calls := h, delivered := delivered s @ ms, p_pc := P_head\<rparr>)"
  using assms(2,3)
proof (induction ms arbitrary: s)
  case Nil
  then have "nstep X cb sp s (s\<lparr>p_pc := P_head\<rparr>)" by (intro nstep.p_next)
  then show ?case by (intro exI [of _ "calls s"]) (simp add: r_into_rtranclp)
next
  case (Cons m ms)
  obtain h where h: "deliver_message cb d f m (calls s) = (False, h)"
    using assms(1) by (cases d; cases f) (auto simp: deliver_message_def callbacks_return_def)
  let ?s = "s\<lparr>calls := h, delivered := delivered s @ [m], p_pc := P_deliver d f ms\<rparr>"
  have "nstep X cb sp s ?s" using Cons.prems h by (intro nstep.p_deliver)
  moreover obtain h' where "(nstep X cb sp)\<^sup>*\<^sup>* ?s (?s\<lparr>calls := h', delivered := delivered ?s @ ms, p_pc := P_head\<rparr>)"
    using Cons.IH [of ?s] Cons.prems by auto
  ultimately have "(nstep X cb sp)\<^sup>*\<^sup>* s (s\<lparr>calls := h', delivered := delivered s @ m # ms, p_pc := P_head\<rparr>)"
    by (simp add: converse_rtranclp_into_rtranclp)
  then show ?case by blast
qed

text \<open>The processing thread has come to rest, and nothing was received meanwhile.\<close>

definition drained :: "nsys \<Rightarrow> nsys \<Rightarrow> bool" where
  "drained s t \<longleftrightarrow> receiving t \<and> data_queue t = [] \<and> p_pc t = P_asleep \<and> pushed t = pushed s"

lemma work_run:
  assumes "callbacks_return cb" and "receiving s" and "p_pc s = P_work bs"
  shows "\<exists>t. (nstep X cb sp)\<^sup>*\<^sup>* s t \<and> receiving t \<and> p_pc t = P_pred \<and> data_queue t = data_queue s \<and> pushed t = pushed s"
proof -
  let ?s = "process_chunk bs s"
  have 1: "nstep X cb sp s ?s" using assms(3) by (rule nstep.p_work)
  obtain d f ms where "p_pc ?s = P_deliver d f ms" by (simp add: process_chunk_def case_prod_beta Let_def)
  then obtain h where 2: "(nstep X cb sp)\<^sup>*\<^sup>* ?s (?s\<lparr>calls := h, delivered := delivered ?s @ ms, p_pc := P_head\<rparr>)"
    using deliver_run [OF assms(1), of ?s d f ms X sp] assms(2) by (auto simp: step_fields)
  let ?t = "?s\<lparr>calls := h, delivered := delivered ?s @ ms, p_pc := P_head\<rparr>"
  have "nstep X cb sp ?t (?t\<lparr>p_pc := P_pred\<rparr>)"
    using nstep.p_head [of ?t X cb sp] assms(2) by (simp add: step_fields)
  with 1 2 have "(nstep X cb sp)\<^sup>*\<^sup>* s (?t\<lparr>p_pc := P_pred\<rparr>)"
    by (meson converse_rtranclp_into_rtranclp rtranclp.rtrancl_into_rtrancl)
  then show ?thesis using assms(2) by (intro exI [of _ "?t\<lparr>p_pc := P_pred\<rparr>"]) (simp add: step_fields)
qed

lemma take_run:
  assumes "callbacks_return cb" and "receiving s" and "p_pc s = P_take" and "data_queue s = bs # q"
  shows "\<exists>t. (nstep X cb sp)\<^sup>*\<^sup>* s t \<and> receiving t \<and> p_pc t = P_pred \<and> data_queue t = q \<and> pushed t = pushed s"
proof -
  let ?s = "s\<lparr>data_queue := q, left := left s @ [(True, bs)], p_pc := P_work bs\<rparr>"
  have 1: "nstep X cb sp s ?s" using assms(3,4) by (rule nstep.p_take)
  obtain t where t: "(nstep X cb sp)\<^sup>*\<^sup>* ?s t" "receiving t" "p_pc t = P_pred" "data_queue t = q" "pushed t = pushed s"
    using work_run [OF assms(1), of ?s bs X sp] assms(2) by auto
  then show ?thesis using converse_rtranclp_into_rtranclp [of "nstep X cb sp", OF 1 t(1)] by blast
qed

lemma drain_run:
  assumes "callbacks_return cb" and "receiving s" and "p_pc s = P_pred"
  shows "\<exists>t. (nstep X cb sp)\<^sup>*\<^sup>* s t \<and> drained s t"
  using assms(2,3)
proof (induction "data_queue s" arbitrary: s)
  case Nil
  let ?s = "s\<lparr>p_pc := P_block\<rparr>"
  have "nstep X cb sp s ?s" using nstep.p_pred [of s X cb sp] Nil by simp
  moreover have "nstep X cb sp ?s (?s\<lparr>p_pc := P_asleep\<rparr>)" by (intro nstep.p_sleep) simp
  ultimately have "(nstep X cb sp)\<^sup>*\<^sup>* s (s\<lparr>p_pc := P_asleep\<rparr>)" by (simp add: converse_rtranclp_into_rtranclp)
  with Nil show ?case by (intro exI [of _ "s\<lparr>p_pc := P_asleep\<rparr>"]) (simp add: drained_def)
next
  case (Cons bs q)
  let ?s = "s\<lparr>p_pc := P_take\<rparr>"
  have dq: "data_queue s = bs # q" using Cons.hyps(2) by simp
  have 1: "nstep X cb sp s ?s" using nstep.p_pred [of s X cb sp] dq Cons.prems(2) by simp
  obtain u where u: "(nstep X cb sp)\<^sup>*\<^sup>* ?s u" "receiving u" "p_pc u = P_pred" "data_queue u = q" "pushed u = pushed s"
    using take_run [OF assms(1), of ?s bs q] Cons.prems dq by auto
  then obtain t where t: "(nstep X cb sp)\<^sup>*\<^sup>* u t" "drained u t" using Cons.hyps(1) [of u] by auto
  have "(nstep X cb sp)\<^sup>*\<^sup>* s t" using 1 u(1) t(1) by (meson converse_rtranclp_into_rtranclp rtranclp_trans)
  moreover have "drained s t" using t(2) u(5) by (simp add: drained_def)
  ultimately show ?case by blast
qed

text \<open>Where the processing thread may be, while the client receives.\<close>

lemma pending_run:
  assumes "callbacks_return cb" and "receiving s" and "wake_inv s"
  shows "(p_pc s = P_asleep \<and> data_queue s = []) \<or>
     (\<exists>t. (nstep X cb sp)\<^sup>*\<^sup>* s t \<and> receiving t \<and> (p_pc t = P_pred \<or> p_pc t = P_asleep \<and> data_queue t = []) \<and> pushed t = pushed s)"
proof (cases "p_pc s")
  case P_head
  then have "nstep X cb sp s (s\<lparr>p_pc := P_pred\<rparr>)" using nstep.p_head [of s X cb sp] assms(2) by simp
  then show ?thesis using assms(2) by (intro disjI2 exI [of _ "s\<lparr>p_pc := P_pred\<rparr>"]) (simp add: r_into_rtranclp)
next
  case P_pred
  then show ?thesis using assms(2) by blast
next
  case P_block
  then have "nstep X cb sp s (s\<lparr>p_pc := P_asleep\<rparr>)" by (rule nstep.p_sleep)
  with P_block assms(2,3) show ?thesis
    by (intro disjI2 exI [of _ "s\<lparr>p_pc := P_asleep\<rparr>"]) (simp add: wake_inv_def r_into_rtranclp)
next
  case P_asleep
  show ?thesis
  proof (cases "data_queue s = []")
    case False
    then have "r_pc s = R_notify" using assms(2,3) P_asleep by (simp add: wake_inv_def)
    then have "nstep X cb sp s (s\<lparr>p_pc := wake (p_pc s), r_pc := R_head\<rparr>)" by (rule nstep.r_notify)
    with P_asleep assms(2) show ?thesis
      by (intro disjI2 exI [of _ "s\<lparr>p_pc := P_pred, r_pc := R_head\<rparr>"]) (simp add: r_into_rtranclp)
  qed (simp add: P_asleep)
next
  case P_take
  with assms(2,3) obtain bs q where "data_queue s = bs # q" by (cases "data_queue s") (auto simp: wake_inv_def)
  then show ?thesis using take_run [OF assms(1,2) P_take] by blast
next
  case (P_work bs)
  then show ?thesis using work_run [OF assms(1,2)] by blast
next
  case (P_deliver d f ms)
  then obtain h where "(nstep X cb sp)\<^sup>*\<^sup>* s (s\<lparr>calls := h, delivered := delivered s @ ms, p_pc := P_head\<rparr>)"
    using deliver_run [OF assms(1,2)] by blast
  moreover have "nstep X cb sp (s\<lparr>calls := h, delivered := delivered s @ ms, p_pc := P_head\<rparr>)
      (s\<lparr>calls := h, delivered := delivered s @ ms, p_pc := P_pred\<rparr>)"
    using nstep.p_head [of "s\<lparr>calls := h, delivered := delivered s @ ms, p_pc := P_head\<rparr>" X cb sp] assms(2) by simp
  ultimately have "(nstep X cb sp)\<^sup>*\<^sup>* s (s\<lparr>calls := h, delivered := delivered s @ ms, p_pc := P_pred\<rparr>)"
    by (rule rtranclp.rtrancl_into_rtrancl)
  then show ?thesis
    using assms(2) by (intro disjI2 exI [of _ "s\<lparr>calls := h, delivered := delivered s @ ms, p_pc := P_pred\<rparr>"]) simp
next
  case P_end
  then show ?thesis using assms(2,3) by (simp add: wake_inv_def)
qed

text \<open>
  Data is never stuck. In every state that the threads can reach while the client receives, with callbacks that
  return, the pipeline can be run empty from there: a state can be reached in which nothing more was received, every
  chunk ever received has left the queue, and exactly the 1024-byte blocks of the chunks processed were delivered.
\<close>

theorem queue_drains:
  assumes "connected (net_w s0)" and "\<not> receiving s0" and "(nstep X cb spurious)\<^sup>*\<^sup>* (StartReceiving True s0) s"
    and "0 < opt_max_queue_size (config (net_w s0))" and "66560 \<le> opt_max_buffer_size (config (net_w s0))"
    and "length (pending_data (net_w s0)) \<le> 65536" and "messages_dropped (stats (net_w s0)) = 0"
    and "callbacks_return cb" and "receiving s"
  shows "\<exists>t. (nstep X cb spurious)\<^sup>*\<^sup>* s t \<and> receiving t \<and> data_queue t = [] \<and> pushed t = pushed s \<and>
     map snd (left t) = pushed t \<and> base_data t = concat (processed t) \<and> delivered t = blocks_of (concat (processed t))"
proof -
  have "wake_inv (StartReceiving True s0)"
    using assms(1,2) by (simp add: StartReceiving_def clock_read_def wake_inv_def Let_def)
  with assms(3) have "wake_inv s" by (induction rule: rtranclp_induct) (auto dest: nstep_wake)
  then obtain u where u: "(nstep X cb spurious)\<^sup>*\<^sup>* s u" "receiving u" "pushed u = pushed s"
      "p_pc u = P_pred \<or> p_pc u = P_asleep \<and> data_queue u = []"
    using pending_run [OF assms(8,9), where X = X and sp = spurious] assms(9) by blast
  have "\<exists>t. (nstep X cb spurious)\<^sup>*\<^sup>* u t \<and> drained u t"
  proof (cases "p_pc u = P_pred")
    case True
    then show ?thesis by (rule drain_run [OF assms(8) u(2)])
  next
    case False
    then show ?thesis using u(2,4) by (intro exI [of _ u]) (simp add: drained_def)
  qed
  then obtain t where t: "(nstep X cb spurious)\<^sup>*\<^sup>* s t" "drained s t"
    using rtranclp_trans [OF u(1)] u(3) by (auto simp: drained_def)
  have "(nstep X cb spurious)\<^sup>*\<^sup>* (StartReceiving True s0) t" using assms(3) t(1) by (rule rtranclp_trans)
  note inv = reachable_invariants [OF assms(1,2) this assms(4-7)]
  then obtain dn where dn: "processed t = dn @ in_hand t" "base_data t = concat dn"
      "deliver_ok (p_pc t) (receiving t) (delivered t) (blocks_of (concat dn))"
    by (auto simp: proc_inv_def)
  with t inv show ?thesis
    by (intro exI [of _ t]) (auto simp: drained_def queue_inv_def deliver_ok_def in_hand_def)
qed

theorem queue_drains_witness:
  "\<exists>s t. (nstep ex_lib (\<lambda>_ _ _. False) False)\<^sup>*\<^sup>* s t \<and> data_queue s = [[0xD3]] \<and> receiving t \<and> data_queue t = [] \<and>
     pushed t = [[0xD3]] \<and> map snd (left t) = pushed t \<and> base_data t = concat (processed t) \<and>
     delivered t = blocks_of (concat (processed t))"
proof -
  let ?init = "ex_sys (ex_connected False [])"
  let ?s = "(StartReceiving True ?init)\<lparr>p_pc := P_pred, r_pc := R_recv\<rparr>"
  have "opt_max_queue_size ex_options = 1024" "opt_max_buffer_size ex_options = 8388608"
    by (simp_all add: ex_options_def LoadConfig_def Options_default_def)
  moreover have s: "receiving ?s" "data_queue ?s = [[0xD3]]" "pushed ?s = [[0xD3]]"
    by (simp_all add: StartReceiving_def clock_read_def Let_def)
  ultimately show ?thesis
    using queue_drains [OF _ _ ex_first_steps [of ex_lib "\<lambda>_ _ _. False" False False "[]"]]
    by (fastforce simp: callbacks_return_def)
qed

end
