(* ===== verification/NtripForward.thy ===== *)
theory NtripForward
  imports NtripProgress
begin

text \<open>
  The NTRIP client with a data callback installed: from the bytes that the caster sends to the calls of the callback.
\<close>

section \<open>From the network into the queue\<close>

definition holding :: "rpc \<Rightarrow> byte list" where
  "holding r = (case r of R_stats bs \<Rightarrow> bs | R_push bs \<Rightarrow> bs | _ \<Rightarrow> [])"

lemma holding_simps [simp]:
  "holding R_head = []" "holding R_gga = []" "holding R_recv = []" "holding (R_stats bs) = bs" "holding (R_push bs) = bs"
  "holding R_notify = []" "holding (R_lost e) = []"
  by (simp_all add: holding_def)

text \<open>On a plain connection, what was queued and what is still to come make up the stream.\<close>

definition stream_inv :: "byte list \<Rightarrow> nsys \<Rightarrow> bool" where
  "stream_inv st s \<longleftrightarrow> prefix (concat (pushed s)) st \<and>
     (in_loop (r_pc s) \<longrightarrow> \<not> ssl (net_w s) \<and> st = concat (pushed s) @ holding (r_pc s) @ rx_bytes (e_recvs (net_w s)))"

lemma SendData_recvs: "SendData p w = (r, w') \<Longrightarrow> e_recvs w' = e_recvs w \<and> ssl w' = ssl w"
  by (auto simp: SendData_def fail_with_def LogErrorOrWarn_def Let_def split: list.splits send_res.splits ssl_write_res.splits if_splits)

lemma SendGGA_recvs: "SendGGA w = (r, w') \<Longrightarrow> e_recvs w' = e_recvs w \<and> ssl w' = ssl w"
  by (auto simp: SendGGA_def clock_read_def bind_io_def Let_def dest!: SendData_recvs split: if_splits prod.splits io.splits)

lemma ReceiveData_stream:
  "ReceiveData k w = (Done r, w') \<Longrightarrow> \<not> ssl w \<Longrightarrow>
     \<not> ssl w' \<and> rx_bytes (e_recvs w) = (case r of Data bs \<Rightarrow> bs | _ \<Rightarrow> []) @ rx_bytes (e_recvs w')"
  by (auto simp: ReceiveData_def fail_with_def LogErrorOrWarn_def Let_def bind_io_def
      split: if_splits list.splits recv_res.splits)

lemma push_chunk_pushed: "pushed (push_chunk bs s) = pushed s @ [bs] \<and> net_w (push_chunk bs s) = 
    (if opt_max_queue_size (config (net_w s)) \<le> length (data_queue s) then count_dropped (net_w s) else net_w s)"
  by (simp add: push_chunk_def Let_def)

lemma process_chunk_net: "e_recvs (net_w (process_chunk bs s)) = e_recvs (net_w s) \<and> ssl (net_w (process_chunk bs s)) = ssl (net_w s)"
  by (simp add: process_chunk_def case_prod_beta Let_def)

lemma nstep_stream: "nstep X cb sp s s' \<Longrightarrow> stream_inv st s \<Longrightarrow> stream_inv st s'"
proof (induction rule: nstep.induct)
  case (r_push s bs)
  then show ?case by (auto simp: stream_inv_def push_chunk_pushed count_dropped_def)
next
  case (r_gga s w)
  then show ?case using SendGGA_recvs [OF r_gga(2)] by (auto simp: stream_inv_def)
next
  case (r_data s bs w)
  then show ?case using ReceiveData_stream [OF r_data(2)] by (auto simp: stream_inv_def)
next
  case (r_closed s w)
  then show ?case using ReceiveData_stream [OF r_closed(2)] by (auto simp: stream_inv_def)
next
  case (r_failed s e w)
  then show ?case using ReceiveData_stream [OF r_failed(2)] by (auto simp: stream_inv_def)
qed (auto simp: stream_inv_def step_fields process_chunk_net give_up_not_in_loop count_bytes_def clock_read_def
    CloseConnection_def os_close_def Let_def)

section \<open>From the queue to the data callback\<close>

text \<open>Steps that leave the data callback as it is.\<close>

definition fixed_step :: "ntrip_lib \<Rightarrow> ((cb \<times> byte list) list \<Rightarrow> cb \<Rightarrow> byte list \<Rightarrow> bool) \<Rightarrow> bool \<Rightarrow> nsys \<Rightarrow> nsys \<Rightarrow> bool" where
  "fixed_step X throws spurious s s' \<longleftrightarrow> nstep X throws spurious s s' \<and> data_callback s' = data_callback s"

definition given_to :: "nat \<Rightarrow> nsys \<Rightarrow> byte list list" where
  "given_to f s = map snd (filter (\<lambda>x. fst x = Data_cb f) (calls s))"

definition calls_inv :: "nat \<Rightarrow> nsys \<Rightarrow> bool" where
  "calls_inv f s \<longleftrightarrow> data_callback s = Some f \<and> (\<forall>d g ms. p_pc s = P_deliver d g ms \<longrightarrow> d = Some f) \<and>
     given_to f s = delivered s"

lemma deliver_message_calls:
  "deliver_message throws (Some f) g m h = (t, h') \<Longrightarrow>
     map snd (filter (\<lambda>x. fst x = Data_cb f) h') = map snd (filter (\<lambda>x. fst x = Data_cb f) h) @ [m]"
  by (cases g) (auto simp: deliver_message_def split: if_splits)

lemma wake_deliver [simp]: "wake p = P_deliver d g ms \<longleftrightarrow> p = P_deliver d g ms"
  by (auto simp: wake_def)

lemma push_give_up_calls:
  "calls (push_chunk bs s) = calls s" "data_callback (push_chunk bs s) = data_callback s"
  "calls (give_up a s) = calls s" "data_callback (give_up a s) = data_callback s"
  "calls (process_chunk bs s) = calls s" "data_callback (process_chunk bs s) = data_callback s"
  by (auto simp: push_chunk_def give_up_def process_chunk_def case_prod_beta Let_def split: io.splits prod.splits)

lemma fixed_step_calls: "nstep X cb sp s s' \<Longrightarrow> data_callback s' = data_callback s \<Longrightarrow> calls_inv f s \<Longrightarrow> calls_inv f s'"
proof (induction rule: nstep.induct)
  case (p_deliver s d g m ms h)
  then have "d = Some f" by (simp add: calls_inv_def)
  with p_deliver show ?case using deliver_message_calls by (auto simp: calls_inv_def given_to_def)
next
  case (p_catch s d g m ms h)
  then have "d = Some f" by (simp add: calls_inv_def)
  with p_catch show ?case using deliver_message_calls by (auto simp: calls_inv_def given_to_def)
next
  case (p_work s bs)
  then show ?case
    by (auto simp: calls_inv_def given_to_def push_give_up_calls step_fields) (simp add: process_chunk_def case_prod_beta Let_def)
qed (auto simp: calls_inv_def given_to_def push_give_up_calls step_fields)

section \<open>End to end\<close>

lemma fixed_steps_invariants:
  assumes "(fixed_step X cb sp)\<^sup>*\<^sup>* s t" and "stream_inv st s" and "calls_inv f s"
  shows "(nstep X cb sp)\<^sup>*\<^sup>* s t \<and> stream_inv st t \<and> calls_inv f t"
  using assms
proof (induction rule: rtranclp_induct)
  case (step y z)
  then have "nstep X cb sp y z" "data_callback z = data_callback y" by (simp_all add: fixed_step_def)
  with step show ?case
    using nstep_stream fixed_step_calls rtranclp.rtrancl_into_rtrancl [of "nstep X cb sp" s y z] by blast
qed simp

lemma blocks_prefix_lengths: "prefix ms (blocks_of xs) \<Longrightarrow> (\<forall>m \<in> set ms. length m = 1024) \<and> prefix (concat ms) xs"
proof -
  assume "prefix ms (blocks_of xs)"
  then obtain rest where ms: "blocks_of xs = ms @ rest" by (auto simp: prefix_def)
  have "\<forall>b \<in> set (blocks_of xs). length b = 1024" "concat (blocks_of xs) @ tail_of xs = xs" using blocks_laws [of xs] by blast+
  with ms have "\<forall>m \<in> set ms. length m = 1024" "xs = concat ms @ concat rest @ tail_of xs" by auto
  then show ?thesis unfolding prefix_def by blast
qed

lemma processed_of_queue:
  assumes "pushed s = map snd (left s) @ data_queue s"
  shows "subseq (processed s) (pushed s)" and "\<forall>x \<in> set (left s). fst x \<Longrightarrow> prefix (processed s) (pushed s)"
proof -
  have "subseq (map snd (filter fst (left s))) (map snd (left s))" by (intro subseq_map subseq_filter_left)
  then show "subseq (processed s) (pushed s)" using assms by (simp add: processed_def subseq_rev_drop_many)
  show "prefix (processed s) (pushed s)" if "\<forall>x \<in> set (left s). fst x"
    using that assms by (simp add: processed_def filter_True)
qed

text \<open>
  C10: corrections reach the data callback. A client that is connected without TLS, with a data callback installed that
  is not replaced later, starts to receive (with a queue for at least one chunk, a buffer limit of at least 66560 bytes,
  at most 65536 pending bytes, and no chunk counted as dropped). In every state that the threads can then reach, whatever
  the caster, the callbacks and the scheduler do: the messages that the callback was called with are a prefix of the
  1024-byte blocks of the chunks worked on, and as long as the client receives, the blocks it was not called with are
  those about to be delivered; the chunks worked on are chunks that were received, in order; the chunks received are, one
  after the other, a beginning of the stream, which is the pending bytes and then what the caster sends; and when no chunk
  was dropped, the messages are, one after the other, a beginning of the stream.
\<close>

theorem corrections_reach_callback:
  assumes "connected (net_w s0)" and "\<not> receiving s0" and "\<not> ssl (net_w s0)" and "data_callback s0 = Some f"
    and "(fixed_step X cb spurious)\<^sup>*\<^sup>* (StartReceiving opened s0) s"
    and "0 < opt_max_queue_size (config (net_w s0))" and "66560 \<le> opt_max_buffer_size (config (net_w s0))"
    and "length (pending_data (net_w s0)) \<le> 65536" and "messages_dropped (stats (net_w s0)) = 0"
  shows "prefix (given_to f s) (blocks_of (concat (worked_on s))) \<and>
     (receiving s \<longrightarrow> given_to f s @ due s = blocks_of (concat (worked_on s))) \<and>
     subseq (worked_on s) (pushed s) \<and>
     prefix (concat (pushed s)) (pending_data (net_w s0) @ rx_bytes (e_recvs (net_w s0))) \<and>
     ((\<forall>x \<in> set (left s). fst x) \<longrightarrow> prefix (concat (given_to f s)) (pending_data (net_w s0) @ rx_bytes (e_recvs (net_w s0))))"
proof -
  let ?st = "pending_data (net_w s0) @ rx_bytes (e_recvs (net_w s0))"
  have "stream_inv ?st (StartReceiving opened s0)" "calls_inv f (StartReceiving opened s0)"
    using assms(1-4) by (simp_all add: StartReceiving_def clock_read_def stream_inv_def calls_inv_def given_to_def Let_def)
  from fixed_steps_invariants [OF assms(5) this]
  have run: "(nstep X cb spurious)\<^sup>*\<^sup>* (StartReceiving opened s0) s" and st: "stream_inv ?st s" and calls: "given_to f s = delivered s"
    by (simp_all add: calls_inv_def)
  have q: "pushed s = map snd (left s) @ data_queue s" and p: "proc_inv opened s"
    using reachable_invariants [OF assms(1,2) run assms(6-9)] by (simp_all add: queue_inv_def)
  note w = proc_inv_worked [OF p]
  have pre: "prefix (concat (pushed s)) ?st" using st by (simp add: stream_inv_def)
  have ms: "prefix (concat (delivered s)) (concat (worked_on s))" using blocks_prefix_lengths [OF w(3)] by simp
  have "prefix (concat (delivered s)) ?st" if "\<forall>x \<in> set (left s). fst x"
    using ms pre w(1) processed_of_queue(2) [OF q that] by (auto simp: prefix_def)
  moreover have "subseq (worked_on s) (pushed s)"
    using w(1) processed_of_queue(1) [OF q] by (metis prefixI prefix_imp_subseq subseq_order.trans)
  ultimately show ?thesis using w(3,4) pre calls reachable_runs [OF assms(1,2) run] by auto
qed

text \<open>A run in which one message that came with the response is delivered.\<close>

definition ex_pending :: "byte list \<Rightarrow> nsys" where
  "ex_pending b = (ex_sys ((ex_connected False [])\<lparr>pending_data := b\<rparr>))\<lparr>data_callback := Some 3\<rparr>"

definition ex_sent :: "byte list \<Rightarrow> nsys" where
  "ex_sent b = (process_chunk b ((StartReceiving True (ex_pending b))\<lparr>data_queue := [], left := [(True, b)], p_pc := P_work b\<rparr>))
     \<lparr>calls := [(Data_cb 3, b)], delivered := [b], p_pc := P_deliver (Some 3) None []\<rparr>"

lemma ex_sent_steps:
  assumes "length b = 1024"
  shows "(fixed_step ex_lib (\<lambda>_ _ _. False) False)\<^sup>*\<^sup>* (StartReceiving True (ex_pending b)) (ex_sent b)"
proof -
  let ?n = "fixed_step ex_lib (\<lambda>_ _ _. False) False"
  let ?s = "StartReceiving True (ex_pending b)"
  define s1 where "s1 = ?s\<lparr>p_pc := P_pred\<rparr>"
  define s2 where "s2 = s1\<lparr>p_pc := P_take\<rparr>"
  define s3 where "s3 = s2\<lparr>data_queue := [], left := left s2 @ [(True, b)], p_pc := P_work b\<rparr>"
  define s4 where "s4 = process_chunk b s3"
  have b: "b \<noteq> []" "blocks_of b = [b]" "tail_of b = []"
    using assms blocks_front [of b "[]"] by (auto simp: blocks_step)
  have f: "p_pc ?s = P_head" "receiving ?s" "data_queue ?s = [b]" "data_callback ?s = Some 3" "message_callback ?s = None"
      "calls ?s = []" "delivered ?s = []" "left ?s = []" "rtcm_state ?s = ([], 0)" "opt_max_buffer_size (config (net_w ?s)) = 8388608"
    using b(1) by (simp_all add: StartReceiving_def clock_read_def ex_pending_def ex_sys_def ex_options_def LoadConfig_def Options_default_def Let_def)
  have "p_pc s4 = P_deliver (Some 3) None [b]"
    using f b ChunkRTCMData_fits [of "[]" b 8388608 0] assms by (simp add: s1_def s2_def s3_def s4_def process_chunk_def Let_def)
  then have "nstep ex_lib (\<lambda>_ _ _. False) False s4
      (s4\<lparr>calls := [(Data_cb 3, b)], delivered := delivered s4 @ [b], p_pc := P_deliver (Some 3) None []\<rparr>)"
    using f by (intro nstep.p_deliver) (simp_all add: s1_def s2_def s3_def s4_def step_fields push_give_up_calls deliver_message_def)
  moreover have "s4\<lparr>calls := [(Data_cb 3, b)], delivered := delivered s4 @ [b], p_pc := P_deliver (Some 3) None []\<rparr> = ex_sent b"
    using f by (simp add: s1_def s2_def s3_def s4_def step_fields ex_sent_def)
  ultimately have 5: "?n s4 (ex_sent b)"
    using f by (simp add: fixed_step_def ex_sent_def s1_def s2_def s3_def s4_def push_give_up_calls)
  have 1: "?n ?s s1" using nstep.p_head [of ?s ex_lib "\<lambda>_ _ _. False" False] f by (simp add: fixed_step_def s1_def)
  have 2: "?n s1 s2" using nstep.p_pred [of s1 ex_lib "\<lambda>_ _ _. False" False] f by (simp add: fixed_step_def s1_def s2_def)
  have 3: "?n s2 s3" using nstep.p_take [of s2 b "[]" ex_lib "\<lambda>_ _ _. False" False] f by (simp add: fixed_step_def s1_def s2_def s3_def)
  have 4: "?n s3 s4" using nstep.p_work [of s3 b ex_lib "\<lambda>_ _ _. False" False]
    by (simp add: fixed_step_def s3_def s4_def push_give_up_calls)
  note step = rtranclp.rtrancl_into_rtrancl [where r = ?n]
  show ?thesis by (rule step [OF step [OF step [OF step [OF step [OF rtranclp.rtrancl_refl 1] 2] 3] 4] 5])
qed

theorem corrections_reach_callback_witness:
  "\<exists>s. (fixed_step ex_lib (\<lambda>_ _ _. False) False)\<^sup>*\<^sup>* (StartReceiving True (ex_pending (replicate 1024 7))) s \<and>
     given_to 3 s = [replicate 1024 7] \<and> prefix (given_to 3 s) (blocks_of (concat (worked_on s))) \<and>
     subseq (worked_on s) (pushed s) \<and>
     prefix (concat (pushed s)) (pending_data (net_w (ex_pending (replicate 1024 7))) @ rx_bytes (e_recvs (net_w (ex_pending (replicate 1024 7)))))"
proof -
  let ?b = "replicate 1024 (7 :: byte)"
  have "connected (net_w (ex_pending ?b))" "\<not> receiving (ex_pending ?b)" "\<not> ssl (net_w (ex_pending ?b))"
      "data_callback (ex_pending ?b) = Some 3" "0 < opt_max_queue_size (config (net_w (ex_pending ?b)))"
      "66560 \<le> opt_max_buffer_size (config (net_w (ex_pending ?b)))" "length (pending_data (net_w (ex_pending ?b))) \<le> 65536"
      "messages_dropped (stats (net_w (ex_pending ?b))) = 0"
    by (simp_all add: ex_pending_def ex_options_def LoadConfig_def Options_default_def ex_connected_def ex_client_def Statistics_default_def)
  note c = corrections_reach_callback [OF this(1-4) ex_sent_steps this(5-8)]
  have "given_to 3 (ex_sent ?b) = [?b]" by (simp add: given_to_def ex_sent_def)
  with c ex_sent_steps [of ?b] show ?thesis by (intro exI [of _ "ex_sent ?b"]) simp
qed

end
