(* ===== verification/Fairness.thy ===== *)
theory Fairness
  imports Main
begin

text \<open>
  Runs of several threads under weak fairness, and the rule by which a thread's work is shown to be done: a rank that
  falls in a well-founded order whenever the thread that can help moves, and that no other step raises.
\<close>

definition able :: "('s \<Rightarrow> 's \<Rightarrow> bool) \<Rightarrow> ('t \<Rightarrow> 's \<Rightarrow> 's \<Rightarrow> bool) \<Rightarrow> 't \<Rightarrow> 's \<Rightarrow> bool" where
  "able step moves t s \<longleftrightarrow> (\<exists>s'. step s s' \<and> moves t s s')"

text \<open>
  An infinite sequence of steps and pauses, in which no thread that stays able to move waits forever. \<open>moves t s s'\<close>
  says that the step from \<open>s\<close> to \<open>s'\<close> is one of the thread \<open>t\<close>.
\<close>

definition fair_run :: "('s \<Rightarrow> 's \<Rightarrow> bool) \<Rightarrow> ('t \<Rightarrow> 's \<Rightarrow> 's \<Rightarrow> bool) \<Rightarrow> (nat \<Rightarrow> 's) \<Rightarrow> bool" where
  "fair_run step moves \<sigma> \<longleftrightarrow>
     (\<forall>i. step (\<sigma> i) (\<sigma> (Suc i)) \<or> \<sigma> (Suc i) = \<sigma> i) \<and>
     (\<forall>t i. (\<forall>j \<ge> i. able step moves t (\<sigma> j)) \<longrightarrow>
        (\<exists>j \<ge> i. step (\<sigma> j) (\<sigma> (Suc j)) \<and> moves t (\<sigma> j) (\<sigma> (Suc j))))"

lemma fair_run_steps: "fair_run step moves \<sigma> \<Longrightarrow> i \<le> j \<Longrightarrow> step\<^sup>*\<^sup>* (\<sigma> i) (\<sigma> j)"
proof (induction j)
  case (Suc j)
  from Suc.prems(1) have "step (\<sigma> j) (\<sigma> (Suc j)) \<or> \<sigma> (Suc j) = \<sigma> j" by (simp add: fair_run_def)
  then show ?case
    using Suc by (cases "i = Suc j") (auto intro: rtranclp.rtrancl_into_rtrancl)
qed simp

lemma fair_run_moves:
  assumes "fair_run step moves \<sigma>" and "\<And>j. i \<le> j \<Longrightarrow> able step moves t (\<sigma> j)"
  obtains j where "i \<le> j" "step (\<sigma> j) (\<sigma> (Suc j))" "moves t (\<sigma> j) (\<sigma> (Suc j))"
  using assms unfolding fair_run_def by blast

text \<open>A finite run to a state in which no thread can move, followed by a pause, is fair.\<close>

lemma fair_run_to_rest:
  assumes "step\<^sup>*\<^sup>* s t" and "\<And>u. \<not> able step moves u t"
  shows "\<exists>\<sigma>. fair_run step moves \<sigma> \<and> \<sigma> 0 = s \<and> (\<forall>i. step\<^sup>*\<^sup>* (\<sigma> i) t) \<and> (\<exists>n. \<sigma> n = t)"
  using assms(1)
proof (induction rule: converse_rtranclp_induct)
  case base
  then show ?case using assms(2) by (intro exI [of _ "\<lambda>_. t"]) (auto simp: fair_run_def)
next
  case (step s y)
  then obtain \<sigma> n where \<sigma>: "fair_run step moves \<sigma>" "\<sigma> 0 = y" "\<forall>i. step\<^sup>*\<^sup>* (\<sigma> i) t" "\<sigma> n = t" by blast
  let ?r = "\<lambda>i. case i of 0 \<Rightarrow> s | Suc j \<Rightarrow> \<sigma> j"
  have "\<exists>j \<ge> i. step (?r j) (?r (Suc j)) \<and> moves u (?r j) (?r (Suc j))"
    if a: "\<forall>j \<ge> i. able step moves u (?r j)" for u i
  proof -
    have "able step moves u (\<sigma> j)" if "i - 1 \<le> j" for j using a [rule_format, of "Suc j"] that by simp
    then obtain j where "i - 1 \<le> j" "step (\<sigma> j) (\<sigma> (Suc j))" "moves u (\<sigma> j) (\<sigma> (Suc j))"
      using fair_run_moves [OF \<sigma>(1)] by blast
    then show ?thesis by (intro exI [of _ "Suc j"]) simp
  qed
  moreover have "step (?r i) (?r (Suc i)) \<or> ?r (Suc i) = ?r i" for i
    using \<sigma>(1,2) step(1) by (auto simp: fair_run_def split: nat.split)
  ultimately have "fair_run step moves ?r" by (simp add: fair_run_def)
  moreover have "step\<^sup>*\<^sup>* (?r i) t" for i using \<sigma>(3) step(1,2) by (auto split: nat.split)
  ultimately show ?case using \<sigma>(4) by (intro exI [of _ ?r]) (auto intro: exI [of _ "Suc n"])
qed

text \<open>
  The response rule. \<open>steady\<close> is what the run is known to keep; while something is pending, the helper can move, its
  move reaches the goal or lowers the rank, and every other step keeps rank and helper or lowers the rank.
\<close>

locale just_response =
  fixes step :: "'s \<Rightarrow> 's \<Rightarrow> bool" and moves :: "'t \<Rightarrow> 's \<Rightarrow> 's \<Rightarrow> bool"
    and steady pending goal :: "'s \<Rightarrow> bool" and rank :: "'s \<Rightarrow> 'r" and below :: "('r \<times> 'r) set" and helper :: "'s \<Rightarrow> 't"
  assumes wf_below: "wf below"
    and helper_able: "pending s \<Longrightarrow> able step moves (helper s) s"
    and step_keeps: "pending s \<Longrightarrow> step s s' \<Longrightarrow> steady s' \<Longrightarrow>
      goal s' \<or> pending s' \<and> ((rank s', rank s) \<in> below \<or> rank s' = rank s \<and> helper s' = helper s)"
    and helper_moves: "pending s \<Longrightarrow> step s s' \<Longrightarrow> steady s' \<Longrightarrow> moves (helper s) s s' \<Longrightarrow>
      goal s' \<or> (rank s', rank s) \<in> below"
begin

lemma stays:
  assumes "fair_run step moves \<sigma>" and "\<forall>j. steady (\<sigma> j)" and "pending (\<sigma> i)" and "\<forall>j \<ge> i. \<not> goal (\<sigma> j)" and "i \<le> j"
    and "\<forall>j \<ge> i. (rank (\<sigma> j), rank (\<sigma> i)) \<notin> below"
  shows "pending (\<sigma> j) \<and> rank (\<sigma> j) = rank (\<sigma> i) \<and> helper (\<sigma> j) = helper (\<sigma> i)"
  using assms(5)
proof (induction j rule: dec_induct)
  case base
  then show ?case using assms(3) by simp
next
  case (step n)
  then have n: "pending (\<sigma> n)" "rank (\<sigma> n) = rank (\<sigma> i)" "helper (\<sigma> n) = helper (\<sigma> i)" by simp_all
  have no: "\<not> goal (\<sigma> (Suc n))" "(rank (\<sigma> (Suc n)), rank (\<sigma> i)) \<notin> below" using assms(4,6) step(1) by simp_all
  from assms(1) consider "step (\<sigma> n) (\<sigma> (Suc n))" | "\<sigma> (Suc n) = \<sigma> n" by (auto simp: fair_run_def)
  then show ?case
    using step_keeps [OF n(1)] assms(2) n no by cases auto
qed

lemma lowers:
  assumes "fair_run step moves \<sigma>" and "\<forall>j. steady (\<sigma> j)" and "pending (\<sigma> i)" and "\<forall>j \<ge> i. \<not> goal (\<sigma> j)"
  shows "\<exists>j \<ge> i. (rank (\<sigma> j), rank (\<sigma> i)) \<in> below"
proof (rule ccontr)
  assume "\<not> ?thesis"
  then have const: "\<forall>j \<ge> i. (rank (\<sigma> j), rank (\<sigma> i)) \<notin> below" by blast
  note same = stays [OF assms _ const]
  have "able step moves (helper (\<sigma> i)) (\<sigma> j)" if "i \<le> j" for j
    using helper_able same [OF that] by metis
  then obtain j where j: "i \<le> j" "step (\<sigma> j) (\<sigma> (Suc j))" "moves (helper (\<sigma> i)) (\<sigma> j) (\<sigma> (Suc j))"
    using fair_run_moves [OF assms(1)] by blast
  from helper_moves [OF _ j(2)] same [OF j(1)] j assms(2,4) const show False
    by (metis le_SucI)
qed

lemma still_pending:
  assumes "fair_run step moves \<sigma>" and "\<forall>j. steady (\<sigma> j)" and "pending (\<sigma> i)" and "\<forall>j \<ge> i. \<not> goal (\<sigma> j)" and "i \<le> j"
  shows "pending (\<sigma> j)"
  using assms(5)
proof (induction j rule: dec_induct)
  case (step n)
  from assms(1) consider "step (\<sigma> n) (\<sigma> (Suc n))" | "\<sigma> (Suc n) = \<sigma> n" by (auto simp: fair_run_def)
  moreover have "\<not> goal (\<sigma> (Suc n))" using assms(4) step(1) by simp
  ultimately show ?case using step_keeps [OF step(3)] assms(2) step(3) by cases auto
qed (rule assms(3))

theorem response:
  assumes "fair_run step moves \<sigma>" and "\<forall>j. steady (\<sigma> j)" and "pending (\<sigma> i)"
  shows "\<exists>j \<ge> i. goal (\<sigma> j)"
  using assms(3)
proof (induction "rank (\<sigma> i)" arbitrary: i rule: wf_induct_rule [OF wf_below])
  case 1
  show ?case
  proof (rule ccontr)
    assume "\<not> ?case"
    then have no: "\<forall>j \<ge> i. \<not> goal (\<sigma> j)" by blast
    obtain j where j: "i \<le> j" "(rank (\<sigma> j), rank (\<sigma> i)) \<in> below" using lowers [OF assms(1,2) 1(2) no] by blast
    have "pending (\<sigma> j)" by (rule still_pending [OF assms(1,2) 1(2) no j(1)])
    from 1(1) [OF j(2) this] j(1) no show False by (meson le_trans)
  qed
qed

end

end
