(* ===== verification/NtripFair.thy ===== *)
theory NtripFair
  imports NtripProgress Fairness
begin

text \<open>
  The receiving pipeline under a fair scheduler. On an infinite run on which the client keeps receiving, the callbacks
  return and neither thread is kept from moving forever, every chunk that gets into the queue leaves it, and the
  messages of every chunk that was processed are delivered. The two locale interpretations are the two kinds of work:
  emptying the queue, and finishing a chunk.
\<close>

section \<open>Whose step it is\<close>

datatype worker = Receiver | Processor

text \<open>A notification wakes the processing thread, but it is a step of the receiving thread.\<close>

fun worker_moves :: "worker \<Rightarrow> nsys \<Rightarrow> nsys \<Rightarrow> bool" where
  "worker_moves Receiver s s' \<longleftrightarrow> r_pc s' \<noteq> r_pc s"
| "worker_moves Processor s s' \<longleftrightarrow> p_pc s \<noteq> P_asleep \<and> p_pc s' \<noteq> p_pc s"

definition nhelper :: "nsys \<Rightarrow> worker" where
  "nhelper s = (if p_pc s = P_asleep then Receiver else Processor)"

text \<open>How far the processing thread is from taking the next chunk.\<close>

definition distance :: "nsys \<Rightarrow> nat \<times> nat" where
  "distance s =
     (case p_pc s of
        P_work bs \<Rightarrow> (5, 0)
      | P_deliver d f ms \<Rightarrow> (4, length ms)
      | P_head \<Rightarrow> (3, 0)
      | P_block \<Rightarrow> (2, 1)
      | P_asleep \<Rightarrow> (2, 0)
      | P_pred \<Rightarrow> (1, 0)
      | _ \<Rightarrow> (0, 0))"

abbreviation nearer :: "((nat \<times> nat) \<times> (nat \<times> nat)) set" where
  "nearer \<equiv> less_than <*lex*> less_than"

definition works :: "((cb \<times> byte list) list \<Rightarrow> cb \<Rightarrow> byte list \<Rightarrow> bool) \<Rightarrow> nsys \<Rightarrow> bool" where
  "works cb s \<longleftrightarrow> callbacks_return cb \<and> receiving s \<and> wake_inv s"

text \<open>Chunks wait, and \<open>n\<close> have left so far.\<close>

definition waiting :: "((cb \<times> byte list) list \<Rightarrow> cb \<Rightarrow> byte list \<Rightarrow> bool) \<Rightarrow> nat \<Rightarrow> nsys \<Rightarrow> bool" where
  "waiting cb n s \<longleftrightarrow> works cb s \<and> data_queue s \<noteq> [] \<and> length (left s) = n"

definition busy :: "nsys \<Rightarrow> bool" where
  "busy s \<longleftrightarrow> (case p_pc s of P_work bs \<Rightarrow> True | P_deliver d f ms \<Rightarrow> True | P_head \<Rightarrow> True | _ \<Rightarrow> False)"

lemma deliver_returns:
  "callbacks_return cb \<Longrightarrow> \<exists>h. deliver_message cb d f m c = (False, h)"
  by (cases d; cases f) (auto simp: deliver_message_def callbacks_return_def)

lemma processor_able:
  assumes "works cb s" and "p_pc s \<noteq> P_asleep"
  shows "able (nstep X cb sp) worker_moves Processor s"
proof -
  have "\<exists>s'. nstep X cb sp s s' \<and> p_pc s' \<noteq> p_pc s"
  proof (cases "p_pc s")
    case P_head
    then show ?thesis using nstep.p_head [of s X cb sp] assms(1) by (fastforce simp: works_def)
  next
    case P_pred
    then show ?thesis using nstep.p_pred [of s X cb sp]
      by (intro exI [of _ "s\<lparr>p_pc := (if data_queue s \<noteq> [] \<or> \<not> receiving s then P_take else P_block)\<rparr>"]) simp
  next
    case P_block
    then show ?thesis using nstep.p_sleep [of s X cb sp] by fastforce
  next
    case P_take
    then obtain bs q where "data_queue s = bs # q"
      using assms(1) by (cases "data_queue s") (auto simp: works_def wake_inv_def)
    with P_take show ?thesis using nstep.p_take [of s bs q X cb sp] by fastforce
  next
    case (P_work bs)
    moreover have "p_pc (process_chunk bs s) \<noteq> P_work bs" by (simp add: process_chunk_def case_prod_beta Let_def)
    ultimately show ?thesis using nstep.p_work [of s bs X cb sp] by metis
  next
    case (P_deliver d f ms)
    show ?thesis
    proof (cases ms)
      case Nil
      then show ?thesis using P_deliver nstep.p_next [of s d f X cb sp] by fastforce
    next
      case (Cons m rest)
      obtain h where h: "deliver_message cb d f m (calls s) = (False, h)"
        using assms(1) deliver_returns [of cb d f m "calls s"] by (auto simp: works_def)
      show ?thesis
        using nstep.p_deliver [of s d f m rest cb h X sp] P_deliver Cons h assms(1) by (fastforce simp: works_def)
    qed
  qed (use assms in \<open>auto simp: works_def wake_inv_def\<close>)
  with assms(2) show ?thesis by (auto simp: able_def)
qed

text \<open>Every step on a steady run: the processing thread comes nearer, or its position stays.\<close>

lemma step_distance:
  assumes "nstep X cb sp s s'" and "works cb s" and "receiving s'"
  shows "works cb s' \<and> (p_pc s' = p_pc s \<or> (distance s', distance s) \<in> nearer \<or> p_pc s = P_take \<and> length (left s) < length (left s') \<or> p_pc s = P_pred \<and> data_queue s = [])"
proof -
  have "wake_inv s'" using nstep_wake [OF assms(1)] assms(2) by (simp add: works_def)
  with assms(2,3) have "works cb s'" by (simp add: works_def)
  moreover have "p_pc s' = p_pc s \<or> (distance s', distance s) \<in> nearer \<or> p_pc s = P_take \<and> length (left s) < length (left s') \<or> p_pc s = P_pred \<and> data_queue s = []"
    using assms
    by (induction rule: nstep.induct)
      (auto simp: distance_def step_fields wake_def works_def process_chunk_def case_prod_beta Let_def
        callbacks_return_def deliver_message_def)
  ultimately show ?thesis by simp
qed

lemma step_queue:
  "nstep X cb sp s s' \<Longrightarrow> length (left s) < length (left s') \<or>
     left s' = left s \<and> (data_queue s \<noteq> [] \<longrightarrow> data_queue s' \<noteq> [])"
  by (induction rule: nstep.induct) (auto simp: step_fields push_chunk_def Let_def)

lemma step_left_mono: "nstep X cb sp s s' \<Longrightarrow> \<exists>xs. left s' = left s @ xs"
  by (induction rule: nstep.induct) (auto simp: step_fields push_chunk_def Let_def)

lemma step_pushed_mono: "nstep X cb sp s s' \<Longrightarrow> \<exists>xs. pushed s' = pushed s @ xs"
  by (induction rule: nstep.induct) (auto simp: step_fields push_chunk_def Let_def)

lemma distance_pc: "p_pc s' = p_pc s \<Longrightarrow> distance s' = distance s \<and> nhelper s' = nhelper s"
  by (simp add: distance_def nhelper_def)

text \<open>A step of the helper changes the position of the processing thread.\<close>

lemma helper_step:
  assumes "nstep X cb sp s s'" and "works cb s" and "worker_moves (nhelper s) s s'" and "data_queue s \<noteq> [] \<or> p_pc s \<noteq> P_asleep"
  shows "p_pc s' \<noteq> p_pc s"
proof (cases "p_pc s = P_asleep")
  case True
  then have "r_pc s = R_notify" using assms(2,4) by (auto simp: works_def wake_inv_def)
  with assms(1,3) True show ?thesis by (induction rule: nstep.induct) (auto simp: nhelper_def step_fields)
qed (use assms(3) in \<open>simp add: nhelper_def\<close>)

lemma wf_nearer: "wf nearer"
  by blast

section \<open>Emptying the queue\<close>

interpretation queue_response: just_response "nstep X cb sp" worker_moves receiving "waiting cb n"
    "\<lambda>s. n < length (left s)" distance nearer nhelper
  for X cb sp n
proof
  fix s assume w: "waiting cb n s"
  show "able (nstep X cb sp) worker_moves (nhelper s) s"
  proof (cases "p_pc s = P_asleep")
    case True
    then have "r_pc s = R_notify" using w by (auto simp: waiting_def works_def wake_inv_def)
    then have "nstep X cb sp s (s\<lparr>p_pc := wake (p_pc s), r_pc := R_head\<rparr>)" by (rule nstep.r_notify)
    with True \<open>r_pc s = R_notify\<close> show ?thesis
      by (auto simp: able_def nhelper_def intro!: exI [of _ "s\<lparr>p_pc := wake (p_pc s), r_pc := R_head\<rparr>"])
  qed (use w processor_able in \<open>auto simp: waiting_def nhelper_def\<close>)
  fix s' assume st: "nstep X cb sp s s'" and r: "receiving s'"
  have ws: "works cb s" "data_queue s \<noteq> []" "length (left s) = n" using w by (simp_all add: waiting_def)
  note d = step_distance [OF st ws(1) r]
  show "n < length (left s') \<or> waiting cb n s' \<and>
      ((distance s', distance s) \<in> nearer \<or> distance s' = distance s \<and> nhelper s' = nhelper s)"
    using step_queue [OF st] d distance_pc [of s' s] ws by (auto simp: waiting_def)
  show "n < length (left s') \<or> (distance s', distance s) \<in> nearer" if "worker_moves (nhelper s) s s'"
    using helper_step [OF st ws(1) that] d ws by auto
qed (rule wf_nearer)

section \<open>Finishing a chunk\<close>

interpretation work_response: just_response "nstep X cb sp" worker_moves receiving "\<lambda>s. works cb s \<and> busy s"
    "\<lambda>s. works cb s \<and> \<not> busy s" distance nearer nhelper
  for X cb sp
proof
  fix s assume w: "works cb s \<and> busy s"
  then have pc: "p_pc s \<noteq> P_asleep" "p_pc s \<noteq> P_take" "p_pc s \<noteq> P_pred" by (auto simp: busy_def)
  show "able (nstep X cb sp) worker_moves (nhelper s) s"
    using processor_able w pc by (simp add: nhelper_def)
  fix s' assume st: "nstep X cb sp s s'" and r: "receiving s'"
  note d = step_distance [OF st _ r]
  show "works cb s' \<and> \<not> busy s' \<or> (works cb s' \<and> busy s') \<and>
      ((distance s', distance s) \<in> nearer \<or> distance s' = distance s \<and> nhelper s' = nhelper s)"
    using d w distance_pc [of s' s] pc by auto
  show "works cb s' \<and> \<not> busy s' \<or> (distance s', distance s) \<in> nearer" if "worker_moves (nhelper s) s s'"
    using helper_step [OF st _ that] d w pc by auto
qed (rule wf_nearer)

section \<open>Every chunk\<close>

lemma steps_mono:
  "(nstep X cb sp)\<^sup>*\<^sup>* s t \<Longrightarrow> prefix (left s) (left t) \<and> prefix (pushed s) (pushed t)"
proof (induction rule: rtranclp_induct)
  case (step t u)
  then show ?case using step_left_mono [OF step(2)] step_pushed_mono [OF step(2)] by auto
qed simp

lemma steps_receiving: "(nstep X cb sp)\<^sup>*\<^sup>* s t \<Longrightarrow> receiving t \<Longrightarrow> receiving s"
proof (induction rule: converse_rtranclp_induct)
  case (step s y)
  from step(1) have "receiving y \<longrightarrow> receiving s"
    by (induction rule: nstep.induct) (auto simp: step_fields dest: give_up_receiving [rule_format])
  with step show ?case by blast
qed

lemma steps_wake: "(nstep X cb sp)\<^sup>*\<^sup>* s t \<Longrightarrow> wake_inv s \<Longrightarrow> wake_inv t"
  by (induction rule: rtranclp_induct) (auto dest: nstep_wake)

text \<open>At rest between two chunks, all messages of the chunks taken were delivered.\<close>

lemma rest_delivered:
  assumes "proc_inv opn s" and "works cb s" and "\<not> busy s"
  shows "base_data s = (if opn then concat (processed s) else []) \<and> delivered s = blocks_of (concat (processed s))"
proof -
  have "in_hand s = []" "due s = []" "p_pc s \<noteq> P_end" "receiving s"
    using assms(2,3) by (auto simp: busy_def in_hand_def due_def works_def wake_inv_def split: ppc.splits)
  with proc_inv_worked [OF assms(1)] show ?thesis by simp
qed

text \<open>
  C11: every chunk is handled. A connected client starts to receive (with a queue for at least one chunk, a buffer limit
  of at least 66560 bytes, at most 65536 pending bytes, and no chunk counted as dropped). On every run of the threads on
  which the client keeps receiving, with callbacks that return and a scheduler that lets a thread move which stays able
  to: for all the chunks received until some moment there is a later moment at which they have all left the queue, in the
  order in which they came, and at which the messages delivered are exactly the 1024-byte blocks of the chunks that were
  not dropped. At that moment these chunks, whole and in order, are what was handed to the stream of the recording, if the
  recording could be opened; if it could not, nothing was.
\<close>

theorem chunks_are_handled:
  assumes "connected (net_w s0)" and "\<not> receiving s0"
    and "0 < opt_max_queue_size (config (net_w s0))" and "66560 \<le> opt_max_buffer_size (config (net_w s0))"
    and "length (pending_data (net_w s0)) \<le> 65536" and "messages_dropped (stats (net_w s0)) = 0"
    and "callbacks_return cb" and "fair_run (nstep X cb spurious) worker_moves \<sigma>" and "\<sigma> 0 = StartReceiving opened s0"
    and "\<forall>j. receiving (\<sigma> j)"
  shows "\<exists>j \<ge> i. prefix (pushed (\<sigma> i)) (map snd (left (\<sigma> j))) \<and>
     base_data (\<sigma> j) = (if opened then concat (processed (\<sigma> j)) else []) \<and>
     delivered (\<sigma> j) = blocks_of (concat (processed (\<sigma> j)))"
proof -
  have reach: "(nstep X cb spurious)\<^sup>*\<^sup>* (StartReceiving opened s0) (\<sigma> j)" for j
    using fair_run_steps [OF assms(8), of 0 j] assms(9) by simp
  have "wake_inv (StartReceiving opened s0)"
    using assms(1,2) by (simp add: StartReceiving_def clock_read_def wake_inv_def Let_def)
  then have "wake_inv (\<sigma> j)" for j using steps_wake [OF reach] by blast
  then have works: "works cb (\<sigma> j)" for j using assms(7,10) by (simp add: works_def)
  note inv = reachable_invariants [OF assms(1,2) reach assms(3-6)]
  have q: "pushed (\<sigma> j) = map snd (left (\<sigma> j)) @ data_queue (\<sigma> j)" for j using inv [of j] by (simp add: queue_inv_def)
  note mono = steps_mono [OF fair_run_steps [OF assms(8)]]
  have "n \<le> length (pushed (\<sigma> i)) \<Longrightarrow> \<exists>j \<ge> i. n \<le> length (left (\<sigma> j))" for n
  proof (induction n)
    case (Suc n)
    then obtain j where j: "i \<le> j" "n \<le> length (left (\<sigma> j))" by auto
    show ?case
    proof (cases "n < length (left (\<sigma> j))")
      case False
      have "length (pushed (\<sigma> i)) \<le> length (pushed (\<sigma> j))" using mono [OF j(1)] by (auto dest: prefix_length_le)
      then have "waiting cb n (\<sigma> j)" using q [of j] False j(2) Suc.prems works by (auto simp: waiting_def)
      from queue_response.response [OF assms(8,10) this] show ?thesis using j(1) by (auto intro: Suc_leI order_trans)
    qed (use j in auto)
  qed auto
  then obtain j where j: "i \<le> j" "length (pushed (\<sigma> i)) \<le> length (left (\<sigma> j))" by blast
  have "prefix (pushed (\<sigma> i)) (map snd (left (\<sigma> j)))"
    using mono [OF j(1)] q [of j] j(2) by (metis length_map prefix_length_prefix prefixI)
  moreover obtain k where k: "j \<le> k" "\<not> busy (\<sigma> k)"
    using work_response.response [OF assms(8,10), where i = j] works by (cases "busy (\<sigma> j)") auto
  moreover have "prefix (map snd (left (\<sigma> j))) (map snd (left (\<sigma> k)))" using mono [OF k(1)] by (auto intro: map_mono_prefix)
  ultimately show ?thesis
    using rest_delivered [OF _ works k(2)] inv [of k] j(1) by (intro exI [of _ k]) (auto intro: prefix_order.trans)
qed

text \<open>A fair run: one chunk that came with the response is processed, then both threads wait.\<close>

lemma ex_rest_steps:
  fixes X cb
  defines "s \<equiv> (StartReceiving True (ex_sys (ex_connected False [])))\<lparr>p_pc := P_pred, r_pc := R_recv\<rparr>"
  shows "\<exists>t. (nstep X cb False)\<^sup>*\<^sup>* s t \<and> receiving t \<and> p_pc t = P_asleep \<and> r_pc t = R_recv \<and>
     e_recvs (net_w t) = [] \<and> \<not> ssl (net_w t)"
proof -
  let ?n = "nstep X cb False"
  have f: "receiving s" "data_queue s = [[0xD3]]" "rtcm_state s = ([], 0)" "e_recvs (net_w s) = []" "\<not> ssl (net_w s)"
      "opt_max_buffer_size (config (net_w s)) = 8388608"
    by (simp_all add: s_def StartReceiving_def clock_read_def Let_def ex_options_def LoadConfig_def Options_default_def)
  define s1 where "s1 = s\<lparr>p_pc := P_take\<rparr>"
  define s2 where "s2 = s1\<lparr>data_queue := [], left := left s1 @ [(True, [0xD3])], p_pc := P_work [0xD3]\<rparr>"
  define s3 where "s3 = process_chunk [0xD3] s2"
  define s4 where "s4 = s3\<lparr>p_pc := P_head\<rparr>"
  have 1: "?n s s1" using nstep.p_pred [of s X cb False] f by (simp add: s_def s1_def)
  have 2: "?n s1 s2" using nstep.p_take [of s1 "[0xD3]" "[]" X cb False] f by (simp add: s1_def s2_def)
  have 3: "?n s2 s3" unfolding s3_def by (rule nstep.p_work) (simp add: s2_def)
  have "blocks_of [0xD3] = []" using blocks_step(2) [of "[0xD3]"] by simp
  then obtain d g where "p_pc s3 = P_deliver d g []"
    using f ChunkRTCMData_fits [of "[]" "[0xD3]" 8388608 0] by (simp add: s1_def s2_def s3_def process_chunk_def Let_def)
  then have 4: "?n s3 s4" using nstep.p_next by (simp add: s4_def)
  have f4: "receiving s4" "data_queue s4 = []" "r_pc s4 = R_recv" "e_recvs (net_w s4) = []" "\<not> ssl (net_w s4)"
    using f by (simp_all add: s_def s1_def s2_def s3_def s4_def step_fields process_chunk_def case_prod_beta Let_def)
  have 5: "?n s4 (s4\<lparr>p_pc := P_pred\<rparr>)" using nstep.p_head [of s4 X cb False] f4 by (simp add: s4_def)
  have 6: "?n (s4\<lparr>p_pc := P_pred\<rparr>) (s4\<lparr>p_pc := P_block\<rparr>)" using nstep.p_pred [of "s4\<lparr>p_pc := P_pred\<rparr>" X cb False] f4 by simp
  have 7: "?n (s4\<lparr>p_pc := P_block\<rparr>) (s4\<lparr>p_pc := P_asleep\<rparr>)" using nstep.p_sleep [of "s4\<lparr>p_pc := P_block\<rparr>" X cb False] by simp
  have "?n\<^sup>*\<^sup>* s (s4\<lparr>p_pc := P_asleep\<rparr>)" using 1 2 3 4 5 6 7 by (meson converse_rtranclp_into_rtranclp rtranclp.rtrancl_refl)
  with f4 show ?thesis by (intro exI [of _ "s4\<lparr>p_pc := P_asleep\<rparr>"]) simp
qed

lemma no_worker_able:
  assumes "p_pc t = P_asleep" and "r_pc t = R_recv" and "e_recvs (net_w t) = []" and "\<not> ssl (net_w t)"
  shows "\<not> able (nstep X cb False) worker_moves u t"
proof -
  have "r_pc t' = r_pc t" if "nstep X cb False t t'" for t'
    using that assms by (induction rule: nstep.induct) (auto simp: ReceiveData_def)
  with assms(1) show ?thesis by (cases u) (auto simp: able_def)
qed

theorem chunks_are_handled_witness:
  "\<exists>\<sigma> j. fair_run (nstep ex_lib (\<lambda>_ _ _. False) False) worker_moves \<sigma> \<and> pushed (\<sigma> 0) = [[0xD3]] \<and>
     prefix [[0xD3]] (map snd (left (\<sigma> j))) \<and> base_data (\<sigma> j) = concat (processed (\<sigma> j)) \<and>
     delivered (\<sigma> j) = blocks_of (concat (processed (\<sigma> j)))"
proof -
  let ?n = "nstep ex_lib (\<lambda>_ _ _. False) False"
  let ?init = "ex_sys (ex_connected False [])"
  obtain t where t: "?n\<^sup>*\<^sup>* (StartReceiving True ?init) t" "receiving t" "p_pc t = P_asleep" "r_pc t = R_recv"
      "e_recvs (net_w t) = []" "\<not> ssl (net_w t)"
    using ex_rest_steps [of ex_lib "\<lambda>_ _ _. False"] rtranclp_trans [OF ex_first_steps] by blast
  obtain \<sigma> where \<sigma>: "fair_run ?n worker_moves \<sigma>" "\<sigma> 0 = StartReceiving True ?init" "\<forall>i. ?n\<^sup>*\<^sup>* (\<sigma> i) t"
    using fair_run_to_rest [OF t(1) no_worker_able [OF t(3-6)]] by blast
  then have "\<forall>j. receiving (\<sigma> j)" using steps_receiving t(2) by blast
  moreover have "pushed (\<sigma> 0) = [[0xD3]]" by (simp add: \<sigma>(2) StartReceiving_def clock_read_def Let_def)
  moreover have "opt_max_queue_size ex_options = 1024" "opt_max_buffer_size ex_options = 8388608"
    by (simp_all add: ex_options_def LoadConfig_def Options_default_def)
  ultimately show ?thesis
    using chunks_are_handled [OF _ _ _ _ _ _ _ \<sigma>(1,2), of 0] \<sigma>(1) by (auto simp: callbacks_return_def)
qed

end
