(* ===== verification/NtripCallback.thy ===== *)
theory NtripCallback
  imports Prelude
begin

text \<open>
  \<open>NTRIPCallback\<close> of src/src/ntrip, which forwards correction data to the INS401 over raw Ethernet. The socket
  class and the packet format are not in the repository; they are a parameter, a record of the operations that
  the code calls, over a type of sockets and a type of worlds that each call may change.
\<close>

section \<open>The code: data\<close>

type_synonym mac = "byte list"

record ('s, 'w) ethernet =
  eth_parse_mac :: "string \<Rightarrow> mac" \<comment> \<open>\<open>Ethernet::FormatMACAddress\<close>\<close>
  eth_new :: "string \<Rightarrow> mac \<Rightarrow> 'w \<Rightarrow> (string + 's) \<times> 'w" \<comment> \<open>the constructor of \<open>EthernetSocket\<close>; it may throw\<close>
  eth_valid :: "'s \<Rightarrow> 'w \<Rightarrow> bool"
  eth_local_mac :: "'s \<Rightarrow> mac"
  eth_send :: "'s \<Rightarrow> byte list \<Rightarrow> 'w \<Rightarrow> int \<times> 'w"
  eth_packet :: "mac \<Rightarrow> mac \<Rightarrow> byte list \<Rightarrow> string + byte list" \<comment> \<open>\<open>BuildAceinnaPacket\<close>; it may throw\<close>

record 's NTRIPCallback =
  socket_initialized :: bool
  socket_ptr :: "'s option"
  interface :: string
  target_mac :: mac
  local_mac :: mac
  packets_sent :: u64
  packets_failed :: u64

abbreviation (input) kMaxSendRetries :: nat where "kMaxSendRetries \<equiv> 3"

section \<open>The code: operations\<close>

definition NTRIPCallback_ctor :: "('s, 'w) ethernet \<Rightarrow> string \<Rightarrow> string \<Rightarrow> string \<Rightarrow> 's NTRIPCallback" where
  "NTRIPCallback_ctor E intf target_str local_str =
     \<lparr>socket_initialized = False, socket_ptr = None, interface = intf, target_mac = eth_parse_mac E target_str,
      local_mac = eth_parse_mac E local_str, packets_sent = 0, packets_failed = 0\<rparr>"

definition ptr_valid :: "('s, 'w) ethernet \<Rightarrow> 's NTRIPCallback \<Rightarrow> 'w \<Rightarrow> bool" where
  "ptr_valid E c w = (case socket_ptr c of Some s \<Rightarrow> eth_valid E s w | None \<Rightarrow> False)"

definition Initialize :: "('s, 'w) ethernet \<Rightarrow> 's NTRIPCallback \<Rightarrow> 'w \<Rightarrow> 's NTRIPCallback \<times> 'w" where
  "Initialize E c w =
     (if socket_initialized c \<and> ptr_valid E c w then (c, w)
      else case eth_new E (interface c) (target_mac c) w of
        (Inr s, w1) \<Rightarrow> (c\<lparr>socket_ptr := Some s, socket_initialized := eth_valid E s w1\<rparr>, w1)
      | (Inl e, w1) \<Rightarrow> (c\<lparr>socket_initialized := False, socket_ptr := None\<rparr>, w1))"

definition Cleanup :: "'s NTRIPCallback \<Rightarrow> 's NTRIPCallback" where
  "Cleanup c = c\<lparr>socket_ptr := None, socket_initialized := False\<rparr>"

definition Reset :: "('s, 'w) ethernet \<Rightarrow> 's NTRIPCallback \<Rightarrow> 'w \<Rightarrow> 's NTRIPCallback \<times> 'w" where
  "Reset E c w = Initialize E (Cleanup c) w"

text \<open>The loop of at most \<open>n\<close> attempts; the second component counts them.\<close>

fun send_attempts :: "('s, 'w) ethernet \<Rightarrow> 's option \<Rightarrow> byte list \<Rightarrow> nat \<Rightarrow> 'w \<Rightarrow> bool \<times> nat \<times> 'w" where
  "send_attempts E p pkt 0 w = (False, 0, w)"
| "send_attempts E p pkt (Suc n) w =
     (let (r, w1) = (case p of Some s \<Rightarrow> eth_send E s pkt w | None \<Rightarrow> (-1, w)) in
      if 0 < r then (True, 1, w1)
      else let (ok, k, w2) = send_attempts E p pkt n w1 in (ok, Suc k, w2))"

definition SendToINS401 ::
    "('s, 'w) ethernet \<Rightarrow> byte list \<Rightarrow> 's NTRIPCallback \<Rightarrow> 'w \<Rightarrow> bool \<times> 's NTRIPCallback \<times> 'w" where
  "SendToINS401 E payload c w =
     (let (c1, w1) = Initialize E c w in
      if \<not> socket_initialized c1 then (False, c1\<lparr>packets_failed := packets_failed c1 + 1\<rparr>, w1)
      else
        let src = (case socket_ptr c1 of Some s \<Rightarrow> if eth_valid E s w1 then eth_local_mac E s else local_mac c1
                   | None \<Rightarrow> local_mac c1)
        in case eth_packet E (target_mac c1) src payload of
             Inl e \<Rightarrow> (False, c1\<lparr>packets_failed := packets_failed c1 + 1\<rparr>, w1)
           | Inr pkt \<Rightarrow>
               (let (sent, k, w2) = send_attempts E (socket_ptr c1) pkt kMaxSendRetries w1 in
                if sent then (True, c1\<lparr>packets_sent := packets_sent c1 + 1\<rparr>, w2)
                else
                  let c2 = c1\<lparr>packets_failed := packets_failed c1 + 1\<rparr>;
                      (c3, w3) = (if packets_failed c2 mod 10 = 0 then Reset E c2 w2 else (c2, w2))
                  in (False, c3, w3)))"

text \<open>A sequence of calls of \<open>SendToINS401\<close> and their results. The repository has no code that makes such calls: nothing
  in it installs this class as the data callback of the client, which is left to the program that links the library.\<close>

fun send_all :: "('s, 'w) ethernet \<Rightarrow> byte list list \<Rightarrow> 's NTRIPCallback \<Rightarrow> 'w \<Rightarrow> bool list \<times> 's NTRIPCallback \<times> 'w" where
  "send_all E [] c w = ([], c, w)"
| "send_all E (m # ms) c w =
     (let (ok, c1, w1) = SendToINS401 E m c w; (oks, c2, w2) = send_all E ms c1 w1 in (ok # oks, c2, w2))"

section \<open>Invariant\<close>

text \<open>A callback that says it is initialised has a socket, and its addresses and interface never change.\<close>

definition cb_wf :: "'s NTRIPCallback \<Rightarrow> bool" where
  "cb_wf c \<longleftrightarrow> (socket_initialized c \<longrightarrow> socket_ptr c \<noteq> None)"

lemma Initialize_keeps:
  assumes "Initialize E c w = (c1, w1)"
  shows "cb_wf c \<Longrightarrow> cb_wf c1" and "packets_sent c1 = packets_sent c" and "packets_failed c1 = packets_failed c"
    and "interface c1 = interface c" and "target_mac c1 = target_mac c" and "socket_initialized c1 \<Longrightarrow> cb_wf c \<Longrightarrow> socket_ptr c1 \<noteq> None"
  using assms by (auto simp: Initialize_def cb_wf_def split: if_splits prod.splits sum.splits)

lemma Reset_keeps:
  assumes "Reset E c w = (c1, w1)"
  shows "cb_wf c1 \<and> packets_sent c1 = packets_sent c \<and> packets_failed c1 = packets_failed c"
  using Initialize_keeps [OF assms [unfolded Reset_def]] by (auto simp: Cleanup_def cb_wf_def)

lemma send_attempts_tries:
  assumes "send_attempts E p pkt n w = (ok, k, w')"
  shows "k \<le> n" and "\<not> ok \<Longrightarrow> k = n"
  using assms by (induction n arbitrary: w ok k) (auto simp: Let_def split: prod.splits if_splits)

lemma SendToINS401_counts:
  assumes "cb_wf c" and "SendToINS401 E payload c w = (ok, c', w')"
  shows "cb_wf c' \<and> packets_sent c' = packets_sent c + (if ok then 1 else 0) \<and>
     packets_failed c' = packets_failed c + (if ok then 0 else 1)"
proof -
  obtain c1 w1 where i: "Initialize E c w = (c1, w1)" by fastforce
  note k = Initialize_keeps [OF i]
  have wf: "cb_wf (c1\<lparr>packets_failed := x\<rparr>)" "cb_wf (c1\<lparr>packets_sent := x\<rparr>)" for x
    using k(1) assms(1) by (simp_all add: cb_wf_def)
  from assms(2) i wf k(2,3) show ?thesis
    by (auto simp: SendToINS401_def Let_def dest!: Reset_keeps split: if_splits prod.splits sum.splits option.splits)
qed

text \<open>
  Every message is accounted for. Over any sequence of messages and whatever the socket does, the callback answers
  each message; the counters advance by the number of messages sent and the number that failed, and together by the
  number of messages; and a callback that says it is initialised has a socket.
\<close>

theorem callback_accounts:
  assumes "cb_wf c" and "send_all E ms c w = (oks, c', w')"
  shows "length oks = length ms \<and> cb_wf c' \<and>
     packets_sent c' = packets_sent c + of_nat (length (filter id oks)) \<and>
     packets_failed c' = packets_failed c + of_nat (length (filter Not oks)) \<and>
     packets_sent c' + packets_failed c' = packets_sent c + packets_failed c + of_nat (length ms)"
proof -
  have "length oks = length ms \<and> cb_wf c' \<and> packets_sent c' = packets_sent c + of_nat (length (filter id oks)) \<and>
      packets_failed c' = packets_failed c + of_nat (length (filter Not oks))"
    using assms
  proof (induction ms arbitrary: c w oks)
    case (Cons m ms)
    obtain ok c1 w1 where s: "SendToINS401 E m c w = (ok, c1, w1)" by (metis prod_cases3)
    then obtain oks1 where r: "send_all E ms c1 w1 = (oks1, c', w')" "oks = ok # oks1"
      using Cons.prems(2) by (auto split: prod.splits)
    note c1 = SendToINS401_counts [OF Cons.prems(1) s]
    from Cons.IH [OF _ r(1)] c1 r(2) show ?case by (cases ok) auto
  qed simp
  moreover from this have "of_nat (length ms) = (of_nat (length (filter id oks)) + of_nat (length (filter Not oks)) :: u64)"
    using sum_length_filter_compl [of id oks] by (simp add: comp_def flip: of_nat_add)
  ultimately show ?thesis by simp
qed

text \<open>A socket that refuses: the world is the list of the results of its calls of \<open>Send\<close>.\<close>

definition ex_eth :: "(unit, int list) ethernet" where
  "ex_eth = \<lparr>eth_parse_mac = (\<lambda>s. []), eth_new = (\<lambda>i m w. (Inr (), w)), eth_valid = (\<lambda>s w. True), eth_local_mac = (\<lambda>s. [1]),
     eth_send = (\<lambda>s p w. case w of [] \<Rightarrow> (-1, []) | r # rs \<Rightarrow> (r, rs)), eth_packet = (\<lambda>t l p. Inr (t @ l @ p))\<rparr>"

lemma ex_send:
  "send_all ex_eth [[7], [8], [9]] (NTRIPCallback_ctor ex_eth ''eth0'' ''t'' ''l'') [5, -1, -1, 5, -1, -1, -1] =
     ([True, True, False],
      \<lparr>socket_initialized = True, socket_ptr = Some (), interface = ''eth0'', target_mac = [], local_mac = [],
       packets_sent = 2, packets_failed = 1\<rparr>, [])"
  by (simp add: NTRIPCallback_ctor_def SendToINS401_def Initialize_def ptr_valid_def ex_eth_def Let_def numeral_3_eq_3)

theorem callback_accounts_witness:
  "length [True, True, False] = length [[7], [8], [9 :: byte]] \<and>
     cb_wf \<lparr>socket_initialized = True, socket_ptr = Some (), interface = ''eth0'', target_mac = [], local_mac = [],
       packets_sent = 2, packets_failed = 1\<rparr> \<and>
     (2 :: u64) = 0 + of_nat (length (filter id [True, True, False])) \<and>
     (1 :: u64) = 0 + of_nat (length (filter Not [True, True, False])) \<and>
     (2 :: u64) + 1 = 0 + 0 + of_nat (length [[7], [8], [9 :: byte]])"
proof -
  have "cb_wf (NTRIPCallback_ctor ex_eth ''eth0'' ''t'' ''l'')" by (simp add: cb_wf_def NTRIPCallback_ctor_def)
  from callback_accounts [OF this ex_send] show ?thesis by (simp add: NTRIPCallback_ctor_def)
qed

end
