(* ===== verification/OfflineParser.thy ===== *)
theory OfflineParser
  imports FrameScan CppString
begin

text \<open>
  The part of src/scripts/parser.py that reads recordings: the checksum, the walk over the frames of a file
  (\<open>iter_frames\<close>, \<open>raw_scan\<close>, \<open>verify_sbf_bytes\<close>) and the rebuilding of frames (\<open>rebuild_sbf_frame\<close>).
  Python's integers are unbounded, so the definitions compute on \<open>int\<close>; positions in a file are \<open>nat\<close>. The lemmas
  relate the walk to the scanner that specifies the driver's synchroniser.
\<close>

section \<open>The code: checksum and frames\<close>

definition py_crc_shift :: "int \<Rightarrow> int" where
  "py_crc_shift crc =
     (if crc AND 0x8000 \<noteq> 0 then (push_bit 1 crc XOR 0x1021) AND 0xFFFF else push_bit 1 crc AND 0xFFFF)"

definition py_crc_byte :: "int \<Rightarrow> byte \<Rightarrow> int" where
  "py_crc_byte crc b = (py_crc_shift ^^ 8) (crc XOR push_bit 8 (uint b))"

definition py_crc_ccitt_xmodem :: "byte list \<Rightarrow> int" where
  "py_crc_ccitt_xmodem data = foldl py_crc_byte 0 data"

record SbfFrame =
  sf_offset :: nat
  sf_crc :: int
  sf_raw_id :: int
  sf_block_id :: int
  sf_revision :: int
  sf_length :: int
  sf_body :: "byte list"

text \<open>One field of \<open>struct.unpack_from ("<HHH", data, i + 2)\<close>; the callers have tested that it lies in the data.\<close>

definition unpack_H :: "byte list \<Rightarrow> nat \<Rightarrow> int" where
  "unpack_H data i = uint (data ! i) + 256 * uint (data ! (i + 1))"

definition py_slice :: "byte list \<Rightarrow> nat \<Rightarrow> nat \<Rightarrow> byte list" where
  "py_slice data i j = take (j - i) (drop i data)"

definition bad_length :: "byte list \<Rightarrow> nat \<Rightarrow> int \<Rightarrow> bool" where
  "bad_length data i len \<longleftrightarrow> len < 8 \<or> 8188 < len \<or> len mod 4 \<noteq> 0 \<or> int (length data) < int i + len"

function iter_from :: "byte list \<Rightarrow> nat \<Rightarrow> SbfFrame list" where
  "iter_from data i =
     (if i + 8 \<le> length data then
        if data ! i \<noteq> 0x24 \<or> data ! (i + 1) \<noteq> 0x40 then iter_from data (i + 1)
        else
          let crc = unpack_H data (i + 2); raw_id = unpack_H data (i + 4); len = unpack_H data (i + 6) in
          if bad_length data i len then iter_from data (i + 1)
          else if py_crc_ccitt_xmodem (py_slice data (i + 4) (i + nat len)) \<noteq> crc then iter_from data (i + 1)
          else
            \<lparr>sf_offset = i, sf_crc = crc, sf_raw_id = raw_id, sf_block_id = raw_id AND 0x1FFF,
             sf_revision = drop_bit 13 raw_id AND 7, sf_length = len, sf_body = py_slice data (i + 8) (i + nat len)\<rparr> #
            iter_from data (i + nat len)
      else [])"
  by pat_completeness auto
termination
  by (relation "measure (\<lambda>(data, i). length data - i)") (auto simp: bad_length_def)

declare iter_from.simps [simp del]

definition iter_frames :: "byte list \<Rightarrow> SbfFrame list" where
  "iter_frames data = iter_from data 0"

function verify_from :: "byte list \<Rightarrow> nat \<Rightarrow> nat \<times> nat \<Rightarrow> nat \<times> nat" where
  "verify_from data i (frames, crc_fails) =
     (if i + 8 \<le> length data then
        if data ! i \<noteq> 0x24 \<or> data ! (i + 1) \<noteq> 0x40 then verify_from data (i + 1) (frames, crc_fails)
        else
          let crc = unpack_H data (i + 2); len = unpack_H data (i + 6) in
          if bad_length data i len then verify_from data (i + 1) (frames, crc_fails)
          else if py_crc_ccitt_xmodem (py_slice data (i + 4) (i + nat len)) \<noteq> crc
          then verify_from data (i + 1) (frames, crc_fails + 1)
          else verify_from data (i + nat len) (frames + 1, crc_fails)
      else (frames, crc_fails))"
  by pat_completeness auto
termination
  by (relation "measure (\<lambda>(data, i, _). length data - i)") (auto simp: bad_length_def)

declare verify_from.simps [simp del]

definition verify_sbf_bytes :: "byte list \<Rightarrow> nat \<times> nat" where
  "verify_sbf_bytes data = verify_from data 0 (0, 0)"

text \<open>\<open>bytes.hex\<close>: two lower-case digits per byte.\<close>

definition hex_digit :: "nat \<Rightarrow> char" where
  "hex_digit d = ''0123456789abcdef'' ! d"

definition bytes_hex :: "byte list \<Rightarrow> string" where
  "bytes_hex bs = concat (map (\<lambda>b. [hex_digit (unat b div 16), hex_digit (unat b mod 16)]) bs)"

text \<open>
  The dictionary that \<open>raw_scan\<close> returns; a \<open>Counter\<close> is a function that is 0 where nothing was counted.
\<close>

record raw_summary =
  rs_file_size :: nat
  rs_head_hex :: string
  rs_frames :: nat
  rs_recognized_bytes :: int
  rs_id_counts :: "int \<Rightarrow> nat"
  rs_rev_counts :: "int \<Rightarrow> int option"
  rs_crc_failed_by_id :: "int \<Rightarrow> nat"
  rs_crc_fails :: nat

definition raw_count_bad :: "int \<Rightarrow> raw_summary \<Rightarrow> raw_summary" where
  "raw_count_bad block_id r =
     r\<lparr>rs_crc_fails := rs_crc_fails r + 1,
       rs_crc_failed_by_id := (rs_crc_failed_by_id r)(block_id := rs_crc_failed_by_id r block_id + 1)\<rparr>"

definition raw_count_good :: "int \<Rightarrow> int \<Rightarrow> int \<Rightarrow> raw_summary \<Rightarrow> raw_summary" where
  "raw_count_good block_id revision len r =
     r\<lparr>rs_id_counts := (rs_id_counts r)(block_id := rs_id_counts r block_id + 1),
       rs_rev_counts := (rs_rev_counts r)(block_id \<mapsto>
         max (case rs_rev_counts r block_id of None \<Rightarrow> revision | Some v \<Rightarrow> v) revision),
       rs_recognized_bytes := rs_recognized_bytes r + len, rs_frames := rs_frames r + 1\<rparr>"

function raw_scan_from :: "byte list \<Rightarrow> nat \<Rightarrow> raw_summary \<Rightarrow> raw_summary" where
  "raw_scan_from data i r =
     (if i + 8 \<le> length data then
        if data ! i \<noteq> 0x24 \<or> data ! (i + 1) \<noteq> 0x40 then raw_scan_from data (i + 1) r
        else
          let crc = unpack_H data (i + 2); raw_id = unpack_H data (i + 4); len = unpack_H data (i + 6);
              block_id = raw_id AND 0x1FFF; revision = drop_bit 13 raw_id AND 7 in
          if bad_length data i len then raw_scan_from data (i + 1) r
          else if py_crc_ccitt_xmodem (py_slice data (i + 4) (i + nat len)) \<noteq> crc
          then raw_scan_from data (i + 1) (raw_count_bad block_id r)
          else raw_scan_from data (i + nat len) (raw_count_good block_id revision len r)
      else r)"
  by pat_completeness auto
termination
  by (relation "measure (\<lambda>(data, i, r). length data - i)") (auto simp: bad_length_def)

declare raw_scan_from.simps [simp del]

definition raw_scan :: "byte list \<Rightarrow> raw_summary" where
  "raw_scan data = raw_scan_from data 0
     \<lparr>rs_file_size = length data, rs_head_hex = bytes_hex (py_slice data 0 32), rs_frames = 0, rs_recognized_bytes = 0, rs_id_counts = (\<lambda>_. 0), rs_rev_counts = Map.empty,
      rs_crc_failed_by_id = (\<lambda>_. 0), rs_crc_fails = 0\<rparr>"

section \<open>The code: rebuilding frames\<close>

datatype py_error =
    Struct_error \<comment> \<open>a value does not fit its format\<close>
  | Value_error string
  | Key_error \<comment> \<open>a dictionary has no such key\<close>
  | OS_error \<comment> \<open>the file system refuses\<close>

definition pack_H :: "int \<Rightarrow> py_error + byte list" where
  "pack_H v = (if 0 \<le> v \<and> v \<le> 65535 then Inr [word_of_int v, word_of_int (v div 256)] else Inl Struct_error)"

definition rebuild_sbf_frame :: "int \<Rightarrow> byte list \<Rightarrow> py_error + byte list" where
  "rebuild_sbf_frame raw_id body =
     (let total = 8 + int (length body);
          pad = nat ((- total) mod 4);
          body_padded = body @ replicate pad 0;
          len = 8 + int (length body_padded)
      in if 8188 < len then Inl (Value_error (''SBF frame too large: '' @ int_to_string len @ '' bytes''))
         else
           bind_res (pack_H raw_id) (\<lambda>id_bytes.
           bind_res (pack_H len) (\<lambda>len_bytes.
           bind_res (pack_H (py_crc_ccitt_xmodem (id_bytes @ len_bytes @ body_padded))) (\<lambda>crc_bytes.
           Inr ([0x24, 0x40] @ crc_bytes @ id_bytes @ len_bytes @ body_padded)))))"

section \<open>The checksum is the driver's\<close>

lemma py_crc_shift_eq: "py_crc_shift (uint c) = uint (crc_bit c)"
proof -
  have top: "uint c AND 0x8000 \<noteq> 0 \<longleftrightarrow> bit c 15"
    using and_exp_eq_0_iff_not_bit [of "uint c" 15] by (simp add: bit_uint_iff)
  have mask: "x AND 0xFFFF = take_bit 16 x" for x :: int
    using take_bit_eq_mask [of 16 x] by (simp add: mask_eq_exp_minus_1)
  have "uint (c * 2) = take_bit 16 (uint c * 2)" by (simp add: uint_word_ariths take_bit_eq_mod)
  then have "take_bit 16 (push_bit 1 (uint c) XOR 0x1021) = uint (push_bit 1 c XOR 0x1021)"
    "take_bit 16 (push_bit 1 (uint c)) = uint (push_bit 1 c)"
    by (simp_all add: unsigned_xor_eq unsigned_push_bit_eq take_bit_xor)
  then show ?thesis by (simp add: py_crc_shift_def crc_bit_def top mask)
qed

lemma py_crc_byte_eq: "py_crc_byte (uint c) b = uint (crc_byte_ref c b)"
proof -
  have "uint c XOR push_bit 8 (uint b) = uint (c XOR push_bit 8 (ucast b))"
    by (rule bit_eqI) (auto simp: bit_simps dest: bit_imp_le_length)
  moreover have "(py_crc_shift ^^ n) (uint x) = uint ((crc_bit ^^ n) x)" for n x
    by (induction n) (simp_all add: py_crc_shift_eq)
  ultimately show ?thesis by (simp only: py_crc_byte_def crc_byte_ref_def)
qed

lemma py_crc_eq: "py_crc_ccitt_xmodem data = uint (crc_ccitt_xmodem data)"
proof -
  have "foldl py_crc_byte (uint c) data = uint (foldl crc_byte_ref c data)" for c
    by (induction data arbitrary: c) (simp_all add: py_crc_byte_eq)
  from this [of 0] show ?thesis by (simp add: py_crc_ccitt_xmodem_def crc_ccitt_xmodem_eq_ref crc_ref_def)
qed

section \<open>The walk and the driver's scanner\<close>

text \<open>A frame of the parser, as the driver has it.\<close>

definition to_frame :: "SbfFrame \<Rightarrow> Frame" where
  "to_frame f = \<lparr>frame_crc = word_of_int (sf_crc f), frame_raw_id = word_of_int (sf_raw_id f),
     frame_length = word_of_int (sf_length f), frame_body = sf_body f\<rparr>"

lemma uint_u16_of: "uint (u16_of lo hi) = uint lo + 256 * uint hi"
proof -
  have "uint (u16_of lo hi) = uint lo OR push_bit 8 (uint hi)"
    by (rule bit_eqI) (auto simp: u16_of_def bit_simps dest: bit_imp_le_length)
  moreover have "uint lo AND push_bit 8 (uint hi) = 0"
    by (rule bit_eqI) (auto simp: bit_simps dest: bit_imp_le_length)
  ultimately show ?thesis using disjunctive_add_eq_or [of "uint lo" "push_bit 8 (uint hi)"] by (simp add: push_bit_eq_mult)
qed

lemma unpack_u16: "i + 1 < length xs \<Longrightarrow> unpack_H (pre @ xs) (length pre + i) = uint (u16_at xs i)"
  using uint_u16_of by (simp add: unpack_H_def u16_at_def nth_append)

lemma slice_append: "py_slice (pre @ xs) (length pre + i) (length pre + j) = take (j - i) (drop i xs)"
  by (simp add: py_slice_def)

lemma len_ok_nat: "len_ok n \<longleftrightarrow> unat n mod 4 = 0 \<and> 8 \<le> unat n \<and> unat n \<le> 8188"
  by (simp add: len_ok_def kMaxSbfLength_def word_le_nat_alt word_unat_eq_iff unat_mod)

lemma bad_length_iff:
  "bad_length (pre @ xs) (length pre) (uint n) \<longleftrightarrow> \<not> len_ok n \<or> length xs < unat n"
proof -
  obtain k where k: "unat n = k" "uint n = int k" by simp
  show ?thesis unfolding bad_length_def len_ok_nat k length_append of_nat_add by presburger
qed

text \<open>One round of the walk at the front of \<open>xs\<close>, in the terms of the scanner's verdict.\<close>

lemma iter_round:
  assumes "8 \<le> length xs"
  shows "iter_from (pre @ xs) (length pre) =
     (if xs ! 0 = 0x24 \<and> (\<exists>f. verdict_of xs = Good f)
      then let n = unat (u16_at xs 6) in
        \<lparr>sf_offset = length pre, sf_crc = uint (u16_at xs 2), sf_raw_id = uint (u16_at xs 4),
         sf_block_id = uint (u16_at xs 4) AND 0x1FFF, sf_revision = drop_bit 13 (uint (u16_at xs 4)) AND 7,
         sf_length = uint (u16_at xs 6), sf_body = take (n - 8) (drop 8 xs)\<rparr> # iter_from (pre @ xs) (length pre + n)
      else iter_from (pre @ xs) (length pre + 1))"
proof -
  have at: "(pre @ xs) ! length pre = xs ! 0" "(pre @ xs) ! (length pre + 1) = xs ! 1"
    using assms by (auto simp: nth_append)
  have un: "unpack_H (pre @ xs) (length pre + 2) = uint (u16_at xs 2)" "unpack_H (pre @ xs) (length pre + 4) = uint (u16_at xs 4)"
      "unpack_H (pre @ xs) (length pre + 6) = uint (u16_at xs 6)"
    by (rule unpack_u16; use assms in simp)+
  let ?n = "u16_at xs 6"
  have sl: "py_slice (pre @ xs) (length pre + 4) (length pre + unat ?n) = take (unat ?n - 4) (drop 4 xs)"
      "py_slice (pre @ xs) (length pre + 8) (length pre + unat ?n) = take (unat ?n - 8) (drop 8 xs)"
    by (simp_all add: slice_append)
  have good: "(\<exists>f. verdict_of xs = Good f) \<longleftrightarrow> xs ! 1 = 0x40 \<and> \<not> bad_length (pre @ xs) (length pre) (uint ?n) \<and>
      py_crc_ccitt_xmodem (take (unat ?n - 4) (drop 4 xs)) = uint (u16_at xs 2)"
    using assms by (auto simp: verdict_Good_iff bad_length_iff py_crc_eq word_uint_eq_iff)
  have "length pre + 8 \<le> length (pre @ xs)" using assms by simp
  then show ?thesis
    unfolding good iter_from.simps [of "pre @ xs" "length pre"] Let_def at un nat_uint_eq sl by simp
qed

lemma iter_short: "length xs < 8 \<Longrightarrow> iter_from (pre @ xs) (length pre) = []"
  by (simp add: iter_from.simps)

lemma scan_short: "length xs < 8 \<Longrightarrow> scan_frames xs = []"
proof (induction xs rule: scan.induct)
  case (2 b bs)
  have "\<not> (\<exists>f. verdict_of (b # bs) = Good f)" using 2(6) verdict_Good_iff [of "b # bs"] by auto
  with 2 show ?case by (auto simp: scan.simps(2) Let_def split: verdict.splits)
qed simp

text \<open>
  The walk finds first what the scanner finds; where the scanner would wait for more bytes, the walk goes on behind
  the dollar sign.
\<close>

lemma iter_scan:
  "\<exists>more. map to_frame (iter_from (pre @ xs) (length pre)) = scan_frames xs @ more \<and> (scan_rest xs = [] \<longrightarrow> more = [])"
proof (induction xs arbitrary: pre rule: scan.induct)
  case 1
  then show ?case using iter_short [of "[]" pre] by simp
next
  case (2 b bs)
  show ?case
  proof (cases "length (b # bs) < 8")
    case True
    then show ?thesis by (simp add: iter_short scan_short)
  next
    case False
    then have round: "iter_from (pre @ b # bs) (length pre) = iter_from ((pre @ [b]) @ bs) (length (pre @ [b]))"
      if "b \<noteq> 0x24 \<or> \<not> (\<exists>f. verdict_of (b # bs) = Good f)"
      using iter_round [of "b # bs" pre] that by auto
    show ?thesis
    proof (cases "b = 0x24")
      case False
      with round 2(1) [OF False, of "pre @ [b]"] show ?thesis by (simp add: scan.simps(2))
    next
      case b: True
      show ?thesis
      proof (cases "verdict_of (b # bs)")
        case (Good f)
        let ?n = "unat (frame_length f)"
        let ?pre = "pre @ take ?n (b # bs)" and ?xs = "drop (?n - 1) bs"
        have f: "frame_length f = u16_at (b # bs) 6" "8 \<le> ?n" "?n \<le> length (b # bs)"
          using Good verdict_Good_length [OF Good] by (auto simp: verdict_Good_iff)
        have xs: "?xs = drop ?n (b # bs)" using f(2) by (simp add: drop_Cons')
        then have split: "?pre @ ?xs = pre @ b # bs" "length ?pre = length pre + ?n" using f(3) by (simp_all del: drop_Cons)
        obtain h where h: "iter_from (pre @ b # bs) (length pre) = h # iter_from (?pre @ ?xs) (length ?pre)" "to_frame h = f"
          using iter_round [of "b # bs" pre] \<open>\<not> length (b # bs) < 8\<close> b Good f(1) split
          by (auto simp: to_frame_def verdict_Good_iff Let_def)
        with 2(5) [OF _ Good, of ?pre] b Good show ?thesis by (auto simp: scan.simps(2) Let_def)
      qed (use b round 2(2-4) [of "pre @ [b]"] in \<open>auto simp: scan.simps(2) Let_def\<close>)
    qed
  qed
qed

lemma iter_wires:
  assumes "\<forall>f \<in> set fs. valid_frame f"
  shows "map to_frame (iter_frames (concat (map wire fs))) = fs"
proof -
  have "scan_frames (concat (map wire fs)) = fs \<and> scan_rest (concat (map wire fs)) = []"
    using scan_wires [OF assms, of "[]"] by simp
  with iter_scan [of "[]" "concat (map wire fs)"] show ?thesis by (auto simp: iter_frames_def)
qed

section \<open>The three walks agree\<close>

text \<open>
  Induction along the three walks at once: they stop together, pass over the same bytes, count the same checksum
  failures, and find the same frames.
\<close>

lemma walk_induct [case_names Stop Skip Crc Good]:
  assumes stop: "\<And>i. length data < i + 8 \<Longrightarrow> P i"
    and skip: "\<And>i. i + 8 \<le> length data \<Longrightarrow> iter_from data i = iter_from data (i + 1) \<Longrightarrow>
      (\<And>x. verify_from data i x = verify_from data (i + 1) x) \<Longrightarrow>
      (\<And>r. raw_scan_from data i r = raw_scan_from data (i + 1) r) \<Longrightarrow> P (i + 1) \<Longrightarrow> P i"
    and crc: "\<And>i k. i + 8 \<le> length data \<Longrightarrow> iter_from data i = iter_from data (i + 1) \<Longrightarrow>
      (\<And>m c. verify_from data i (m, c) = verify_from data (i + 1) (m, c + 1)) \<Longrightarrow>
      (\<And>r. raw_scan_from data i r = raw_scan_from data (i + 1) (raw_count_bad k r)) \<Longrightarrow> P (i + 1) \<Longrightarrow> P i"
    and good: "\<And>i f. i + nat (sf_length f) \<le> length data \<Longrightarrow> 8 \<le> sf_length f \<Longrightarrow>
      iter_from data i = f # iter_from data (i + nat (sf_length f)) \<Longrightarrow>
      (\<And>m c. verify_from data i (m, c) = verify_from data (i + nat (sf_length f)) (m + 1, c)) \<Longrightarrow>
      (\<And>r. raw_scan_from data i r =
        raw_scan_from data (i + nat (sf_length f)) (raw_count_good (sf_block_id f) (sf_revision f) (sf_length f) r)) \<Longrightarrow>
      P (i + nat (sf_length f)) \<Longrightarrow> P i"
  shows "P i"
proof (induction "length data - i" arbitrary: i rule: less_induct)
  case less
  let ?len = "unpack_H data (i + 6)" and ?raw_id = "unpack_H data (i + 4)" and ?crc = "unpack_H data (i + 2)"
  let ?sum = "py_crc_ccitt_xmodem (py_slice data (i + 4) (i + nat ?len))"
  let ?f = "\<lparr>sf_offset = i, sf_crc = ?crc, sf_raw_id = ?raw_id, sf_block_id = ?raw_id AND 0x1FFF,
    sf_revision = drop_bit 13 ?raw_id AND 7, sf_length = ?len, sf_body = py_slice data (i + 8) (i + nat ?len)\<rparr>"
  note walks = iter_from.simps [of data i] verify_from.simps [of data i] raw_scan_from.simps [of data i] Let_def
  consider (stop) "\<not> i + 8 \<le> length data"
    | (skip) "i + 8 \<le> length data" "(data ! i \<noteq> 0x24 \<or> data ! (i + 1) \<noteq> 0x40) \<or> bad_length data i ?len"
    | (crc) "i + 8 \<le> length data" "\<not> (data ! i \<noteq> 0x24 \<or> data ! (i + 1) \<noteq> 0x40)" "\<not> bad_length data i ?len" "?sum \<noteq> ?crc"
    | (good) "i + 8 \<le> length data" "\<not> (data ! i \<noteq> 0x24 \<or> data ! (i + 1) \<noteq> 0x40)" "\<not> bad_length data i ?len" "?sum = ?crc"
    by blast
  then show ?case
  proof cases
    case stop
    then show ?thesis by (intro assms(1)) simp
  next
    case i: skip
    then have next_i: "P (i + 1)" by (intro less) simp
    show ?thesis
    proof (rule skip [OF i(1) _ _ _ next_i])
      fix x show "verify_from data i x = verify_from data (i + 1) x" using i by (cases x) (auto simp only: walks if_True if_False if_cancel simp_thms)
    qed (use i in \<open>auto simp only: walks if_True if_False if_cancel simp_thms\<close>)
  next
    case i: crc
    then have next_i: "P (i + 1)" by (intro less) simp
    show ?thesis by (rule crc [OF i(1) _ _ _ next_i]) (simp_all only: walks i if_True if_False simp_thms)
  next
    case i: good
    then have len: "8 \<le> ?len" "i + nat ?len \<le> length data" by (auto simp: bad_length_def)
    then have next_i: "P (i + nat (sf_length ?f))" by (intro less) simp
    show ?thesis
      by (rule good [of _ ?f, OF _ _ _ _ _ next_i]) (simp_all only: walks i len if_True if_False simp_thms SbfFrame.simps)
  qed
qed

lemma verify_from_eq: "fst (verify_from data i (m, c)) = m + length (iter_from data i)"
proof (induction i arbitrary: m c rule: walk_induct [of data])
  case (Stop i)
  then show ?case by (simp add: iter_from.simps verify_from.simps)
qed simp_all

lemma raw_scan_from_eq:
  "rs_frames (raw_scan_from data i r) = rs_frames r + length (iter_from data i) \<and>
   rs_recognized_bytes (raw_scan_from data i r) = rs_recognized_bytes r + sum_list (map sf_length (iter_from data i)) \<and>
   rs_id_counts (raw_scan_from data i r) k = rs_id_counts r k + length (filter (\<lambda>f. sf_block_id f = k) (iter_from data i)) \<and>
   rs_crc_fails (raw_scan_from data i r) = snd (verify_from data i (m, rs_crc_fails r))"
proof (induction i arbitrary: r m rule: walk_induct [of data])
  case (Stop i)
  then show ?case by (simp add: iter_from.simps verify_from.simps raw_scan_from.simps)
next
  case (Skip i)
  show ?case using Skip(5) [of r m] by (simp only: Skip(2-4))
next
  case (Crc i b)
  show ?case using Crc(5) [of "raw_count_bad b r" m] by (simp only: Crc(2-4)) (simp add: raw_count_bad_def)
next
  case (Good i f)
  show ?case using Good(6) [of "raw_count_good (sf_block_id f) (sf_revision f) (sf_length f) r" "m + 1"]
    by (simp only: Good(3-5)) (simp add: raw_count_good_def)
qed

text \<open>The frames found do not overlap, and where they leave out no byte, no checksum failure was counted.\<close>

lemma walk_complete:
  assumes "i \<le> length data"
  shows "sum_list (map sf_length (iter_from data i)) \<le> int (length data - i) \<and>
    (sum_list (map sf_length (iter_from data i)) = int (length data - i) \<longrightarrow> snd (verify_from data i (m, c)) = c)"
  using assms
proof (induction i arbitrary: m c rule: walk_induct [of data])
  case (Stop i)
  then show ?case by (simp add: iter_from.simps verify_from.simps)
next
  case (Skip i)
  then show ?case using Skip(5) [of m c] by (simp only: Skip(2,3)) linarith
next
  case (Crc i k)
  then show ?case using Crc(5) [of m "c + 1"] by (simp only: Crc(2,3)) linarith
next
  case (Good i f)
  then show ?case using Good(6) [of "m + 1" c] by (simp only: Good(3,4)) auto
qed

section \<open>Rebuilding frames\<close>

text \<open>The bytes that \<open>struct.pack\<close> writes for 16 bits are those of the word.\<close>

lemma pack_H_uint: "pack_H (uint (w :: u16)) = Inr [lo_byte w, hi_byte w]"
proof -
  have "word_of_int (uint w) = (ucast w :: byte)" by (rule bit_word_eqI) (simp add: bit_simps)
  moreover have "uint w div 256 = uint (drop_bit 8 w)"
    by (simp add: drop_bit_eq_div uint_div)
  then have "word_of_int (uint w div 256) = (ucast (drop_bit 8 w) :: byte)" by (simp only: ucast_eq)
  moreover have "uint w \<le> 65535" using uint_lt2p [of w] by simp
  ultimately show ?thesis by (simp add: pack_H_def lo_byte_def hi_byte_def)
qed

definition rebuilt :: "u16 \<Rightarrow> byte list \<Rightarrow> Frame" where
  "rebuilt raw_id body =
     (let padded = body @ replicate (nat ((- (8 + int (length body))) mod 4)) 0;
          len = word_of_nat (8 + length padded)
      in \<lparr>frame_crc = crc_ccitt_xmodem ([lo_byte raw_id, hi_byte raw_id, lo_byte len, hi_byte len] @ padded),
          frame_raw_id = raw_id, frame_length = len, frame_body = padded\<rparr>)"

lemma padding:
  fixes k :: nat
  defines "pad \<equiv> nat ((- (8 + int k)) mod 4)"
  shows "(8 + (k + pad)) mod 4 = 0" "k + pad \<le> 8180 \<longleftrightarrow> k \<le> 8180"
proof -
  have pad: "int pad = (- (8 + int k)) mod 4" by (simp add: pad_def)
  have "(8 + (int k + (- (8 + int k)) mod 4)) mod 4 = 0" by presburger
  then have "int ((8 + (k + pad)) mod 4) = 0" by (simp only: zmod_int of_nat_add pad of_nat_numeral)
  then show "(8 + (k + pad)) mod 4 = 0" by simp
  have "int k + (- (8 + int k)) mod 4 \<le> 8180 \<longleftrightarrow> int k \<le> 8180" by presburger
  then have "int k + int pad \<le> 8180 \<longleftrightarrow> int k \<le> 8180" by (simp only: pad)
  then show "k + pad \<le> 8180 \<longleftrightarrow> k \<le> 8180" by linarith
qed

lemma rebuild_sbf_frame_wire:
  assumes "length body \<le> 8180"
  shows "rebuild_sbf_frame (uint raw_id) body = Inr (wire (rebuilt raw_id body))" and "valid_frame (rebuilt raw_id body)"
proof -
  let ?padded = "body @ replicate (nat ((- (8 + int (length body))) mod 4)) (0 :: byte)"
  let ?n = "8 + length ?padded" and ?len = "word_of_nat (8 + length ?padded) :: u16"
  have n: "?n mod 4 = 0" "?n \<le> 8188"
    using padding [of "length body"] assms by (auto simp only: length_append length_replicate)
  then have "?n < 2 ^ LENGTH(16)" by simp
  then have len: "unat ?len = ?n" "int ?n = uint ?len"
    by (simp_all only: unsigned_of_nat take_bit_nat_eq_self of_nat_id uint_nat)
  show "valid_frame (rebuilt raw_id body)"
    using n len(1) by (simp add: valid_frame_def rebuilt_def Let_def len_ok_nat wire_def)
  show "rebuild_sbf_frame (uint raw_id) body = Inr (wire (rebuilt raw_id body))"
    using n(2) len(2) pack_H_uint
    by (simp add: rebuild_sbf_frame_def rebuilt_def Let_def wire_def py_crc_eq)
qed

lemma rebuilt_valid:
  assumes "valid_frame f"
  shows "rebuilt (frame_raw_id f) (frame_body f) = f"
proof -
  have n: "unat (frame_length f) = 8 + length (frame_body f)" "unat (frame_length f) mod 4 = 0"
    using assms unfolding valid_frame_def len_ok_nat by blast+
  then have "4 dvd 8 + int (length (frame_body f))" by presburger
  then have "(- (8 + int (length (frame_body f)))) mod 4 = 0" by presburger
  then have pad: "nat ((- (8 + int (length (frame_body f)))) mod 4) = 0" by simp
  have len: "word_of_nat (8 + length (frame_body f)) = frame_length f" by (simp flip: n(1) del: of_nat_add)
  have crc: "frame_crc f = crc_ccitt_xmodem (drop 4 (wire f))" using assms by (simp add: valid_frame_def)
  show ?thesis
    by (rule Frame.equality) (simp_all only: rebuilt_def Let_def pad replicate_0 append_Nil2 len crc, simp_all add: wire_def)
qed

lemma iter_member:
  assumes "f \<in> set (iter_from data i)"
  shows "valid_frame (to_frame f) \<and> wire (to_frame f) = py_slice data (sf_offset f) (sf_offset f + nat (sf_length f)) \<and>
    sf_raw_id f = uint (frame_raw_id (to_frame f)) \<and> sf_body f = frame_body (to_frame f) \<and>
    sf_length f = uint (frame_length (to_frame f))"
  using assms
proof (induction "length data - i" arbitrary: i rule: less_induct)
  case less
  have "i + 8 \<le> length data" using less(2) iter_from.simps [of data i] by (cases "i + 8 \<le> length data") auto
  then have i: "i \<le> length data" "8 \<le> length (drop i data)" by simp_all
  let ?xs = "drop i data"
  have xs: "take i data @ ?xs = data" "length (take i data) = i" using i by simp_all
  note round = iter_round [OF i(2), of "take i data", unfolded xs]
  show ?case
  proof (cases "?xs ! 0 = 0x24 \<and> (\<exists>g. verdict_of ?xs = Good g)")
    case False
    with round less(1) [of "i + 1"] less(2) i show ?thesis by auto
  next
    case True
    then obtain g bs where g: "verdict_of (0x24 # bs) = Good g" "?xs = 0x24 # bs" using i(2) by (cases ?xs) auto
    then have n: "8 \<le> unat (frame_length g)" "frame_length g = u16_at ?xs 6" and g': "frame_raw_id g = u16_at ?xs 4"
      "frame_crc g = u16_at ?xs 2" "frame_body g = take (unat (frame_length g) - 8) (drop 8 ?xs)"
      using verdict_Good_length [OF g(1)] by (auto simp: verdict_Good_iff)
    show ?thesis
    proof (cases "f \<in> set (iter_from data (i + unat (frame_length g)))")
      case True
      with less(1) [of "i + unat (frame_length g)"] n(1) i show ?thesis by auto
    next
      case False
      with less(2) round True n(2) have f: "sf_offset f = i" "sf_length f = uint (frame_length g)" "to_frame f = g"
          "sf_raw_id f = uint (frame_raw_id g)" "sf_body f = frame_body g"
        by (auto simp: Let_def to_frame_def g' n(2))
      then show ?thesis using verdict_Good_wire [OF g(1)] g(2) by (simp add: py_slice_def nat_uint_eq)
    qed
  qed
qed

text \<open>A file that holds whole frames and nothing else is read without remainder and without checksum failures.\<close>

lemma whole_frames:
  assumes "\<forall>f \<in> set fs. valid_frame f"
  defines "data \<equiv> concat (map wire fs)"
  shows "verify_sbf_bytes data = (length fs, 0)" and "rs_frames (raw_scan data) = length fs"
    and "rs_recognized_bytes (raw_scan data) = int (length data)" and "rs_crc_fails (raw_scan data) = 0"
proof -
  let ?gs = "iter_from data 0"
  have fs: "map to_frame ?gs = fs" using iter_wires [OF assms(1)] by (simp add: iter_frames_def data_def)
  have "sf_length g = int (length (wire (to_frame g)))" if "g \<in> set ?gs" for g
  proof -
    have "sf_length g = uint (frame_length (to_frame g))" "unat (frame_length (to_frame g)) = length (wire (to_frame g))"
      using iter_member [OF that] unfolding valid_frame_def len_wire by blast+
    then show ?thesis by (simp only: uint_nat)
  qed
  then have "map sf_length ?gs = map (int \<circ> length \<circ> wire) (map to_frame ?gs)" by simp
  moreover have "sum_list (map (int \<circ> length \<circ> wire) gs) = int (length (concat (map wire gs)))" for gs
    by (induction gs) simp_all
  ultimately have sum: "sum_list (map sf_length ?gs) = int (length data)" by (simp only: fs) (simp only: data_def)
  have len: "length ?gs = length fs" using fs by (metis length_map)
  have snd: "snd (verify_from data 0 (0, 0)) = 0" using walk_complete [of 0 data 0 0] sum by simp
  then show "verify_sbf_bytes data = (length fs, 0)"
    using verify_from_eq [of data 0 0 0] len by (simp add: verify_sbf_bytes_def prod_eq_iff)
  show "rs_frames (raw_scan data) = length fs" "rs_recognized_bytes (raw_scan data) = int (length data)"
    "rs_crc_fails (raw_scan data) = 0"
    unfolding raw_scan_def using raw_scan_from_eq [of data 0 _ _ 0] sum len snd by simp_all
qed

section \<open>Properties\<close>

text \<open>
  The offline parser reads a byte sequence as the driver's specification scanner does: its frames begin with the
  scanner's frames, in order, and they are exactly those when the scanner has no incomplete frame left at the end.
\<close>

theorem parser_finds_driver_frames:
  "prefix (scan_frames data) (map to_frame (iter_frames data)) \<and>
   (scan_rest data = [] \<longrightarrow> map to_frame (iter_frames data) = scan_frames data)"
  using iter_scan [of "[]" data] by (auto simp: iter_frames_def)

text \<open>A recording of a byte of noise and an empty block.\<close>

definition ex_recording :: "byte list" where
  "ex_recording = 0x55 # wire (rebuilt 4027 [])"

lemma ex_recording_scan:
  "scan ex_recording = \<lparr>sc_frames = [rebuilt 4027 []], sc_rest = [], sc_crc = 0, sc_len = 0\<rparr>"
proof -
  have "scan ex_recording = scan (wire (rebuilt 4027 []))" using scan_junk [of "[0x55]"] by (simp add: ex_recording_def)
  also have "\<dots> = \<lparr>sc_frames = [rebuilt 4027 []], sc_rest = [], sc_crc = 0, sc_len = 0\<rparr>"
    using scan_wire [OF rebuild_sbf_frame_wire(2), of "[]" 4027 "[]"] by (simp add: Let_def)
  finally show ?thesis .
qed

lemma ex_recording_frames: "map to_frame (iter_frames ex_recording) = [rebuilt 4027 []]"
  using iter_scan [of "[]" ex_recording] by (auto simp: iter_frames_def ex_recording_scan)

theorem parser_finds_driver_frames_witness:
  "scan_rest ex_recording = [] \<and> map to_frame (iter_frames ex_recording) = scan_frames ex_recording"
  using parser_finds_driver_frames [of ex_recording] ex_recording_scan by simp

text \<open>
  Rebuilding a frame the parser has found, as the export does for the blocks every antenna shares, gives the very
  bytes of the recording at the frame's offset: no padding is added, and the checksum and the length come out the same.
\<close>

theorem rebuild_verbatim:
  assumes "f \<in> set (iter_frames data)"
  shows "rebuild_sbf_frame (sf_raw_id f) (sf_body f) = Inr (py_slice data (sf_offset f) (sf_offset f + nat (sf_length f)))"
proof -
  note f = iter_member [OF assms [unfolded iter_frames_def]]
  then have "length (frame_body (to_frame f)) \<le> 8180" by (auto simp: valid_frame_def len_ok_nat)
  from rebuild_sbf_frame_wire(1) [OF this] f show ?thesis by (simp add: rebuilt_valid)
qed

theorem rebuild_verbatim_witness:
  "\<exists>f \<in> set (iter_frames ex_recording). rebuild_sbf_frame (sf_raw_id f) (sf_body f) =
     Inr (py_slice ex_recording (sf_offset f) (sf_offset f + nat (sf_length f)))"
proof -
  obtain f where "f \<in> set (iter_frames ex_recording)"
    using ex_recording_frames by (metis list.map_disc_iff list.set_intros(1) neq_Nil_conv)
  then show ?thesis using rebuild_verbatim by blast
qed

end
