(* ===== verification/OfflineExtra.thy ===== *)
theory OfflineExtra
  imports OfflineParser
begin

text \<open>
  The sub-blocks of a MeasExtra block in src/scripts/parser.py: splitting a body into sub-blocks
  (\<open>meas_extra_subblocks\<close>) and the body that keeps those of one antenna (\<open>build_meas_extra_body\<close>). The number of
  sub-blocks is stored modulo 256 and recovered from the size of the body.
\<close>

section \<open>The code\<close>

text \<open>The loop over the sub-blocks, from offset \<open>off\<close> on, at most \<open>n\<close> of them.\<close>

fun subblocks_from :: "byte list \<Rightarrow> int \<Rightarrow> nat \<Rightarrow> nat \<Rightarrow> byte list list" where
  "subblocks_from body sb_len off 0 = []"
| "subblocks_from body sb_len off (Suc n) =
     (if int off + sb_len > int (length body) then []
      else py_slice body off (off + nat sb_len) # subblocks_from body sb_len (off + nat sb_len) n)"

definition meas_extra_subblocks :: "byte list \<Rightarrow> byte list \<times> int \<times> byte list list" where
  "meas_extra_subblocks body =
     (if length body < 12 then ([], 0, [])
      else
        let n_mod = uint (body ! 6); sb_len = uint (body ! 7) in
        if sb_len = 0 then ([], 0, [])
        else
          let payload_len = max 0 (int (length body) - 12);
              nr = ((payload_len div sb_len - n_mod) div 256) * 256 + n_mod;
              nr_subblocks = (if nr \<le> 0 \<or> nr * sb_len > payload_len then payload_len div sb_len else nr)
          in (py_slice body 0 12, sb_len, subblocks_from body sb_len 12 (nat nr_subblocks)))"

fun keep_blocks :: "byte list list \<Rightarrow> nat list \<Rightarrow> byte list" where
  "keep_blocks blocks [] = []"
| "keep_blocks blocks (idx # idxs) = (if idx < length blocks then blocks ! idx else []) @ keep_blocks blocks idxs"

definition build_meas_extra_body :: "byte list \<Rightarrow> nat list \<Rightarrow> byte list option" where
  "build_meas_extra_body body indices =
     (case meas_extra_subblocks body of (header, sb_len, blocks) \<Rightarrow>
        if header = [] \<or> sb_len = 0 \<or> indices = [] then None
        else
          let kept = keep_blocks blocks indices in
          if kept = [] then None
          else Some (py_slice header 0 6 @ [word_of_int (int (length kept) div sb_len mod 256), word_of_int sb_len] @
                     py_slice header 8 12 @ kept))"

section \<open>Splitting and keeping\<close>

lemma subblocks_length: "b \<in> set (subblocks_from body s off n) \<Longrightarrow> 0 \<le> s \<Longrightarrow> length b = nat s"
  by (induction body s off n rule: subblocks_from.induct) (auto simp: py_slice_def split: if_splits)

lemma subblocks_concat:
  assumes "\<forall>b \<in> set bs. length b = nat s" and "0 \<le> s"
  shows "subblocks_from (pre @ concat bs @ pad) s (length pre) (length bs) = bs"
  using assms
proof (induction bs arbitrary: pre)
  case (Cons b bs)
  then have "subblocks_from ((pre @ b) @ concat bs @ pad) s (length (pre @ b)) (length bs) = bs" by (intro Cons.IH) auto
  with Cons.prems show ?case by (simp add: py_slice_def)
qed simp

text \<open>The blocks that the indices select.\<close>

definition selected :: "byte list list \<Rightarrow> nat list \<Rightarrow> byte list list" where
  "selected blocks indices = map ((!) blocks) (filter (\<lambda>i. i < length blocks) indices)"

lemma keep_blocks_selected: "keep_blocks blocks indices = concat (selected blocks indices)"
  by (induction indices) (auto simp: selected_def)

lemma selected_lengths: "\<forall>b \<in> set blocks. length b = n \<Longrightarrow> \<forall>b \<in> set (selected blocks indices). length b = n"
  by (auto simp: selected_def)

lemma concat_length: "\<forall>b \<in> set bs. length b = n \<Longrightarrow> length (concat bs) = length bs * n"
  by (induction bs) auto

text \<open>The count modulo 256 and the size, with less than 256 sub-blocks' worth of bytes behind them, give the count.\<close>

lemma count_recovered:
  fixes k s :: int
  assumes "0 < k" "0 < s" "0 \<le> e" "e < 4"
  shows "(((k * s + e) div s - k mod 256) div 256) * 256 + k mod 256 = k"
proof -
  have d: "(k * s + e) div s = k + e div s" using assms(2) by simp
  have "0 \<le> e div s" "e div s \<le> e" using assms zdiv_mono2 [of e 1 s] by (simp_all add: pos_imp_zdiv_nonneg_iff)
  then obtain x where x: "e div s = x" "0 \<le> x" "x < 4" using assms(4) by auto
  have "k + x - k mod 256 = x + k div 256 * 256" using div_mult_mod_eq [of k 256] by linarith
  then have "(k + x - k mod 256) div 256 = k div 256" using x(2,3) by (simp add: div_pos_pos_trivial)
  then show ?thesis unfolding d x(1) using div_mult_mod_eq [of k 256] by linarith
qed

lemma build_cases:
  assumes "build_meas_extra_body body indices = Some b"
  obtains header s blocks h where "meas_extra_subblocks body = (header, s, blocks)" "0 < s" "s < 256"
    "\<forall>x \<in> set blocks. length x = nat s" "selected blocks indices \<noteq> []" "length header = 12" "length h = 4"
    "b = py_slice header 0 6 @ [word_of_int (int (length (selected blocks indices)) mod 256), word_of_int s] @ h @
       concat (selected blocks indices)"
proof -
  obtain header s blocks where m: "meas_extra_subblocks body = (header, s, blocks)" by (cases "meas_extra_subblocks body")
  have ne: "header \<noteq> []" "s \<noteq> 0" "keep_blocks blocks indices \<noteq> []"
    and b: "b = py_slice header 0 6 @ [word_of_int (int (length (keep_blocks blocks indices)) div s mod 256), word_of_int s] @
       py_slice header 8 12 @ keep_blocks blocks indices"
    using assms by (auto simp: build_meas_extra_body_def m Let_def split: if_splits)
  have s: "s = uint (body ! 7)" "length header = 12" "\<exists>n. blocks = subblocks_from body s 12 n"
    using m ne(1) by (auto simp: meas_extra_subblocks_def Let_def py_slice_def split: if_splits)
  have "0 \<le> s" unfolding s(1) by (rule uint_ge_0)
  moreover have "s < 256" using uint_lt2p [of "body ! 7"] by (simp add: s(1))
  ultimately have s_pos: "0 < s" "s < 256" using ne(2) by simp_all
  have len: "\<forall>x \<in> set blocks. length x = nat s" using s(3) subblocks_length s_pos(1) by fastforce
  let ?sel = "selected blocks indices"
  have "length (concat ?sel) = length ?sel * nat s" by (rule concat_length [OF selected_lengths [OF len]])
  then have "int (length (concat ?sel)) div s = int (length ?sel)" using s_pos(1) by simp
  with b have b': "b = py_slice header 0 6 @ [word_of_int (int (length ?sel) mod 256), word_of_int s] @ py_slice header 8 12 @ concat ?sel"
    by (simp only: keep_blocks_selected)
  have "?sel \<noteq> []" using ne(3) unfolding keep_blocks_selected by auto
  moreover have "length (py_slice header 8 12) = 4" using s(2) by (simp add: py_slice_def)
  ultimately show ?thesis using that [OF m s_pos len _ s(2) _ b'] by blast
qed

lemma byte_of_int: "0 \<le> k \<Longrightarrow> k < 256 \<Longrightarrow> uint (word_of_int k :: byte) = k"
  by (simp add: unsigned_of_int take_bit_int_eq_self)

lemma subblocks_of_built:
  assumes "build_meas_extra_body body indices = Some b" and "length pad < 4"
  shows "snd (meas_extra_subblocks (b @ pad)) =
     (fst (snd (meas_extra_subblocks body)), selected (snd (snd (meas_extra_subblocks body))) indices)"
proof -
  obtain header s blocks h where B: "meas_extra_subblocks body = (header, s, blocks)" "0 < s" "s < 256"
    "\<forall>x \<in> set blocks. length x = nat s" "selected blocks indices \<noteq> []" "length header = 12" "length h = 4"
    "b = py_slice header 0 6 @ [word_of_int (int (length (selected blocks indices)) mod 256), word_of_int s] @ h @
       concat (selected blocks indices)"
    by (rule build_cases [OF assms(1)])
  let ?sel = "selected blocks indices" and ?pre = "py_slice header 0 6 @ [word_of_int (int (length (selected blocks indices)) mod 256), word_of_int s] @ h"
  let ?k = "int (length ?sel)" and ?e = "int (length pad)"
  have six: "length (py_slice header 0 6) = 6" using B(6) by (simp add: py_slice_def)
  have sizes: "length (concat ?sel) = length ?sel * nat s" by (rule concat_length [OF selected_lengths [OF B(4)]])
  have bytes: "uint ((b @ pad) ! 6) = ?k mod 256" "uint ((b @ pad) ! 7) = s"
    using six B(2,3) byte_of_int by (simp_all add: B(8) nth_append)
  have pre: "b @ pad = ?pre @ concat ?sel @ pad" "length ?pre = 12" using six B(7) by (simp_all add: B(8))
  have payload: "max 0 (int (length (b @ pad)) - 12) = ?k * s + ?e" using six B(2,7) sizes unfolding pre(1) by simp
  have nr: "(((?k * s + ?e) div s - ?k mod 256) div 256) * 256 + ?k mod 256 = ?k"
    using B(2,5) assms(2) by (intro count_recovered) auto
  have "subblocks_from (b @ pad) s 12 (length ?sel) = ?sel"
    using subblocks_concat [OF selected_lengths [OF B(4), of indices], of ?pre pad] B(2) pre by simp
  moreover have "0 < ?k" "\<not> length (b @ pad) < 12" using B(5) pre by simp_all
  ultimately show ?thesis
    unfolding meas_extra_subblocks_def [of "b @ pad"] Let_def bytes payload nr using B(1,2) by simp
qed

section \<open>Properties\<close>

text \<open>
  C39: Filtering a MeasExtra block keeps what it should: when the body built for some indices fits into a frame, the
  frame rebuilt from it, zero padding included, is read back by the parser as one frame, whose sub-blocks, their
  number recovered from its remainder modulo 256 and from the size of the body, are those that the indices select,
  in the order of the indices.
\<close>

theorem filtered_extra_reads_back:
  assumes "build_meas_extra_body body indices = Some b" and "length b \<le> 8180"
  shows "\<exists>bytes f. rebuild_sbf_frame (uint (raw_id :: u16)) b = Inr bytes \<and> iter_frames bytes = [f] \<and>
     sf_raw_id f = uint raw_id \<and>
     snd (meas_extra_subblocks (sf_body f)) =
       (fst (snd (meas_extra_subblocks body)), selected (snd (snd (meas_extra_subblocks body))) indices)"
proof -
  let ?g = "rebuilt raw_id b"
  have g: "rebuild_sbf_frame (uint raw_id) b = Inr (wire ?g)" "valid_frame ?g"
    using rebuild_sbf_frame_wire [OF assms(2)] by blast+
  have "map to_frame (iter_frames (wire ?g)) = [?g]" using iter_wires [of "[?g]"] g(2) by simp
  then obtain f where f: "iter_frames (wire ?g) = [f]" "to_frame f = ?g" by auto
  then have m: "sf_raw_id f = uint (frame_raw_id ?g)" "sf_body f = frame_body ?g"
    using iter_member [of f "wire ?g" 0] by (simp_all add: iter_frames_def)
  obtain pad where pad: "frame_body ?g = b @ pad" "length pad < 4" "frame_raw_id ?g = raw_id"
    unfolding rebuilt_def Let_def by (auto intro!: that)
  from subblocks_of_built [OF assms(1) pad(2)] f(1) m g(1) pad show ?thesis by auto
qed

text \<open>Two sub-blocks of two bytes, of which the second is kept.\<close>

definition ex_extra :: "byte list" where
  "ex_extra = [0, 0, 0, 0, 0, 0, 2, 2, 0, 0, 0, 0, 11, 12, 21, 22]"

theorem filtered_extra_reads_back_witness:
  "\<exists>bytes f. rebuild_sbf_frame 4000 [0, 0, 0, 0, 0, 0, 1, 2, 0, 0, 0, 0, 21, 22] = Inr bytes \<and> iter_frames bytes = [f] \<and>
     snd (meas_extra_subblocks (sf_body f)) = (2, [[21, 22]])"
proof -
  have e: "meas_extra_subblocks ex_extra = ([0, 0, 0, 0, 0, 0, 2, 2, 0, 0, 0, 0], 2, [[11, 12], [21, 22]])"
    by code_simp
  then have b: "build_meas_extra_body ex_extra [1] = Some [0, 0, 0, 0, 0, 0, 1, 2, 0, 0, 0, 0, 21, 22]"
    by (simp add: build_meas_extra_body_def py_slice_def numeral_eq_Suc)
  show ?thesis using filtered_extra_reads_back [OF b, of 4000] by (auto simp: e selected_def)
qed

end
