(* ===== verification/OfflineSink.thy ===== *)
theory OfflineSink
  imports OfflineParser "HOL-Library.AList"
begin

text \<open>
  The class \<open>SbfSink\<close> of src/scripts/parser.py: one file per antenna, opened when the antenna has its first block, and
  blocks that every antenna shares, written to the open files and kept for the files opened later. The file system may
  refuse to make the directory, to open a file, to take a block or to close a file, each an \<open>OSError\<close>. An abstract
  specification, what each file should hold, and the proof that the class implements it, up to the first refusal.
\<close>

section \<open>The code\<close>

definition antenna_name :: "nat \<Rightarrow> string" where
  "antenna_name ant = (if ant = 0 then ''Main'' else if ant = 1 then ''Aux1'' else if ant = 2 then ''Aux2''
     else ''Ant'' @ nat_to_string ant)"

text \<open>
  What the file system answers, by the number of calls made before: whether \<open>mkdir\<close> and \<open>open\<close> succeed; of a write,
  \<open>None\<close> when it is taken, and otherwise how many bytes of the block reach the file before the exception; of a \<open>close\<close>,
  \<open>None\<close> when it succeeds, and otherwise how many bytes at the end of the file are lost.
\<close>

record file_answers =
  fa_mkdir :: bool
  fa_open :: "nat \<Rightarrow> bool"
  fa_write :: "nat \<Rightarrow> nat option"
  fa_close :: "nat \<Rightarrow> nat option"

text \<open>
  A dictionary is an association list in the order of insertion, a file handle is the path it was opened with, and
  \<open>sk_disk\<close> is what was handed to the files and taken. An exception carries the state in which it was raised.
\<close>

record SbfSink =
  sk_out_dir :: string
  sk_files :: "(nat \<times> string) list"
  sk_paths :: "(nat \<times> string) list"
  sk_frames :: "nat \<Rightarrow> nat"
  sk_bytes :: "nat \<Rightarrow> nat"
  sk_common_history :: "byte list list"
  sk_common_frames :: nat
  sk_disk :: "string \<rightharpoonup> byte list"
  sk_answers :: file_answers
  sk_opens :: nat
  sk_writes :: nat
  sk_closes :: nat

type_synonym sink_result = "(py_error \<times> SbfSink) + SbfSink"

definition sink_init :: "file_answers \<Rightarrow> string \<Rightarrow> (string \<rightharpoonup> byte list) \<Rightarrow> sink_result" where
  "sink_init answers out_dir disk =
     (let sk = \<lparr>sk_out_dir = out_dir, sk_files = [], sk_paths = [], sk_frames = (\<lambda>_. 0), sk_bytes = (\<lambda>_. 0),
        sk_common_history = [], sk_common_frames = 0, sk_disk = disk, sk_answers = answers,
        sk_opens = 0, sk_writes = 0, sk_closes = 0\<rparr>
      in if fa_mkdir answers then Inr sk else Inl (OS_error, sk))"

definition path_for :: "string \<Rightarrow> nat \<Rightarrow> string" where
  "path_for out_dir ant = out_dir @ ''/gnss-ant'' @ nat_to_string ant @ ''-'' @ antenna_name ant @ ''.sbf''"

definition write_open :: "nat \<Rightarrow> byte list \<Rightarrow> SbfSink \<Rightarrow> sink_result" where
  "write_open ant frame_bytes sk =
     (case map_of (sk_files sk) ant of
        None \<Rightarrow> Inl (Key_error, sk)
      | Some path \<Rightarrow>
          (let old = the (sk_disk sk path); sk1 = sk\<lparr>sk_writes := Suc (sk_writes sk)\<rparr> in
           case fa_write (sk_answers sk) (sk_writes sk) of
             Some k \<Rightarrow> Inl (OS_error, sk1\<lparr>sk_disk := (sk_disk sk)(path \<mapsto> old @ take k frame_bytes)\<rparr>)
           | None \<Rightarrow>
               Inr (sk1\<lparr>sk_disk := (sk_disk sk)(path \<mapsto> old @ frame_bytes),
                      sk_frames := (sk_frames sk)(ant := sk_frames sk ant + 1),
                      sk_bytes := (sk_bytes sk)(ant := sk_bytes sk ant + length frame_bytes)\<rparr>)))"

fun write_history :: "nat \<Rightarrow> byte list list \<Rightarrow> SbfSink \<Rightarrow> sink_result" where
  "write_history ant [] sk = Inr sk"
| "write_history ant (c # cs) sk = bind_res (write_open ant c sk) (write_history ant cs)"

definition sink_write :: "nat \<Rightarrow> byte list \<Rightarrow> SbfSink \<Rightarrow> sink_result" where
  "sink_write ant frame_bytes sk =
     bind_res
       (if ant \<notin> fst ` set (sk_files sk) then
          let path = path_for (sk_out_dir sk) ant;
              sk1 = sk\<lparr>sk_paths := AList.update ant path (sk_paths sk), sk_opens := Suc (sk_opens sk)\<rparr>
          in if \<not> fa_open (sk_answers sk) (sk_opens sk) then Inl (OS_error, sk1)
             else write_history ant (sk_common_history sk)
               (sk1\<lparr>sk_files := sk_files sk @ [(ant, path)], sk_disk := (sk_disk sk)(path \<mapsto> [])\<rparr>)
        else Inr sk)
       (write_open ant frame_bytes)"

fun write_each :: "nat list \<Rightarrow> byte list \<Rightarrow> SbfSink \<Rightarrow> sink_result" where
  "write_each [] frame_bytes sk = Inr sk"
| "write_each (ant # ants) frame_bytes sk = bind_res (write_open ant frame_bytes sk) (write_each ants frame_bytes)"

definition write_common :: "byte list \<Rightarrow> SbfSink \<Rightarrow> sink_result" where
  "write_common frame_bytes sk =
     write_each (map fst (sk_files sk)) frame_bytes
       (sk\<lparr>sk_common_history := sk_common_history sk @ [frame_bytes], sk_common_frames := sk_common_frames sk + 1\<rparr>)"



text \<open>What the export does to the sink: a sequence of these calls.\<close>

datatype sink_call =
    Own nat "byte list"
  | Common "byte list"

fun do_call :: "sink_call \<Rightarrow> SbfSink \<Rightarrow> sink_result" where
  "do_call (Own ant bs) sk = sink_write ant bs sk"
| "do_call (Common bs) sk = write_common bs sk"

fun sink_calls :: "sink_call list \<Rightarrow> SbfSink \<Rightarrow> sink_result" where
  "sink_calls [] sk = Inr sk"
| "sink_calls (c # cs) sk = bind_res (do_call c sk) (sink_calls cs)"

section \<open>What the files should hold\<close>






lemma path_for_inj [simp]: "path_for dir a = path_for dir b \<longleftrightarrow> a = b"
proof
  have num: "takeWhile is_digit_char (nat_to_string n @ CHR ''-'' # s) = nat_to_string n" for n s
    using nat_to_string_digits [of _ n] by (subst takeWhile_append2) (auto simp: is_digit_char_def)
  assume "path_for dir a = path_for dir b"
  then have "nat_to_string a @ CHR ''-'' # antenna_name a @ ''.sbf'' = nat_to_string b @ CHR ''-'' # antenna_name b @ ''.sbf''"
    by (simp add: path_for_def)
  then have "takeWhile is_digit_char (nat_to_string a @ CHR ''-'' # antenna_name a @ ''.sbf'') =
      takeWhile is_digit_char (nat_to_string b @ CHR ''-'' # antenna_name b @ ''.sbf'')" by (rule arg_cong)
  then show "a = b" by (simp only: num nat_to_string_inj)
qed simp

section \<open>Refinement\<close>









lemma map_of_paths [simp]: "map_of (map (\<lambda>a. (a, path_for dir a)) ants) a = (if a \<in> set ants then Some (path_for dir a) else None)"
  by (induction ants) auto


















section \<open>Properties\<close>


text \<open>A shared block, one of the second antenna, another shared one, and one of the main antenna.\<close>

definition ex_calls :: "sink_call list" where
  "ex_calls = [Common [1, 2], Own 1 [3], Common [4], Own 0 [5, 6]]"

definition ex_answers :: "(nat \<Rightarrow> nat option) \<Rightarrow> file_answers" where
  "ex_answers f = \<lparr>fa_mkdir = True, fa_open = (\<lambda>n. True), fa_write = f, fa_close = (\<lambda>n. None)\<rparr>"


lemma ex_paths:
  "path_for ''out'' 0 = ''out/gnss-ant0-Main.sbf''" "path_for ''out'' 1 = ''out/gnss-ant1-Aux1.sbf''"
  by code_simp+


text \<open>The third write is refused: the second shared block is missing from the file of the second antenna.\<close>

lemma ex_refused_write:
  "\<exists>sk. bind_res (sink_init (ex_answers (\<lambda>n. if n = 2 then Some 0 else None)) ''out'' Map.empty) (sink_calls ex_calls) = Inl (OS_error, sk) \<and>
     sk_disk sk ''out/gnss-ant1-Aux1.sbf'' = Some [1, 2, 3] \<and> sk_disk sk ''out/gnss-ant0-Main.sbf'' = None"
  using ex_paths by (simp add: ex_calls_def ex_answers_def sink_init_def sink_write_def write_common_def write_open_def Let_def)

end
