(* ===== verification/OfflineExport.thy ===== *)
theory OfflineExport
  imports DriverProps OfflineSink
begin

text \<open>
  From the receiver to the offline parser: what src/scripts/parser.py reads out of the files that a run of the driver
  leaves behind.
\<close>

section \<open>What a run leaves on disk\<close>

definition files_hold :: "disk_world \<Rightarrow> Frame list list \<Rightarrow> bool" where
  "files_hold k parts \<longleftrightarrow> map (w_disk k) (w_opened k) = map (\<lambda>fs. Some (content fs)) parts"

lemma record_chunks_files:
  assumes "SbfRecorder_ctor cfg k = Inr st" and "w_opened k = []" and "closes_ok k"
    and "record_chunks cs st = Inr (r', k')"
  shows "closes_ok k' \<and> (\<exists>parts. files_hold k' parts \<and> concat parts = scan_frames (concat cs))"
proof -
  obtain r where st: "st = (r, k)" using ctor_ok(1) assms(1,2) by (cases st) blast
  note r = ctor_ok [OF assms(1) [unfolded st] assms(2)]
  show ?thesis
  proof (cases "cs = []")
    case True
    with assms st show ?thesis by (auto simp: files_hold_def intro!: exI [of _ "[]"])
  next
    case False
    have "sync_pend SbfFrameSync_init = []" using run_init [of "[]"] by auto
    with False outcome_of_record_chunks [OF r(2), of cs] r(4) st assms(3,4) sync_inv_init show ?thesis
      by (auto simp: outcome_of_def files_hold_def rec_rel_def)
  qed
qed

definition left_readable :: "driver_world \<Rightarrow> driver_world \<Rightarrow> bool" where
  "left_readable w w' \<longleftrightarrow>
     (\<exists>bs parts. rx (dw_data w) = bs @ rx (dw_data w') \<and> files_hold (dw_disk w') parts \<and> concat parts = scan_frames bs)"

lemma left_readable_idle: "w_opened (dw_disk w) = [] \<Longrightarrow> left_readable w w"
  unfolding left_readable_def by (intro exI [of _ "[]"]) (simp add: files_hold_def)

lemma run_recorder_readable:
  assumes "w_opened (dw_disk w) = []" and "closes_ok (dw_disk w)" and "run_recorder stop cfg w = (Exit 0, w')"
  shows "left_readable w w'"
proof -
  obtain st where st: "SbfRecorder_ctor (recorder_config cfg) (dw_disk w) = Inr st"
    using assms(3) by (cases "SbfRecorder_ctor (recorder_config cfg) (dw_disk w)") (auto simp: run_recorder_def)
  obtain l d r k where loop: "record_loop stop 0 (dw_data w) st = (l, d, (r, k))" by (metis prod_cases3 surj_pair)
  obtain q c where q: "stop_streams (receiver cfg) (dw_ctrl w) = (q, c)" by fastforce
  obtain r1 k1 where close: "SbfRecorder_close (r, k) = (r1, k1)" by fastforce
  have run: "l = Loop_left \<and> dw_data w' = d \<and> dw_disk w' \<in> {k, k1}"
    using assms(3) by (cases l; cases q) (auto simp: run_recorder_def st loop q close)
  obtain cs where cs: "rx (dw_data w) = concat cs @ rx d" "record_chunks cs st = Inr (r, k)"
    using record_loop_chunks [OF loop] run by auto
  from record_chunks_files [OF st assms(1,2) cs(2)] obtain parts where
    k: "closes_ok k" "files_hold k parts" "concat parts = scan_frames (concat cs)" by blast
  have "files_hold k1 parts"
    using close k(1,2) by (auto simp: SbfRecorder_close_def fclose_lossless files_hold_def split: option.splits)
  with run cs k show ?thesis unfolding left_readable_def by auto
qed

lemma run_driver_readable:
  assumes "w_opened (dw_disk w) = []" and "closes_ok (dw_disk w)" and "run_driver stop cfg w = (Exit 0, w')"
  shows "left_readable w w'"
proof -
  obtain q c where c: "configure cfg (dw_ctrl w) = (q, c)" by fastforce
  obtain p d where d: "TcpClient_connect (host cfg) (ips_port (receiver cfg)) (dw_data w) = (p, d)" by fastforce
  let ?w = "w\<lparr>dw_ctrl := c, dw_data := d\<rparr>"
  from c d assms(3) have "run_recorder stop cfg ?w = (Exit 0, w')" by (cases q; cases p) (auto simp: run_driver_def)
  from run_recorder_readable [OF _ _ this] assms(1,2) connect_rx [OF d] show ?thesis by (simp add: left_readable_def)
qed

lemma leave_main_readable: "left_readable w w1 \<Longrightarrow> leave_main (Exit 0, w1) = (Exit 0, w') \<Longrightarrow> left_readable w w'"
  by (auto simp: left_readable_def leave_main_def)

lemma main_readable:
  assumes "w_opened (dw_disk w) = []" and "closes_ok (dw_disk w)" and "main Y sink_throws stop argv w = (Exit 0, w')"
  shows "left_readable w w'"
proof (cases "w' = w")
  case True
  then show ?thesis using assms(1) by (simp add: left_readable_idle)
next
  case False
  then obtain cfg w1 where "run_driver stop cfg w = (Exit 0, w1)" "leave_main (Exit 0, w1) = (Exit 0, w')"
    using main_ran [OF assms(3)] by blast
  then show ?thesis using run_driver_readable [OF assms(1,2)] leave_main_readable by blast
qed

section \<open>What the parser reads\<close>

definition file_bytes :: "driver_world \<Rightarrow> string \<Rightarrow> byte list" where
  "file_bytes w p = the (w_disk (dw_disk w) p)"

lemma files_hold_read:
  assumes "files_hold k parts" and "\<forall>fs \<in> set parts. \<forall>f \<in> set fs. valid_frame f"
  shows "concat (map (\<lambda>p. map to_frame (iter_frames (the (w_disk k p)))) (w_opened k)) = concat parts"
    and "p \<in> set (w_opened k) \<Longrightarrow> rs_recognized_bytes (raw_scan (the (w_disk k p))) = int (length (the (w_disk k p))) \<and>
      rs_crc_fails (raw_scan (the (w_disk k p))) = 0"
proof -
  have "map (\<lambda>d. the d) (map (w_disk k) (w_opened k)) = map content parts"
    using assms(1) by (simp add: files_hold_def comp_def)
  then have bytes: "map (\<lambda>p. the (w_disk k p)) (w_opened k) = map content parts" by (simp add: comp_def)
  have "map (\<lambda>p. map to_frame (iter_frames (the (w_disk k p)))) (w_opened k) =
      map (\<lambda>d. map to_frame (iter_frames d)) (map (\<lambda>p. the (w_disk k p)) (w_opened k))" by simp
  also have "\<dots> = map (\<lambda>fs. map to_frame (iter_frames (content fs))) parts" unfolding bytes by simp
  also have "\<dots> = parts" using assms(2) by (intro map_idI) (simp add: iter_wires)
  finally show "concat (map (\<lambda>p. map to_frame (iter_frames (the (w_disk k p)))) (w_opened k)) = concat parts" by simp
  assume "p \<in> set (w_opened k)"
  then have "the (w_disk k p) \<in> set (map content parts)" unfolding bytes [symmetric] by simp
  then obtain fs where "fs \<in> set parts" "the (w_disk k p) = concat (map wire fs)" by auto
  with whole_frames(3,4) [of fs] assms(2) show "rs_recognized_bytes (raw_scan (the (w_disk k p))) = int (length (the (w_disk k p))) \<and>
      rs_crc_fails (raw_scan (the (w_disk k p))) = 0" by simp
qed

text \<open>
  C7: What the driver records, the offline parser reads. After every run that exits with code 0, on a disk on which
  closing a file loses nothing, the frames the parser finds in the files, in the order the files were opened, are
  exactly the frames that the driver's specification finds in the bytes taken from the receiver; and the parser's
  statistics of each file show no byte outside a frame and no checksum failure.
\<close>

theorem recordings_are_readable:
  assumes "w_opened (dw_disk w) = []" and "closes_ok (dw_disk w)" and "main Y sink_throws stop argv w = (Exit 0, w')"
  shows "\<exists>bs. rx (dw_data w) = bs @ rx (dw_data w') \<and>
     concat (map (\<lambda>p. map to_frame (iter_frames (file_bytes w' p))) (w_opened (dw_disk w'))) = scan_frames bs \<and>
     (\<forall>p \<in> set (w_opened (dw_disk w')). rs_recognized_bytes (raw_scan (file_bytes w' p)) = int (length (file_bytes w' p)) \<and>
        rs_crc_fails (raw_scan (file_bytes w' p)) = 0)"
proof -
  obtain bs parts where bs: "rx (dw_data w) = bs @ rx (dw_data w')" "files_hold (dw_disk w') parts" "concat parts = scan_frames bs"
    using main_readable [OF assms] unfolding left_readable_def by blast
  have "\<forall>f \<in> set (concat parts). valid_frame f" unfolding bs(3) using scan_frames_valid by blast
  then have "\<forall>fs \<in> set parts. \<forall>f \<in> set fs. valid_frame f" by auto
  from files_hold_read [OF bs(2) this] bs(1,3) show ?thesis unfolding file_bytes_def by auto
qed

theorem recordings_are_readable_witness:
  "\<exists>w' bs. main (ex_yaml ex_run_doc) (\<lambda>_ _ _. False) (\<lambda>_. False) [''--config'', ''c.yaml''] ex_run = (Exit 0, w') \<and>
     rx (dw_data ex_run) = bs @ rx (dw_data w') \<and>
     concat (map (\<lambda>p. map to_frame (iter_frames (file_bytes w' p))) (w_opened (dw_disk w'))) = scan_frames bs"
  using ex_main_exit recordings_are_readable [OF ex_run_disk(2) device_closes [OF ex_run_disk(3)]] by blast

end
