(* ===== verification/Spec2Isabelle.thy ===== *)
theory Spec2Isabelle
  imports Prelude CppString CppDouble Chunked Crc16 FrameSyncProps RecorderProps TcpClient ReceiverConfigProps
    AppConfig ByteView DriverProps CloseLosses NtripDescriptors NtripTable NtripForward NtripFair
    NtripCallback OfflineExtra OfflineExport
begin

text \<open>
  \<^bold>\<open>A model of asterx_driver and what it guarantees.\<close>

  asterx_driver configures a Septentrio AsteRx receiver over a TCP control connection, reads the SBF stream
  that the receiver sends on a second TCP connection, and writes the valid frames to files. Beside the
  program, the repository has an NTRIP client that fetches correction data from a caster and forwards it over
  raw Ethernet, and a Python script that reads the recorded files. This development models the C++ sources of
  the program and of the client, function by function, and the part of the script that handles frames.

  \<^bold>\<open>The parts and how they interact.\<close> \<open>main\<close> (src/src/main.cpp) reads the arguments, loads the configuration
  file (app_config.cpp), connects a \<open>TcpClient\<close> (tcp_client.cpp) to the control port, logs in and runs
  \<open>ReceiverConfigurator::apply\<close> (receiver_config.cpp) on it, connects a second \<open>TcpClient\<close> to the data port
  and hands every chunk that \<open>read_some\<close> returns to \<open>SbfRecorder::feed\<close> (sbf_recorder.cpp), which hands it
  to \<open>SbfFrameSync::feed\<close> (sbf/frame_sync.cpp), which checks frames with the checksum of
  sbf/crc16_xmodem.hpp. On the way out it stops the streams. The NTRIP client (ntrip/ins401_ntrip_client.cpp)
  is a library of its own: a connection with HTTP handshake and reconnection, a receiving and a processing
  thread around a bounded queue that hands messages to callbacks, and a class that sends messages over Ethernet and
  is meant to be such a callback. The script (scripts/parser.py) walks
  over the frames of a recording and writes them to one file per antenna.

  \<^bold>\<open>How the code becomes definitions.\<close>
  \<^item> A class is a \<^theory_text>\<open>record\<close> with the names of its members, a method is a definition named after it
    (prefixed by the class where names clash), taking and returning the object. Loops are recursive functions,
    which all have a termination proof; there is no fuel. Loops of the code that wait for the outside end
    because every round uses up part of a script (next item).
  \<^item> The operating system is a script: lists of the results that \<open>send\<close>, \<open>poll\<close>, \<open>recv\<close>, \<open>select\<close> and the calls
    into OpenSSL will give, in order, and streams of clock readings and of answers of \<open>fopen\<close>, \<open>fwrite\<close> and
    \<open>fclose\<close>. The theorems hold for every script. A blocking call on an exhausted script is one that does not
    return, and its result is the constructor \<open>Blocked\<close>; a claim that the code returns excludes it.
  \<^item> An exception is a value with the parts of its message. Reading outside a container, a failed \<open>assert\<close> and
    an unsigned difference that wraps where a size is meant are faults of their own, so that their absence
    is a theorem. \<open>std::terminate\<close> is an exit status, respectively a state of the owner.
  \<^item> Integers have the width of the code (\<open>byte\<close>, \<open>u16\<close>, \<open>u64\<close>), \<open>double\<close> is an exact rational or an
    infinity or not a number, rounded to 53 bits where the code rounds. Unbounded, although the code has an \<open>int\<close> or a
    duration, are the number in the names of the recordings, the rotation interval and the numbers among the options of
    the NTRIP client, of which \<open>LoadConfig\<close> sets only the port.
  \<^item> Code outside the repository is a parameter: the record \<open>yaml\<close> of operations of yaml-cpp, the record
    \<open>ntrip_lib\<close> with the descriptor guard, the base64 filter and the error texts of OpenSSL, \<open>strerror\<close> and string
    splitting, the record \<open>ethernet\<close> with the socket, the MAC address parsing and the packet building, when the
    callbacks of the NTRIP client throw, and when the file sink of the logging library throws. The examples behind
    the witnesses instantiate them.

  \<^bold>\<open>The theories.\<close>
  \<^item> Prelude, CppString, CppDouble: integer types, results, and what the sources use of \<open>std::string\<close>, of
    \<open>double\<close> (\<open>round_double\<close>, \<open>print_fixed\<close>, \<open>parse_double\<close>) and of the streams.
  \<^item> Chunked: two locales for stream processing in pieces. \<open>incremental_parser\<close> is a parser that can be
    resumed, \<open>chunked_parser\<close> an object that implements one; its theorem is that results depend on the stream
    only. Interpreted on the scanner (FrameScan), on \<open>SbfFrameSync\<close> (FrameSyncCorrect) and on
    \<open>ChunkRTCMData\<close> (NtripThreads).
  \<^item> Crc16: \<open>make_crc_table\<close>, \<open>crc_ccitt_xmodem\<close>, the bit-serial reference, their equivalence and the
    detection of errors within two bytes (locale \<open>crc_register\<close>).
  \<^item> FrameSync: \<open>SbfFrameSync_feed\<close> with its four states, resynchronisation and deferred erase, and
    \<open>SbfFrameSync_reset\<close>. FrameScan: the specification, a scanner that is a function of the whole stream.
    FrameSyncCorrect: object invariant, loop invariant and simulation. FrameSyncProps: no faults, refinement
    of the scanner, independence of the chunks, no frame lost, round trip, buffer bound, counters.
  \<^item> Recorder: \<open>SbfRecorder\<close> with file names, opening, rotation and statistics over an explicit disk.
    Closing a file may lose its buffered end. RecorderProps: the files hold the frames of the stream; they rotate
    exactly when \<open>rotate_bytes\<close> is reached or when the clock is \<open>rotate_interval\<close> past the reading at which the very file
    was opened (\<open>rotation_due\<close>, \<open>opened_at\<close>: readings of the clock are numbered); statistics; failing devices.
  \<^item> ByteView: \<open>MutByteSpan\<close> and \<open>ConstByteSpan\<close> over an explicit memory; what was stored through the one is what is
    seen through the other, which is why the other theories take byte lists.
  \<^item> TcpClient: \<open>connect\<close>, \<open>close\<close>, \<open>write_all\<close>, \<open>read_some\<close>, \<open>read_exact\<close>, \<open>read_until\<close>; completion of the
    loops and the descriptors of \<open>connect\<close>.
  \<^item> ReceiverConfig: command builders, reply parsers, \<open>validate_receiver_settings\<close>, \<open>send_command\<close>, \<open>login\<close>,
    \<open>apply\<close>, \<open>stop_streams\<close>. ReceiverDialogue: the specification of \<open>apply\<close> as a list of steps (\<open>plan\<close>), and
    the locales \<open>command_port\<close> (what was sent), \<open>answering_port\<close> (progress) and \<open>keeping_port\<close> (what a
    command leaves alone), all interpreted on \<open>send_command\<close>. ReceiverConfigProps: refinement of the plan,
    order of the commands, soundness of the verification, best effort of \<open>stop_streams\<close>, redaction.
  \<^item> AppConfig: \<open>load_app_config\<close> section by section; what loads is valid.
  \<^item> Driver: \<open>parse_args\<close>, \<open>setup_logging\<close>, the recording loop, and \<open>main\<close> with its exit codes and with the
    destructors on every way out; the stop flag set by the signal handler is a stream of observations.
    DriverProps: what is on disk after any run, completion on a cooperating receiver, what every exit closes,
    the exit codes. CloseLosses: a simulation between a run whose closes lose bytes and the run whose closes
    lose nothing.
  \<^item> NtripClient: the constructor, \<open>Connect\<close> and the steps it is made of, \<open>SendGGA\<close>, \<open>HandleReconnect\<close>,
    \<open>GetStatistics\<close>, \<open>GetSourceTable\<close>. NtripClientProps: schedule of the reconnections, the request on the wire,
    the handshake. NtripDescriptors: the invariant between \<open>socket_fd_\<close> and the open descriptors. NtripTable: a
    source table comes back as it was written, as far as \<open>SplitString\<close> (not in the repository) splits its lines, and
    the distance between position reports.
  \<^item> NtripThreads: \<open>ChunkRTCMData\<close>, and the step relation \<open>nstep\<close> of the receiving thread, the processing
    thread and the owner (\<open>StartReceiving\<close>, the callback setters, \<open>SetNmeaGga\<close>, \<open>Disconnect\<close>, destructor), with the
    mutex and the condition variable of the queue; every interleaving is a run, and the calls of the callbacks are
    part of the state. The model covers a queue for at least one chunk; with a limit of 0 the code pops an empty queue.
    NtripThreadsProps: invariants by rule induction, with what was handed to the recording's stream when it could be
    opened and when not, and the ways in which stopping goes wrong as reachable states. NtripProgress: from every state in which the client receives, the pipeline can be run empty.
    Fairness: infinite runs of a step relation that are fair to a set of workers, and the locale \<open>just_response\<close>, the
    rule that a helpful worker at every distance leads to the goal. NtripFair: its interpretation on \<open>nstep\<close>; in
    every run that is fair to the two threads, and in which the client keeps receiving, each chunk received is handled.
  \<^item> NtripForward: from the bytes of the caster to the calls of a data callback, across the queue and the threads.
    NtripCallback: initialisation, sending with retries and the counters of \<open>NTRIPCallback\<close>, over any socket.
  \<^item> OfflineParser: the checksum of the script, \<open>iter_frames\<close>, \<open>raw_scan\<close>, \<open>verify_sbf_bytes\<close> and
    \<open>rebuild_sbf_frame\<close>; one induction rule for the three walks, their agreement with each other and with the
    scanner of FrameScan. OfflineSink: the class \<open>SbfSink\<close> refines a specification of what each antenna's file
    holds; when the file system refuses something, up to the call that raises. OfflineExtra: splitting and filtering the sub-blocks of a MeasExtra block. OfflineExport: the composition
    with the driver, from the bytes of the receiver to what the script reads out of the files.

  \<^bold>\<open>What modelling showed.\<close> Some theorems state what the code does where its comments or its intent say
  something else: error counters of the synchroniser that depend on the chunks
  (\<open>error_counters_depend_on_chunking\<close>), \<open>read_some\<close> returning 0 on an interruption
  (\<open>read_some_zero_on_interrupt\<close>), a socket lost when \<open>fcntl\<close> fails (\<open>connect_fcntl_failure_leaks\<close>), frames lost
  at the end of a file without notice (\<open>close_losses_unnoticed\<close>), a negative number of log files
  (\<open>negative_log_files_wrap\<close>), and in the NTRIP client: a stop that can hang, a reconnection after which nothing
  is read, a destructor that can terminate the process, a backoff without effect when RTK is required,
  correction data cut at a zero byte, a descriptor closed twice, a position report that splits the request, and
  one sent in part that counts as sent, a backoff that starts later than its comment says, data of an old connection
  that stays pending (\<open>stale_pending_data\<close>), and a source table that is not read at all because of one line
  (\<open>bad_carrier_thrown\<close>).

  \<^bold>\<open>Not modelled.\<close> Log output, except where a logged text goes into an exception; the work of the callbacks
  (their calls are recorded and they may throw; \<open>SendToINS401\<close> is modelled on its own, since nothing in the repository
  installs it); the name of the RTCM recording file and writes to it that fail, so that \<open>base_data\<close> is what was handed
  to its stream; the struct \<open>HTTPResponse\<close>, which nothing uses. In the
  thread model each step is atomic between two accesses to the queue, its mutex, its condition variable or the
  flags; data races on plain members are not modelled. Of scripts/parser.py: the decoders of the blocks' contents,
  which compute with floating point numbers, the CSV files and the command line. The tests and the build files are
  outside. Of the C++ sources, what is left is declarations, constants, log messages and one-line accessors.
\<close>

end
